(* ===== verification/Ehci_Prelude.thy ===== *)
theory Ehci_Prelude
  imports Main "HOL-Library.Word"
begin

text \<open>
  The vocabulary the component theories share: the machine integers of the driver (the
  primitive types of Rust and the \<^verbatim>\<open>uN\<close> types of \<^verbatim>\<open>arbitrary_int\<close>, all as words of their
  width), panics as values of a sum type, checked arithmetic, the accessors that a
  \<^verbatim>\<open>#[bitfield]\<close> declaration stands for, and byte strings.

  \<^item> A function of the driver that can panic returns \<open>'a outcome\<close>: \<open>Inl\<close> is the panic,
    \<open>Inr\<close> the value.  Rust's arithmetic is modelled with overflow checks on (the default of
    a development build), so an overflow is the panic \<open>ArithmeticOverflow\<close>.
  \<^item> \<^verbatim>\<open>#[bits(lo..=hi, rw)] f: uN\<close> declares that the field \<open>f\<close> is the \<open>N = hi - lo + 1\<close> bits
    from \<open>lo\<close> on; its getter is \<open>bits_get lo\<close> and \<^verbatim>\<open>with_f\<close>/\<^verbatim>\<open>set_f\<close> is \<open>bits_set lo\<close>, with the
    width taken from the type of the field.  \<^verbatim>\<open>#[bit(i, rw)] f: bool\<close> is \<open>flag_get i\<close> and
    \<open>flag_set i\<close>.
\<close>

unbundle bit_operations_syntax

named_theorems bitfield \<open>reading back fields of a bitfield after writes\<close>

subsection \<open>Machine integers\<close>

type_synonym u2 = "2 word"
type_synonym u3 = "3 word"
type_synonym u4 = "4 word"
type_synonym u5 = "5 word"
type_synonym u7 = "7 word"
type_synonym u8 = "8 word"
type_synonym u11 = "11 word"
type_synonym u12 = "12 word"
type_synonym u15 = "15 word"
type_synonym u16 = "16 word"
type_synonym u20 = "20 word"
type_synonym u26 = "26 word"
type_synonym u27 = "27 word"
type_synonym u31 = "31 word"
type_synonym u32 = "32 word"
type_synonym u64 = "64 word"
type_synonym u128 = "128 word"

text \<open>A virtual address (\<^verbatim>\<open>NonNull<T>\<close>); a byte string.\<close>

type_synonym vptr = "64 word"
type_synonym bytes = "8 word list"

subsection \<open>Panics\<close>

datatype panic_reason =
    ArithmeticOverflow
  | IntOutOfRange
  | IndexOutOfBounds
  | UnwrapFailed
  | AssertFailed
  | ExplicitPanic string
  | NotImplemented string

type_synonym 'a outcome = "panic_reason + 'a"

definition obind :: "'a outcome \<Rightarrow> ('a \<Rightarrow> 'b outcome) \<Rightarrow> 'b outcome" where
  "obind r f = (case r of Inl e \<Rightarrow> Inl e | Inr x \<Rightarrow> f x)"

lemma obind_simps [simp]:
  "obind (Inl e) f = Inl e"
  "obind (Inr x) f = f x"
  by (simp_all add: obind_def)

lemma obind_eq_Inr_iff: "obind r f = Inr y \<longleftrightarrow> (\<exists>x. r = Inr x \<and> f x = Inr y)"
  by (cases r) simp_all

lemma obind_eq_Inl_iff: "obind r f = Inl e \<longleftrightarrow> r = Inl e \<or> (\<exists>x. r = Inr x \<and> f x = Inl e)"
  by (cases r) simp_all

lemma obind_assoc: "obind (obind r f) g = obind r (\<lambda>x. obind (f x) g)"
  by (cases r) simp_all

definition unwrap_opt :: "'a option \<Rightarrow> 'a outcome" where
  "unwrap_opt x = (case x of None \<Rightarrow> Inl UnwrapFailed | Some y \<Rightarrow> Inr y)"

lemma unwrap_opt_simps [simp]:
  "unwrap_opt None = Inl UnwrapFailed"
  "unwrap_opt (Some y) = Inr y"
  by (simp_all add: unwrap_opt_def)

lemma unwrap_opt_eq_Inr_iff [simp]: "unwrap_opt x = Inr y \<longleftrightarrow> x = Some y"
  by (cases x) simp_all

subsection \<open>Checked arithmetic\<close>

definition checked_add :: "'a::len word \<Rightarrow> 'a word \<Rightarrow> 'a word outcome" where
  "checked_add a b =
     (if unat a + unat b < 2 ^ LENGTH('a) then Inr (a + b) else Inl ArithmeticOverflow)"

definition checked_sub :: "'a::len word \<Rightarrow> 'a word \<Rightarrow> 'a word outcome" where
  "checked_sub a b = (if b \<le> a then Inr (a - b) else Inl ArithmeticOverflow)"

text \<open>\<^verbatim>\<open>uN::new(v)\<close> panics when \<open>v\<close> does not fit in \<open>N\<close> bits.\<close>

definition uint_new :: "nat \<Rightarrow> 'a::len word outcome" where
  "uint_new n = (if n < 2 ^ LENGTH('a) then Inr (of_nat n) else Inl IntOutOfRange)"

lemma checked_add_Inr_iff:
  "checked_add a b = Inr (c :: 'a::len word) \<longleftrightarrow> unat a + unat b < 2 ^ LENGTH('a) \<and> c = a + b"
  by (auto simp: checked_add_def)

lemma checked_sub_Inr_iff: "checked_sub a b = Inr c \<longleftrightarrow> b \<le> a \<and> c = a - b"
  by (auto simp: checked_sub_def)

lemma uint_new_Inr_iff:
  "uint_new n = Inr (w :: 'a::len word) \<longleftrightarrow> n < 2 ^ LENGTH('a) \<and> w = of_nat n"
  by (auto simp: uint_new_def)

lemma unat_uint_new: "uint_new n = Inr w \<Longrightarrow> unat w = n"
  by (auto simp: uint_new_Inr_iff unat_of_nat take_bit_nat_eq_self)

lemma uint_new_unat: "uint_new (unat (w :: 'a::len word)) = Inr w"
  by (simp add: uint_new_def)

subsection \<open>Slices\<close>

text \<open>\<^verbatim>\<open>&s[from..from + n]\<close> panics when the range runs past the end of the slice.\<close>

definition slice_range :: "'a list \<Rightarrow> nat \<Rightarrow> nat \<Rightarrow> 'a list outcome" where
  "slice_range s from n =
     (if from + n \<le> length s then Inr (take n (drop from s)) else Inl IndexOutOfBounds)"

definition index_list :: "'a list \<Rightarrow> nat \<Rightarrow> 'a outcome" where
  "index_list s i = (if i < length s then Inr (s ! i) else Inl IndexOutOfBounds)"

lemma slice_range_Inr_iff:
  "slice_range s from n = Inr t \<longleftrightarrow> from + n \<le> length s \<and> t = take n (drop from s)"
  by (auto simp: slice_range_def)

lemma slice_range_append_mid [simp]:
  "slice_range (pre @ mid @ post) (length pre) (length mid) = Inr mid"
  by (simp add: slice_range_def)

lemma index_list_Inr_iff [simp]: "index_list s i = Inr x \<longleftrightarrow> i < length s \<and> x = s ! i"
  by (auto simp: index_list_def)

text \<open>\<^verbatim>\<open>u16::to_le_bytes\<close> and \<^verbatim>\<open>U16::get\<close> of \<^verbatim>\<open>zerocopy::little_endian\<close>.\<close>

definition u16_to_le_bytes :: "u16 \<Rightarrow> bytes" where
  "u16_to_le_bytes w = [ucast w, ucast (drop_bit 8 w)]"

definition u16_from_le_bytes :: "u8 \<Rightarrow> u8 \<Rightarrow> u16" where
  "u16_from_le_bytes lo hi = ucast lo OR push_bit 8 (ucast hi)"

subsection \<open>Bitfields\<close>

definition bits_get :: "nat \<Rightarrow> 'a::len word \<Rightarrow> 'b::len word" where
  "bits_get lo w = ucast (drop_bit lo w)"

definition bits_set :: "nat \<Rightarrow> 'b::len word \<Rightarrow> 'a::len word \<Rightarrow> 'a word" where
  "bits_set lo v w = (w AND NOT (push_bit lo (mask LENGTH('b)))) OR push_bit lo (ucast v)"

definition flag_get :: "nat \<Rightarrow> 'a::len word \<Rightarrow> bool" where
  "flag_get i w = bit w i"

definition flag_set :: "nat \<Rightarrow> bool \<Rightarrow> 'a::len word \<Rightarrow> 'a word" where
  "flag_set i b w = (if b then Bit_Operations.set_bit i w else unset_bit i w)"

lemma bit_bits_get:
  "bit (bits_get lo (w :: 'a::len word) :: 'b::len word) i \<longleftrightarrow> i < LENGTH('b) \<and> bit w (lo + i)"
  by (auto simp: bits_get_def bit_simps dest: bit_imp_le_length)

lemma bit_bits_set:
  "bit (bits_set lo (v :: 'b::len word) (w :: 'a::len word)) i \<longleftrightarrow>
     i < LENGTH('a) \<and> (if lo \<le> i \<and> i < lo + LENGTH('b) then bit v (i - lo) else bit w i)"
  by (auto simp: bits_set_def bit_simps dest: bit_imp_le_length)

lemma bit_flag_set:
  "bit (flag_set n b (w :: 'a::len word)) i \<longleftrightarrow>
     i < LENGTH('a) \<and> (if i = n then b else bit w i)"
  by (auto simp: flag_set_def bit_simps dest: bit_imp_le_length)

lemma bits_get_bits_set_same [bitfield]:
  fixes w :: "'a::len word" and v :: "'b::len word"
  assumes "lo + LENGTH('b) \<le> LENGTH('a)"
  shows "bits_get lo (bits_set lo v w) = v"
  using assms by (intro bit_word_eqI) (simp add: bit_bits_get bit_bits_set)

lemma bits_get_bits_set_other [bitfield]:
  fixes w :: "'a::len word" and v :: "'c::len word"
  assumes "lo + LENGTH('b) \<le> lo' \<or> lo' + LENGTH('c) \<le> lo"
  shows "(bits_get lo (bits_set lo' v w) :: 'b::len word) = bits_get lo w"
  using assms
  by (intro bit_word_eqI) (auto simp: bit_bits_get bit_bits_set dest: bit_imp_le_length)

lemma bits_get_flag_set [bitfield]:
  fixes w :: "'a::len word"
  assumes "i < lo \<or> lo + LENGTH('b) \<le> i"
  shows "(bits_get lo (flag_set i b w) :: 'b::len word) = bits_get lo w"
  using assms
  by (intro bit_word_eqI) (auto simp: bit_bits_get bit_flag_set dest: bit_imp_le_length)

lemma flag_get_flag_set_same [bitfield]:
  "i < LENGTH('a) \<Longrightarrow> flag_get i (flag_set i b (w :: 'a::len word)) = b"
  by (simp add: flag_get_def bit_flag_set)

lemma flag_get_flag_set_other [bitfield]:
  "i \<noteq> j \<Longrightarrow> flag_get i (flag_set j b (w :: 'a::len word)) = flag_get i w"
  by (auto simp: flag_get_def bit_flag_set dest: bit_imp_le_length)

lemma flag_get_bits_set [bitfield]:
  fixes w :: "'a::len word" and v :: "'c::len word"
  assumes "i < lo \<or> lo + LENGTH('c) \<le> i"
  shows "flag_get i (bits_set lo v w) = flag_get i w"
  using assms by (auto simp: flag_get_def bit_bits_set dest: bit_imp_le_length)

lemma bitfield_zero [bitfield]:
  "bits_get lo 0 = 0" "\<not> flag_get i 0"
  by (simp_all add: bits_get_def flag_get_def)

text \<open>
  The contract of one field of a bitfield: what a reader sees after a write, and that a
  write of the value already there changes nothing.
\<close>

locale bit_field =
  fixes getf :: "'w \<Rightarrow> 'v" and setf :: "'v \<Rightarrow> 'w \<Rightarrow> 'w"
  assumes get_set: "getf (setf v w) = v"
    and set_set: "setf v' (setf v w) = setf v' w"
    and set_get: "setf (getf w) w = w"
begin

lemma set_eq_iff: "setf v w = w \<longleftrightarrow> getf w = v"
  using get_set set_get by metis

lemma set_inject: "setf v w = setf v' w \<longleftrightarrow> v = v'"
  by (metis get_set)

end

text \<open>Two fields that do not share a bit.\<close>

locale bit_field_pair =
  a: bit_field geta seta + b: bit_field getb setb
  for geta :: "'w \<Rightarrow> 'v" and seta :: "'v \<Rightarrow> 'w \<Rightarrow> 'w"
    and getb :: "'w \<Rightarrow> 'u" and setb :: "'u \<Rightarrow> 'w \<Rightarrow> 'w" +
  assumes get_a_set_b: "geta (setb u w) = geta w"
    and get_b_set_a: "getb (seta v w) = getb w"
begin

lemma get_both: "geta (setb u (seta v w)) = v \<and> getb (setb u (seta v w)) = u"
  by (simp add: a.get_set b.get_set get_a_set_b)

end

lemma bit_field_bits:
  assumes "lo + LENGTH('b) \<le> LENGTH('a)"
  shows "bit_field (bits_get lo :: 'a::len word \<Rightarrow> 'b::len word) (bits_set lo)"
proof
  fix v v' :: "'b word" and w :: "'a word"
  show "bits_get lo (bits_set lo v w) = v"
    using assms by (rule bits_get_bits_set_same)
  show "bits_set lo v' (bits_set lo v w) = bits_set lo v' w"
    by (rule bit_word_eqI) (simp add: bit_bits_set)
  show "bits_set lo (bits_get lo w :: 'b word) w = w"
    by (rule bit_word_eqI) (auto simp: bit_bits_set bit_bits_get)
qed

lemma bit_field_flag:
  assumes "i < LENGTH('a)"
  shows "bit_field (flag_get i :: 'a::len word \<Rightarrow> bool) (flag_set i)"
proof
  fix v v' :: bool and w :: "'a word"
  show "flag_get i (flag_set i v w) = v"
    using assms by (rule flag_get_flag_set_same)
  show "flag_set i v' (flag_set i v w) = flag_set i v' w"
    by (rule bit_word_eqI) (simp add: bit_flag_set)
  show "flag_set i (flag_get i w) w = w"
    by (rule bit_word_eqI) (auto simp: bit_flag_set flag_get_def)
qed

subsection \<open>Words\<close>

lemma bytes_of_u16 [simp]:
  "u16_from_le_bytes (ucast (w :: u16)) (ucast (drop_bit 8 w)) = w"
  by (rule bit_word_eqI) (auto simp: u16_from_le_bytes_def bit_simps)

lemma u16_le_bytes_of [simp]:
  "u16_to_le_bytes (u16_from_le_bytes lo hi) = [lo, hi]"
proof -
  have "(ucast (u16_from_le_bytes lo hi) :: u8) = lo"
    by (rule bit_word_eqI) (auto simp: u16_from_le_bytes_def bit_simps)
  moreover have "(ucast (drop_bit 8 (u16_from_le_bytes lo hi)) :: u8) = hi"
    by (rule bit_word_eqI) (auto simp: u16_from_le_bytes_def bit_simps dest: bit_imp_le_length)
  ultimately show ?thesis by (simp add: u16_to_le_bytes_def)
qed

text \<open>A 32-bit address with its five low bits clear.\<close>

definition aligned32 :: "'a::len word \<Rightarrow> bool" where
  "aligned32 a \<longleftrightarrow> take_bit 5 a = 0"

lemma aligned32_bit: "aligned32 a \<Longrightarrow> i < 5 \<Longrightarrow> \<not> bit a i"
  by (metis aligned32_def bit_0_eq bit_take_bit_iff bot_apply bot_bool_def)

lemma aligned32_push_drop: "aligned32 (a :: 'a::len word) \<Longrightarrow> push_bit 5 (drop_bit 5 a) = a"
proof (rule bit_word_eqI)
  fix n assume "aligned32 a" "n < LENGTH('a)"
  then show "bit (push_bit 5 (drop_bit 5 a)) n = bit a n"
    using aligned32_bit [of a n] by (cases "5 \<le> n") (simp_all add: bit_simps)
qed

subsection \<open>Chains\<close>

lemma successively_frame:
  assumes "successively P zs"
    and "\<And>x y. x \<in> set (butlast zs) \<Longrightarrow> y \<in> set (tl zs) \<Longrightarrow> P x y \<Longrightarrow> Q x y"
  shows "successively Q zs"
  using assms
proof (induction zs rule: induct_list012)
  case (3 x y zs)
  from "3.prems" have "Q x y" by (auto split: if_splits)
  moreover have "successively Q (y # zs)"
    using "3.prems" by (intro "3.IH"(2)) (auto split: if_splits)
  ultimately show ?case by simp
qed auto

subsection \<open>Ring indices\<close>

lemma ring_index:
  assumes "(i :: nat) < n"
  shows "(if i + 1 < n then i + 1 else 0) = (i + 1) mod n"
    and "(if i + 1 = n then 0 else i + 1) = (i + 1) mod n"
  using assms by (cases "Suc i = n"; simp)+

end
