(* ===== verification/Transfer_Structs.thy ===== *)
theory Transfer_Structs
  imports Ehci_Prelude
begin

text \<open>
  The data structures the driver shares with the controller: link pointers, transfer tokens,
  buffer page pointers, queue element transfer descriptors (\<open>Qtd\<close>), queue heads (\<open>Qh\<close>) and the
  elements of the periodic frame list
  (\<^verbatim>\<open>transfer_token.rs\<close>, \<^verbatim>\<open>buffer_ptrs.rs\<close>, \<^verbatim>\<open>qtd.rs\<close>, \<^verbatim>\<open>queue_head.rs\<close>, \<^verbatim>\<open>periodic_list.rs\<close>,
  \<^verbatim>\<open>endpoint_speed.rs\<close>, \<^verbatim>\<open>mapped_mem.rs\<close>, \<^verbatim>\<open>util.rs\<close>, \<^verbatim>\<open>CtrlDsSegment\<close> of \<^verbatim>\<open>start_config.rs\<close>).
  A bitfield struct is its raw word; \<open>S_f\<close> reads the field \<open>f\<close> of the struct \<open>S\<close> and
  \<open>S_with_f\<close> is \<^verbatim>\<open>with_f\<close> (and \<^verbatim>\<open>set_f\<close>).

  The lemmas show that writing a field changes that field only, that link pointers give back
  the address they were made from, and that the page pointers of a \<open>Qtd\<close> made by
  \<open>BufferPtrs_new_contiguous\<close> address exactly the bytes of the buffer.
\<close>

named_theorems bitfield_defs \<open>the accessors the bitfield declarations stand for\<close>

subsection \<open>Addresses\<close>

record mapped_mem =
  phys_addr :: u64
  mm_ptr :: vptr

record mapped_slice = mapped_mem +
  mm_len :: nat

definition cast_slice :: "nat \<Rightarrow> mapped_mem \<Rightarrow> mapped_slice" where
  "cast_slice n m = \<lparr>phys_addr = phys_addr m, mm_ptr = mm_ptr m, mm_len = n\<rparr>"

record ctrl_ds_segment =
  base_addr_upper :: u32

definition LOWER_4_G :: ctrl_ds_segment where
  "LOWER_4_G = \<lparr>base_addr_upper = 0\<rparr>"

definition CtrlDsSegment_new :: "u64 \<Rightarrow> ctrl_ds_segment outcome" where
  "CtrlDsSegment_new base_phys_addr =
     (let upper = (ucast (drop_bit 32 base_phys_addr) :: u32);
          lower = (ucast base_phys_addr :: u32)
      in if lower \<noteq> 0 then Inl (ExplicitPanic ''base addr must be a multiple of 4 GiB'')
         else Inr \<lparr>base_addr_upper = upper\<rparr>)"

definition get_addr_offset :: "u64 \<Rightarrow> ctrl_ds_segment \<Rightarrow> u32 outcome" where
  "get_addr_offset phys ctrl_ds_segment =
     (let upper = (ucast (drop_bit 32 phys) :: u32);
          lower = (ucast phys :: u32)
      in if upper \<noteq> base_addr_upper ctrl_ds_segment
         then Inl (ExplicitPanic ''phys addr is outside of the range of CTRLDSSEGMENT'')
         else Inr lower)"

subsection \<open>Transfer tokens\<close>

type_synonym transfer_token = u32

definition TransferToken_ping_state :: "transfer_token \<Rightarrow> bool" where [bitfield_defs]:
  "TransferToken_ping_state = flag_get 0"

definition TransferToken_with_ping_state :: "bool \<Rightarrow> transfer_token \<Rightarrow> transfer_token" where [bitfield_defs]:
  "TransferToken_with_ping_state = flag_set 0"

definition TransferToken_split_transaction_state :: "transfer_token \<Rightarrow> bool" where [bitfield_defs]:
  "TransferToken_split_transaction_state = flag_get 1"

definition TransferToken_with_split_transaction_state :: "bool \<Rightarrow> transfer_token \<Rightarrow> transfer_token" where [bitfield_defs]:
  "TransferToken_with_split_transaction_state = flag_set 1"

definition TransferToken_missed_micro_frames :: "transfer_token \<Rightarrow> bool" where [bitfield_defs]:
  "TransferToken_missed_micro_frames = flag_get 2"

definition TransferToken_with_missed_micro_frames :: "bool \<Rightarrow> transfer_token \<Rightarrow> transfer_token" where [bitfield_defs]:
  "TransferToken_with_missed_micro_frames = flag_set 2"

definition TransferToken_transaction_error :: "transfer_token \<Rightarrow> bool" where [bitfield_defs]:
  "TransferToken_transaction_error = flag_get 3"

definition TransferToken_with_transaction_error :: "bool \<Rightarrow> transfer_token \<Rightarrow> transfer_token" where [bitfield_defs]:
  "TransferToken_with_transaction_error = flag_set 3"

definition TransferToken_babble_detected :: "transfer_token \<Rightarrow> bool" where [bitfield_defs]:
  "TransferToken_babble_detected = flag_get 4"

definition TransferToken_with_babble_detected :: "bool \<Rightarrow> transfer_token \<Rightarrow> transfer_token" where [bitfield_defs]:
  "TransferToken_with_babble_detected = flag_set 4"

definition TransferToken_data_buffer_error :: "transfer_token \<Rightarrow> bool" where [bitfield_defs]:
  "TransferToken_data_buffer_error = flag_get 5"

definition TransferToken_with_data_buffer_error :: "bool \<Rightarrow> transfer_token \<Rightarrow> transfer_token" where [bitfield_defs]:
  "TransferToken_with_data_buffer_error = flag_set 5"

definition TransferToken_halted :: "transfer_token \<Rightarrow> bool" where [bitfield_defs]:
  "TransferToken_halted = flag_get 6"

definition TransferToken_with_halted :: "bool \<Rightarrow> transfer_token \<Rightarrow> transfer_token" where [bitfield_defs]:
  "TransferToken_with_halted = flag_set 6"

definition TransferToken_active :: "transfer_token \<Rightarrow> bool" where [bitfield_defs]:
  "TransferToken_active = flag_get 7"

definition TransferToken_with_active :: "bool \<Rightarrow> transfer_token \<Rightarrow> transfer_token" where [bitfield_defs]:
  "TransferToken_with_active = flag_set 7"

definition TransferToken_pid_code :: "transfer_token \<Rightarrow> u2" where [bitfield_defs]:
  "TransferToken_pid_code = bits_get 8"

definition TransferToken_with_pid_code :: "u2 \<Rightarrow> transfer_token \<Rightarrow> transfer_token" where [bitfield_defs]:
  "TransferToken_with_pid_code = bits_set 8"

definition TransferToken_error_counter :: "transfer_token \<Rightarrow> u2" where [bitfield_defs]:
  "TransferToken_error_counter = bits_get 10"

definition TransferToken_with_error_counter :: "u2 \<Rightarrow> transfer_token \<Rightarrow> transfer_token" where [bitfield_defs]:
  "TransferToken_with_error_counter = bits_set 10"

definition TransferToken_current_page :: "transfer_token \<Rightarrow> u3" where [bitfield_defs]:
  "TransferToken_current_page = bits_get 12"

definition TransferToken_with_current_page :: "u3 \<Rightarrow> transfer_token \<Rightarrow> transfer_token" where [bitfield_defs]:
  "TransferToken_with_current_page = bits_set 12"

definition TransferToken_interrupt_on_complete :: "transfer_token \<Rightarrow> bool" where [bitfield_defs]:
  "TransferToken_interrupt_on_complete = flag_get 15"

definition TransferToken_with_interrupt_on_complete :: "bool \<Rightarrow> transfer_token \<Rightarrow> transfer_token" where [bitfield_defs]:
  "TransferToken_with_interrupt_on_complete = flag_set 15"

definition TransferToken_total_bytes_to_transfer :: "transfer_token \<Rightarrow> u15" where [bitfield_defs]:
  "TransferToken_total_bytes_to_transfer = bits_get 16"

definition TransferToken_with_total_bytes_to_transfer :: "u15 \<Rightarrow> transfer_token \<Rightarrow> transfer_token" where [bitfield_defs]:
  "TransferToken_with_total_bytes_to_transfer = bits_set 16"

definition TransferToken_data_toggle :: "transfer_token \<Rightarrow> bool" where [bitfield_defs]:
  "TransferToken_data_toggle = flag_get 31"

definition TransferToken_with_data_toggle :: "bool \<Rightarrow> transfer_token \<Rightarrow> transfer_token" where [bitfield_defs]:
  "TransferToken_with_data_toggle = flag_set 31"

datatype PidCode = OutToken | InToken | SetupToken

fun u2_from_PidCode :: "PidCode \<Rightarrow> u2" where
  "u2_from_PidCode OutToken = 0"
| "u2_from_PidCode InToken = 1"
| "u2_from_PidCode SetupToken = 2"

definition TransferToken_new_active :: "PidCode \<Rightarrow> u15 \<Rightarrow> transfer_token" where
  "TransferToken_new_active pid_code total_bytes_to_transfer =
     TransferToken_with_total_bytes_to_transfer total_bytes_to_transfer
       (TransferToken_with_pid_code (u2_from_PidCode pid_code)
         (TransferToken_with_active True 0))"

subsection \<open>Buffer pointers\<close>

record buffer_ptrs =
  bp_ptrs :: "u64 list"
  bp_offset :: u12

definition BufferPtrs_new_contiguous :: "u64 \<Rightarrow> u64 \<Rightarrow> buffer_ptrs outcome" where
  "BufferPtrs_new_contiguous p len =
     (let offset = p mod 0x1000; page_0_ptr = p - offset
      in obind (checked_add page_0_ptr len) (\<lambda>end_ptr.
         obind (checked_add page_0_ptr (0x1000 * 5)) (\<lambda>limit.
         if end_ptr > limit
         then Inl (ExplicitPanic ''buffer does not fit in 5 4 KiB aligned pages.'')
         else obind (uint_new (unat offset)) (\<lambda>off.
           Inr \<lparr>bp_ptrs = [page_0_ptr, page_0_ptr + 0x1000, page_0_ptr + 0x1000 * 2,
                           page_0_ptr + 0x1000 * 3, page_0_ptr + 0x1000 * 4],
                bp_offset = off\<rparr>))))"

definition BufferPtrs_ZERO :: buffer_ptrs where
  "BufferPtrs_ZERO = \<lparr>bp_ptrs = [0, 0, 0, 0, 0], bp_offset = 0\<rparr>"

definition ptr_bits_12_31 :: "buffer_ptrs \<Rightarrow> nat \<Rightarrow> u20 outcome" where
  "ptr_bits_12_31 bp index =
     obind (index_list (bp_ptrs bp) index) (\<lambda>p.
     uint_new (unat (drop_bit 12 (ucast p :: u32))))"

definition ptr_bits_32_63 :: "buffer_ptrs \<Rightarrow> nat \<Rightarrow> u32 outcome" where
  "ptr_bits_32_63 bp index =
     obind (index_list (bp_ptrs bp) index) (\<lambda>p. Inr (ucast (drop_bit 32 p)))"

subsection \<open>Link pointers\<close>

type_synonym next_qtd_pointer = u32

definition NextQtdPointer_terminate :: "next_qtd_pointer \<Rightarrow> bool" where [bitfield_defs]:
  "NextQtdPointer_terminate = flag_get 0"

definition NextQtdPointer_with_terminate :: "bool \<Rightarrow> next_qtd_pointer \<Rightarrow> next_qtd_pointer" where [bitfield_defs]:
  "NextQtdPointer_with_terminate = flag_set 0"

definition NextQtdPointer_addr_upper :: "next_qtd_pointer \<Rightarrow> u27" where [bitfield_defs]:
  "NextQtdPointer_addr_upper = bits_get 5"

definition NextQtdPointer_with_addr_upper :: "u27 \<Rightarrow> next_qtd_pointer \<Rightarrow> next_qtd_pointer" where [bitfield_defs]:
  "NextQtdPointer_with_addr_upper = bits_set 5"

definition NextQtdPointer_INVALID :: next_qtd_pointer where
  "NextQtdPointer_INVALID = NextQtdPointer_with_terminate True 0"

text \<open>\<^verbatim>\<open>u27::new(addr >> 5)\<close> cannot fail: see \<open>u27_new_shift\<close> below.\<close>

definition NextQtdPointer_new_valid :: "u32 \<Rightarrow> next_qtd_pointer" where
  "NextQtdPointer_new_valid addr =
     NextQtdPointer_with_addr_upper (ucast (drop_bit 5 addr))
       (NextQtdPointer_with_terminate False 0)"

type_synonym alternate_qtd_link_ptr = u32

definition AlternateQtdLinkPtr_terminate :: "alternate_qtd_link_ptr \<Rightarrow> bool" where [bitfield_defs]:
  "AlternateQtdLinkPtr_terminate = flag_get 0"

definition AlternateQtdLinkPtr_with_terminate :: "bool \<Rightarrow> alternate_qtd_link_ptr \<Rightarrow> alternate_qtd_link_ptr" where [bitfield_defs]:
  "AlternateQtdLinkPtr_with_terminate = flag_set 0"

definition AlternateQtdLinkPtr_nak_count :: "alternate_qtd_link_ptr \<Rightarrow> u4" where [bitfield_defs]:
  "AlternateQtdLinkPtr_nak_count = bits_get 1"

definition AlternateQtdLinkPtr_with_nak_count :: "u4 \<Rightarrow> alternate_qtd_link_ptr \<Rightarrow> alternate_qtd_link_ptr" where [bitfield_defs]:
  "AlternateQtdLinkPtr_with_nak_count = bits_set 1"

definition AlternateQtdLinkPtr_ptr_upper :: "alternate_qtd_link_ptr \<Rightarrow> u27" where [bitfield_defs]:
  "AlternateQtdLinkPtr_ptr_upper = bits_get 5"

definition AlternateQtdLinkPtr_with_ptr_upper :: "u27 \<Rightarrow> alternate_qtd_link_ptr \<Rightarrow> alternate_qtd_link_ptr" where [bitfield_defs]:
  "AlternateQtdLinkPtr_with_ptr_upper = bits_set 5"

definition AlternateQtdLinkPtr_INVALID :: alternate_qtd_link_ptr where
  "AlternateQtdLinkPtr_INVALID = AlternateQtdLinkPtr_with_terminate True 0"

definition AlternateQtdLinkPtr_new_valid :: "u32 \<Rightarrow> alternate_qtd_link_ptr" where
  "AlternateQtdLinkPtr_new_valid p =
     AlternateQtdLinkPtr_with_ptr_upper (ucast (drop_bit 5 p))
       (AlternateQtdLinkPtr_with_nak_count 0
         (AlternateQtdLinkPtr_with_terminate False 0))"

type_synonym qh_horizontal_link_ptr = u32

definition QhHorizontalLinkPtr_terminate :: "qh_horizontal_link_ptr \<Rightarrow> bool" where [bitfield_defs]:
  "QhHorizontalLinkPtr_terminate = flag_get 0"

definition QhHorizontalLinkPtr_with_terminate :: "bool \<Rightarrow> qh_horizontal_link_ptr \<Rightarrow> qh_horizontal_link_ptr" where [bitfield_defs]:
  "QhHorizontalLinkPtr_with_terminate = flag_set 0"

definition QhHorizontalLinkPtr_pointer_type :: "qh_horizontal_link_ptr \<Rightarrow> u2" where [bitfield_defs]:
  "QhHorizontalLinkPtr_pointer_type = bits_get 1"

definition QhHorizontalLinkPtr_with_pointer_type :: "u2 \<Rightarrow> qh_horizontal_link_ptr \<Rightarrow> qh_horizontal_link_ptr" where [bitfield_defs]:
  "QhHorizontalLinkPtr_with_pointer_type = bits_set 1"

definition QhHorizontalLinkPtr_ptr_upper :: "qh_horizontal_link_ptr \<Rightarrow> u27" where [bitfield_defs]:
  "QhHorizontalLinkPtr_ptr_upper = bits_get 5"

definition QhHorizontalLinkPtr_with_ptr_upper :: "u27 \<Rightarrow> qh_horizontal_link_ptr \<Rightarrow> qh_horizontal_link_ptr" where [bitfield_defs]:
  "QhHorizontalLinkPtr_with_ptr_upper = bits_set 5"

datatype SelectType = Itd | Qh | SplitItd | Fstn

fun u2_from_SelectType :: "SelectType \<Rightarrow> u2" where
  "u2_from_SelectType Itd = 0"
| "u2_from_SelectType Qh = 1"
| "u2_from_SelectType SplitItd = 2"
| "u2_from_SelectType Fstn = 3"

definition QhHorizontalLinkPtr_INVALID :: qh_horizontal_link_ptr where
  "QhHorizontalLinkPtr_INVALID = QhHorizontalLinkPtr_with_terminate True 0"

definition QhHorizontalLinkPtr_new :: "SelectType \<Rightarrow> u32 \<Rightarrow> qh_horizontal_link_ptr" where
  "QhHorizontalLinkPtr_new select_type p =
     QhHorizontalLinkPtr_with_ptr_upper (ucast (drop_bit 5 p))
       (QhHorizontalLinkPtr_with_pointer_type (u2_from_SelectType select_type)
         (QhHorizontalLinkPtr_with_terminate False p))"

definition QhHorizontalLinkPtr_ptr :: "qh_horizontal_link_ptr \<Rightarrow> u32 option" where
  "QhHorizontalLinkPtr_ptr l =
     (if QhHorizontalLinkPtr_terminate l then None
      else Some (push_bit 5 (ucast (QhHorizontalLinkPtr_ptr_upper l))))"

subsection \<open>Queue element transfer descriptors\<close>

type_synonym qtd_buffer_page_pointer_page0 = u32

definition QtdBufferPagePointerPage0_current_offset :: "qtd_buffer_page_pointer_page0 \<Rightarrow> u12" where [bitfield_defs]:
  "QtdBufferPagePointerPage0_current_offset = bits_get 0"

definition QtdBufferPagePointerPage0_with_current_offset :: "u12 \<Rightarrow> qtd_buffer_page_pointer_page0 \<Rightarrow> qtd_buffer_page_pointer_page0" where [bitfield_defs]:
  "QtdBufferPagePointerPage0_with_current_offset = bits_set 0"

definition QtdBufferPagePointerPage0_ptr_upper :: "qtd_buffer_page_pointer_page0 \<Rightarrow> u20" where [bitfield_defs]:
  "QtdBufferPagePointerPage0_ptr_upper = bits_get 12"

definition QtdBufferPagePointerPage0_with_ptr_upper :: "u20 \<Rightarrow> qtd_buffer_page_pointer_page0 \<Rightarrow> qtd_buffer_page_pointer_page0" where [bitfield_defs]:
  "QtdBufferPagePointerPage0_with_ptr_upper = bits_set 12"

type_synonym qtd_buffer_page_pointer_page1_plus = u32

definition QtdBufferPagePointerPage1Plus_ptr_upper :: "qtd_buffer_page_pointer_page1_plus \<Rightarrow> u20" where [bitfield_defs]:
  "QtdBufferPagePointerPage1Plus_ptr_upper = bits_get 12"

definition QtdBufferPagePointerPage1Plus_with_ptr_upper :: "u20 \<Rightarrow> qtd_buffer_page_pointer_page1_plus \<Rightarrow> qtd_buffer_page_pointer_page1_plus" where [bitfield_defs]:
  "QtdBufferPagePointerPage1Plus_with_ptr_upper = bits_set 12"

record qtd =
  next_qtd_ptr :: next_qtd_pointer
  alternate_next_qtd_ptr :: alternate_qtd_link_ptr
  qtd_token :: transfer_token
  buffer_pointer_page_0 :: qtd_buffer_page_pointer_page0
  buffer_pointer_page_1 :: qtd_buffer_page_pointer_page1_plus
  buffer_pointer_page_2 :: qtd_buffer_page_pointer_page1_plus
  buffer_pointer_page_3 :: qtd_buffer_page_pointer_page1_plus
  buffer_pointer_page_4 :: qtd_buffer_page_pointer_page1_plus
  extended_buffer_ptr_page_0 :: u32
  extended_buffer_ptr_page_1 :: u32
  extended_buffer_ptr_page_2 :: u32
  extended_buffer_ptr_page_3 :: u32
  extended_buffer_ptr_page_4 :: u32

text \<open>\<^verbatim>\<open>size_of::<Qtd>()\<close>: 13 words of 4 bytes, rounded up to the alignment of 32.\<close>

definition size_of_Qtd :: nat where
  "size_of_Qtd = 64"

definition Qtd_new :: "transfer_token \<Rightarrow> buffer_ptrs \<Rightarrow> qtd outcome" where
  "Qtd_new token buffer_ptrs =
     obind (ptr_bits_12_31 buffer_ptrs 0) (\<lambda>p0.
     obind (ptr_bits_12_31 buffer_ptrs 1) (\<lambda>p1.
     obind (ptr_bits_12_31 buffer_ptrs 2) (\<lambda>p2.
     obind (ptr_bits_12_31 buffer_ptrs 3) (\<lambda>p3.
     obind (ptr_bits_12_31 buffer_ptrs 4) (\<lambda>p4.
     obind (ptr_bits_32_63 buffer_ptrs 0) (\<lambda>e0.
     obind (ptr_bits_32_63 buffer_ptrs 1) (\<lambda>e1.
     obind (ptr_bits_32_63 buffer_ptrs 2) (\<lambda>e2.
     obind (ptr_bits_32_63 buffer_ptrs 3) (\<lambda>e3.
     obind (ptr_bits_32_63 buffer_ptrs 4) (\<lambda>e4.
     Inr \<lparr>next_qtd_ptr = NextQtdPointer_INVALID,
          alternate_next_qtd_ptr = AlternateQtdLinkPtr_INVALID,
          qtd_token = token,
          buffer_pointer_page_0 =
            QtdBufferPagePointerPage0_with_ptr_upper p0
              (QtdBufferPagePointerPage0_with_current_offset (bp_offset buffer_ptrs) 0),
          buffer_pointer_page_1 = QtdBufferPagePointerPage1Plus_with_ptr_upper p1 0,
          buffer_pointer_page_2 = QtdBufferPagePointerPage1Plus_with_ptr_upper p2 0,
          buffer_pointer_page_3 = QtdBufferPagePointerPage1Plus_with_ptr_upper p3 0,
          buffer_pointer_page_4 = QtdBufferPagePointerPage1Plus_with_ptr_upper p4 0,
          extended_buffer_ptr_page_0 = e0,
          extended_buffer_ptr_page_1 = e1,
          extended_buffer_ptr_page_2 = e2,
          extended_buffer_ptr_page_3 = e3,
          extended_buffer_ptr_page_4 = e4\<rparr>))))))))))"

subsection \<open>Queue heads\<close>

datatype EndpointSpeed = EndpointSpeed_Full | EndpointSpeed_Low | EndpointSpeed_High

fun u2_from_EndpointSpeed :: "EndpointSpeed \<Rightarrow> u2" where
  "u2_from_EndpointSpeed EndpointSpeed_Full = 0"
| "u2_from_EndpointSpeed EndpointSpeed_Low = 1"
| "u2_from_EndpointSpeed EndpointSpeed_High = 2"

type_synonym endpoint_characteristics = u32

definition EndpointCharacteristics_device_addr :: "endpoint_characteristics \<Rightarrow> u7" where [bitfield_defs]:
  "EndpointCharacteristics_device_addr = bits_get 0"

definition EndpointCharacteristics_with_device_addr :: "u7 \<Rightarrow> endpoint_characteristics \<Rightarrow> endpoint_characteristics" where [bitfield_defs]:
  "EndpointCharacteristics_with_device_addr = bits_set 0"

definition EndpointCharacteristics_inactive_on_next_transaction :: "endpoint_characteristics \<Rightarrow> bool" where [bitfield_defs]:
  "EndpointCharacteristics_inactive_on_next_transaction = flag_get 7"

definition EndpointCharacteristics_with_inactive_on_next_transaction :: "bool \<Rightarrow> endpoint_characteristics \<Rightarrow> endpoint_characteristics" where [bitfield_defs]:
  "EndpointCharacteristics_with_inactive_on_next_transaction = flag_set 7"

definition EndpointCharacteristics_endpoint_number :: "endpoint_characteristics \<Rightarrow> u4" where [bitfield_defs]:
  "EndpointCharacteristics_endpoint_number = bits_get 8"

definition EndpointCharacteristics_with_endpoint_number :: "u4 \<Rightarrow> endpoint_characteristics \<Rightarrow> endpoint_characteristics" where [bitfield_defs]:
  "EndpointCharacteristics_with_endpoint_number = bits_set 8"

definition EndpointCharacteristics_endpoint_speed :: "endpoint_characteristics \<Rightarrow> u2" where [bitfield_defs]:
  "EndpointCharacteristics_endpoint_speed = bits_get 12"

definition EndpointCharacteristics_with_endpoint_speed :: "u2 \<Rightarrow> endpoint_characteristics \<Rightarrow> endpoint_characteristics" where [bitfield_defs]:
  "EndpointCharacteristics_with_endpoint_speed = bits_set 12"

definition EndpointCharacteristics_data_toggle_control :: "endpoint_characteristics \<Rightarrow> bool" where [bitfield_defs]:
  "EndpointCharacteristics_data_toggle_control = flag_get 14"

definition EndpointCharacteristics_with_data_toggle_control :: "bool \<Rightarrow> endpoint_characteristics \<Rightarrow> endpoint_characteristics" where [bitfield_defs]:
  "EndpointCharacteristics_with_data_toggle_control = flag_set 14"

definition EndpointCharacteristics_head_of_reclamation_list_flag :: "endpoint_characteristics \<Rightarrow> bool" where [bitfield_defs]:
  "EndpointCharacteristics_head_of_reclamation_list_flag = flag_get 15"

definition EndpointCharacteristics_with_head_of_reclamation_list_flag :: "bool \<Rightarrow> endpoint_characteristics \<Rightarrow> endpoint_characteristics" where [bitfield_defs]:
  "EndpointCharacteristics_with_head_of_reclamation_list_flag = flag_set 15"

definition EndpointCharacteristics_max_packet_len :: "endpoint_characteristics \<Rightarrow> u11" where [bitfield_defs]:
  "EndpointCharacteristics_max_packet_len = bits_get 16"

definition EndpointCharacteristics_with_max_packet_len :: "u11 \<Rightarrow> endpoint_characteristics \<Rightarrow> endpoint_characteristics" where [bitfield_defs]:
  "EndpointCharacteristics_with_max_packet_len = bits_set 16"

definition EndpointCharacteristics_endpoint_control_flag :: "endpoint_characteristics \<Rightarrow> bool" where [bitfield_defs]:
  "EndpointCharacteristics_endpoint_control_flag = flag_get 27"

definition EndpointCharacteristics_with_endpoint_control_flag :: "bool \<Rightarrow> endpoint_characteristics \<Rightarrow> endpoint_characteristics" where [bitfield_defs]:
  "EndpointCharacteristics_with_endpoint_control_flag = flag_set 27"

definition EndpointCharacteristics_nak_count_reload :: "endpoint_characteristics \<Rightarrow> u4" where [bitfield_defs]:
  "EndpointCharacteristics_nak_count_reload = bits_get 28"

definition EndpointCharacteristics_with_nak_count_reload :: "u4 \<Rightarrow> endpoint_characteristics \<Rightarrow> endpoint_characteristics" where [bitfield_defs]:
  "EndpointCharacteristics_with_nak_count_reload = bits_set 28"

type_synonym endpoint_capabilities = u32

definition EndpointCapabilities_interrupt_schedule_mask :: "endpoint_capabilities \<Rightarrow> u8" where [bitfield_defs]:
  "EndpointCapabilities_interrupt_schedule_mask = bits_get 0"

definition EndpointCapabilities_with_interrupt_schedule_mask :: "u8 \<Rightarrow> endpoint_capabilities \<Rightarrow> endpoint_capabilities" where [bitfield_defs]:
  "EndpointCapabilities_with_interrupt_schedule_mask = bits_set 0"

definition EndpointCapabilities_split_completion_mask :: "endpoint_capabilities \<Rightarrow> u8" where [bitfield_defs]:
  "EndpointCapabilities_split_completion_mask = bits_get 8"

definition EndpointCapabilities_with_split_completion_mask :: "u8 \<Rightarrow> endpoint_capabilities \<Rightarrow> endpoint_capabilities" where [bitfield_defs]:
  "EndpointCapabilities_with_split_completion_mask = bits_set 8"

definition EndpointCapabilities_hub_addr :: "endpoint_capabilities \<Rightarrow> u7" where [bitfield_defs]:
  "EndpointCapabilities_hub_addr = bits_get 16"

definition EndpointCapabilities_with_hub_addr :: "u7 \<Rightarrow> endpoint_capabilities \<Rightarrow> endpoint_capabilities" where [bitfield_defs]:
  "EndpointCapabilities_with_hub_addr = bits_set 16"

definition EndpointCapabilities_port_number :: "endpoint_capabilities \<Rightarrow> u7" where [bitfield_defs]:
  "EndpointCapabilities_port_number = bits_get 23"

definition EndpointCapabilities_with_port_number :: "u7 \<Rightarrow> endpoint_capabilities \<Rightarrow> endpoint_capabilities" where [bitfield_defs]:
  "EndpointCapabilities_with_port_number = bits_set 23"

definition EndpointCapabilities_high_bandwidth_pipe_multiplier :: "endpoint_capabilities \<Rightarrow> u2" where [bitfield_defs]:
  "EndpointCapabilities_high_bandwidth_pipe_multiplier = bits_get 30"

definition EndpointCapabilities_with_high_bandwidth_pipe_multiplier :: "u2 \<Rightarrow> endpoint_capabilities \<Rightarrow> endpoint_capabilities" where [bitfield_defs]:
  "EndpointCapabilities_with_high_bandwidth_pipe_multiplier = bits_set 30"

type_synonym current_qtd_link_ptr = u32

definition CurrentQtdLinkPtr_ptr_upper :: "current_qtd_link_ptr \<Rightarrow> u27" where [bitfield_defs]:
  "CurrentQtdLinkPtr_ptr_upper = bits_get 5"

definition CurrentQtdLinkPtr_with_ptr_upper :: "u27 \<Rightarrow> current_qtd_link_ptr \<Rightarrow> current_qtd_link_ptr" where [bitfield_defs]:
  "CurrentQtdLinkPtr_with_ptr_upper = bits_set 5"

type_synonym qh_buffer_ptr_page0 = u32

definition QhBufferPtrPage0_current_offset :: "qh_buffer_ptr_page0 \<Rightarrow> u12" where [bitfield_defs]:
  "QhBufferPtrPage0_current_offset = bits_get 0"

definition QhBufferPtrPage0_with_current_offset :: "u12 \<Rightarrow> qh_buffer_ptr_page0 \<Rightarrow> qh_buffer_ptr_page0" where [bitfield_defs]:
  "QhBufferPtrPage0_with_current_offset = bits_set 0"

definition QhBufferPtrPage0_ptr_upper :: "qh_buffer_ptr_page0 \<Rightarrow> u20" where [bitfield_defs]:
  "QhBufferPtrPage0_ptr_upper = bits_get 12"

definition QhBufferPtrPage0_with_ptr_upper :: "u20 \<Rightarrow> qh_buffer_ptr_page0 \<Rightarrow> qh_buffer_ptr_page0" where [bitfield_defs]:
  "QhBufferPtrPage0_with_ptr_upper = bits_set 12"

type_synonym qh_buffer_ptr_page1 = u32

definition QhBufferPtrPage1_ptr_upper :: "qh_buffer_ptr_page1 \<Rightarrow> u20" where [bitfield_defs]:
  "QhBufferPtrPage1_ptr_upper = bits_get 12"

definition QhBufferPtrPage1_with_ptr_upper :: "u20 \<Rightarrow> qh_buffer_ptr_page1 \<Rightarrow> qh_buffer_ptr_page1" where [bitfield_defs]:
  "QhBufferPtrPage1_with_ptr_upper = bits_set 12"

type_synonym qh_buffer_ptr_page2 = u32

definition QhBufferPtrPage2_ptr_upper :: "qh_buffer_ptr_page2 \<Rightarrow> u20" where [bitfield_defs]:
  "QhBufferPtrPage2_ptr_upper = bits_get 12"

definition QhBufferPtrPage2_with_ptr_upper :: "u20 \<Rightarrow> qh_buffer_ptr_page2 \<Rightarrow> qh_buffer_ptr_page2" where [bitfield_defs]:
  "QhBufferPtrPage2_with_ptr_upper = bits_set 12"

type_synonym qh_buffer_ptr_page3p = u32

definition QhBufferPtrPage3P_ptr_upper :: "qh_buffer_ptr_page3p \<Rightarrow> u20" where [bitfield_defs]:
  "QhBufferPtrPage3P_ptr_upper = bits_get 12"

definition QhBufferPtrPage3P_with_ptr_upper :: "u20 \<Rightarrow> qh_buffer_ptr_page3p \<Rightarrow> qh_buffer_ptr_page3p" where [bitfield_defs]:
  "QhBufferPtrPage3P_with_ptr_upper = bits_set 12"

record qh =
  horizontal_link_ptr :: qh_horizontal_link_ptr
  endpoint_characteristics :: endpoint_characteristics
  endpoint_capabilities :: endpoint_capabilities
  current_qtd_pointer :: current_qtd_link_ptr
  next_qtd_pointer :: next_qtd_pointer
  alternate_qtd_pointer :: alternate_qtd_link_ptr
  transfer_token :: transfer_token
  buffer_ptr_page_0 :: qh_buffer_ptr_page0
  buffer_ptr_page_1 :: qh_buffer_ptr_page1
  buffer_ptr_page_2 :: qh_buffer_ptr_page2
  buffer_ptr_page_3 :: qh_buffer_ptr_page3p
  buffer_ptr_page_4 :: qh_buffer_ptr_page3p
  qh_extended_buffer_ptr_page_0 :: u32
  qh_extended_buffer_ptr_page_1 :: u32
  qh_extended_buffer_ptr_page_2 :: u32
  qh_extended_buffer_ptr_page_3 :: u32
  qh_extended_buffer_ptr_page_4 :: u32

definition Qh_new :: "endpoint_characteristics \<Rightarrow> endpoint_capabilities \<Rightarrow> qh" where
  "Qh_new characteristics capabilities =
     \<lparr>horizontal_link_ptr = QhHorizontalLinkPtr_INVALID,
      endpoint_characteristics = characteristics,
      endpoint_capabilities = capabilities,
      current_qtd_pointer = 0,
      next_qtd_pointer = 0,
      alternate_qtd_pointer = 0,
      transfer_token = 0,
      buffer_ptr_page_0 = 0,
      buffer_ptr_page_1 = 0,
      buffer_ptr_page_2 = 0,
      buffer_ptr_page_3 = 0,
      buffer_ptr_page_4 = 0,
      qh_extended_buffer_ptr_page_0 = 0,
      qh_extended_buffer_ptr_page_1 = 0,
      qh_extended_buffer_ptr_page_2 = 0,
      qh_extended_buffer_ptr_page_3 = 0,
      qh_extended_buffer_ptr_page_4 = 0\<rparr>"

text \<open>
  The loop of \<^verbatim>\<open>Qh::link_contiguous_qtds\<close>: \<open>k\<close> iterations are left and \<open>i\<close> is the next index.
  \<^verbatim>\<open>u32::try_from(i + 1).unwrap()\<close>, the multiplication and the addition can panic.
\<close>

fun link_contiguous_loop :: "u32 \<Rightarrow> nat \<Rightarrow> nat \<Rightarrow> qtd list \<Rightarrow> qtd list outcome" where
  "link_contiguous_loop phys 0 i qtds = Inr qtds"
| "link_contiguous_loop phys (Suc k) i qtds =
     (if i + 1 < 2 ^ 32
      then if (i + 1) * size_of_Qtd < 2 ^ 32
        then obind (checked_add phys (of_nat ((i + 1) * size_of_Qtd))) (\<lambda>addr.
             link_contiguous_loop phys k (i + 1)
               (qtds[i := (qtds ! i)\<lparr>next_qtd_ptr := NextQtdPointer_new_valid addr\<rparr>]))
        else Inl ArithmeticOverflow
      else Inl UnwrapFailed)"

definition link_contiguous_qtds :: "qh \<Rightarrow> qtd list \<Rightarrow> u32 \<Rightarrow> (qh \<times> qtd list) outcome" where
  "link_contiguous_qtds q qtds phys =
     (let q' = q\<lparr>next_qtd_pointer := NextQtdPointer_new_valid phys\<rparr>
      in if qtds = [] then Inl ArithmeticOverflow
         else obind (link_contiguous_loop phys (length qtds - 1) 0 qtds) (\<lambda>qtds'.
              Inr (q', qtds')))"

subsection \<open>The periodic frame list\<close>

type_synonym periodic_frame_list_element = u32

definition PeriodicFrameListElement_t :: "periodic_frame_list_element \<Rightarrow> bool" where [bitfield_defs]:
  "PeriodicFrameListElement_t = flag_get 0"

definition PeriodicFrameListElement_with_t :: "bool \<Rightarrow> periodic_frame_list_element \<Rightarrow> periodic_frame_list_element" where [bitfield_defs]:
  "PeriodicFrameListElement_with_t = flag_set 0"

definition PeriodicFrameListElement_typ :: "periodic_frame_list_element \<Rightarrow> u2" where [bitfield_defs]:
  "PeriodicFrameListElement_typ = bits_get 1"

definition PeriodicFrameListElement_with_typ :: "u2 \<Rightarrow> periodic_frame_list_element \<Rightarrow> periodic_frame_list_element" where [bitfield_defs]:
  "PeriodicFrameListElement_with_typ = bits_set 1"

definition PeriodicFrameListElement_reserved :: "periodic_frame_list_element \<Rightarrow> u2" where [bitfield_defs]:
  "PeriodicFrameListElement_reserved = bits_get 3"

definition PeriodicFrameListElement_with_reserved :: "u2 \<Rightarrow> periodic_frame_list_element \<Rightarrow> periodic_frame_list_element" where [bitfield_defs]:
  "PeriodicFrameListElement_with_reserved = bits_set 3"

definition PeriodicFrameListElement_addr_upper_bits :: "periodic_frame_list_element \<Rightarrow> u27" where [bitfield_defs]:
  "PeriodicFrameListElement_addr_upper_bits = bits_get 5"

definition PeriodicFrameListElement_with_addr_upper_bits :: "u27 \<Rightarrow> periodic_frame_list_element \<Rightarrow> periodic_frame_list_element" where [bitfield_defs]:
  "PeriodicFrameListElement_with_addr_upper_bits = bits_set 5"

definition PeriodicFrameListElement_NONE :: periodic_frame_list_element where
  "PeriodicFrameListElement_NONE =
     PeriodicFrameListElement_with_addr_upper_bits 0
       (PeriodicFrameListElement_with_reserved 0
         (PeriodicFrameListElement_with_typ 0
           (PeriodicFrameListElement_with_t True 0)))"

definition PeriodicFrameListElement_new ::
    "SelectType \<Rightarrow> u32 \<Rightarrow> periodic_frame_list_element" where
  "PeriodicFrameListElement_new select_type addr =
     PeriodicFrameListElement_with_addr_upper_bits (ucast (drop_bit 5 addr))
       (PeriodicFrameListElement_with_reserved 0
         (PeriodicFrameListElement_with_typ (u2_from_SelectType select_type)
           (PeriodicFrameListElement_with_t False 0)))"

type_synonym periodic_frame_list = "periodic_frame_list_element list"

definition PeriodicFrameList_EMPTY :: periodic_frame_list where
  "PeriodicFrameList_EMPTY = replicate 1024 PeriodicFrameListElement_NONE"

subsection \<open>Field laws\<close>

lemma unat_drop_bit_less: "unat (drop_bit n (a :: 'a::len word)) < 2 ^ (LENGTH('a) - n)"
proof (cases "n \<le> LENGTH('a)")
  case True
  then have "(2::nat) ^ LENGTH('a) = 2 ^ (LENGTH('a) - n) * 2 ^ n"
    by (simp flip: power_add)
  moreover have "unat a < 2 ^ LENGTH('a)"
    by (rule unsigned_less)
  ultimately have "unat a div 2 ^ n < 2 ^ (LENGTH('a) - n)"
    by (simp add: less_mult_imp_div_less)
  then show ?thesis
    by (simp only: unat_drop_bit_eq flip: drop_bit_eq_div)
next
  case False
  then show ?thesis
    by (simp add: drop_bit_word_beyond)
qed

lemma u27_new_shift: "uint_new (unat (drop_bit 5 (a :: u32))) = Inr (ucast (drop_bit 5 a) :: u27)"
  using unat_drop_bit_less [of 5 a] by (simp add: uint_new_def of_nat_unat)

lemma u20_new_shift: "uint_new (unat (drop_bit 12 (a :: u32))) = Inr (ucast (drop_bit 12 a) :: u20)"
  using unat_drop_bit_less [of 12 a] by (simp add: uint_new_def of_nat_unat)

interpretation token_active: bit_field TransferToken_active TransferToken_with_active
  unfolding bitfield_defs by (rule bit_field_flag) simp

interpretation token_total: bit_field
    TransferToken_total_bytes_to_transfer TransferToken_with_total_bytes_to_transfer
  unfolding bitfield_defs by (rule bit_field_bits) simp

interpretation token_active_total: bit_field_pair
    TransferToken_active TransferToken_with_active
    TransferToken_total_bytes_to_transfer TransferToken_with_total_bytes_to_transfer
  by unfold_locales (simp_all add: bitfield_defs bitfield)

lemma TransferToken_new_active_simps [simp]:
  "TransferToken_active (TransferToken_new_active pid n)"
  "\<not> TransferToken_halted (TransferToken_new_active pid n)"
  "TransferToken_pid_code (TransferToken_new_active pid n) = u2_from_PidCode pid"
  "TransferToken_total_bytes_to_transfer (TransferToken_new_active pid n) = n"
  "TransferToken_current_page (TransferToken_new_active pid n) = 0"
  "\<not> TransferToken_data_toggle (TransferToken_new_active pid n)"
  "\<not> TransferToken_interrupt_on_complete (TransferToken_new_active pid n)"
  by (simp_all add: TransferToken_new_active_def bitfield_defs bitfield)

lemma hlink_new_simps [simp]:
  "\<not> QhHorizontalLinkPtr_terminate (QhHorizontalLinkPtr_new t p)"
  "QhHorizontalLinkPtr_pointer_type (QhHorizontalLinkPtr_new t p) = u2_from_SelectType t"
  "QhHorizontalLinkPtr_ptr_upper (QhHorizontalLinkPtr_new t p) = ucast (drop_bit 5 p)"
  "QhHorizontalLinkPtr_ptr QhHorizontalLinkPtr_INVALID = None"
  by (simp_all add: QhHorizontalLinkPtr_new_def QhHorizontalLinkPtr_INVALID_def
      QhHorizontalLinkPtr_ptr_def bitfield_defs bitfield)

lemma ucast_u27_push_drop: "push_bit 5 (ucast (ucast (drop_bit 5 (p :: u32)) :: u27)) = push_bit 5 (drop_bit 5 p)"
  by (rule bit_word_eqI) (auto simp: bit_simps)

lemma hlink_ptr_new: "QhHorizontalLinkPtr_ptr (QhHorizontalLinkPtr_new t p) = Some (push_bit 5 (drop_bit 5 p))"
  by (simp add: QhHorizontalLinkPtr_ptr_def ucast_u27_push_drop)

lemma hlink_ptr_new_aligned [simp]:
  "aligned32 p \<Longrightarrow> QhHorizontalLinkPtr_ptr (QhHorizontalLinkPtr_new t p) = Some p"
  by (simp add: hlink_ptr_new aligned32_push_drop)

lemma get_addr_offset_Inr_iff:
  "get_addr_offset phys seg = Inr off \<longleftrightarrow>
     ucast (drop_bit 32 phys) = base_addr_upper seg \<and> off = ucast phys"
  by (auto simp: get_addr_offset_def Let_def)

text \<open>The controller's view: the segment register gives the upper half of an address.\<close>

definition segment_addr :: "ctrl_ds_segment \<Rightarrow> u32 \<Rightarrow> u64" where
  "segment_addr seg off = push_bit 32 (ucast (base_addr_upper seg)) OR ucast off"

lemma segment_addr_get_addr_offset:
  assumes "get_addr_offset phys seg = Inr off"
  shows "segment_addr seg off = phys"
proof -
  have "segment_addr seg off = push_bit 32 (ucast (ucast (drop_bit 32 phys) :: u32)) OR ucast (ucast phys :: u32)"
    using assms by (simp add: get_addr_offset_Inr_iff segment_addr_def)
  also have "\<dots> = phys" (is "?l = phys")
  proof (rule bit_word_eqI)
    fix n assume "n < LENGTH(64)"
    then show "bit ?l n = bit phys n"
      by (cases "n < 32") (auto simp: bit_simps)
  qed
  finally show ?thesis .
qed

lemma get_addr_offset_inject:
  assumes "get_addr_offset p seg = Inr off" and "get_addr_offset q seg = Inr off"
  shows "p = q"
  using assms segment_addr_get_addr_offset by metis

lemma get_addr_offset_aligned:
  assumes "get_addr_offset p seg = Inr off" and "aligned32 p"
  shows "aligned32 off"
proof -
  have "take_bit 5 (ucast p :: u32) = ucast (take_bit 5 p)"
    by (rule bit_word_eqI) (auto simp: bit_simps)
  with assms show ?thesis by (simp add: get_addr_offset_Inr_iff aligned32_def)
qed

subsection \<open>The bytes a descriptor addresses\<close>

text \<open>
  How the controller finds byte \<open>k\<close> of a transfer: the sum of the current offset and \<open>k\<close> selects
  one of the five page pointers and the byte within that page; a page pointer is the extended
  word above the upper 20 bits of the page word.
\<close>

definition qtd_page :: "qtd \<Rightarrow> nat \<Rightarrow> u64" where
  "qtd_page q i =
     push_bit 32 (ucast ([extended_buffer_ptr_page_0 q, extended_buffer_ptr_page_1 q,
       extended_buffer_ptr_page_2 q, extended_buffer_ptr_page_3 q, extended_buffer_ptr_page_4 q] ! i))
     OR push_bit 12 (ucast ([QtdBufferPagePointerPage0_ptr_upper (buffer_pointer_page_0 q),
       QtdBufferPagePointerPage1Plus_ptr_upper (buffer_pointer_page_1 q),
       QtdBufferPagePointerPage1Plus_ptr_upper (buffer_pointer_page_2 q),
       QtdBufferPagePointerPage1Plus_ptr_upper (buffer_pointer_page_3 q),
       QtdBufferPagePointerPage1Plus_ptr_upper (buffer_pointer_page_4 q)] ! i))"

definition qtd_byte_addr :: "qtd \<Rightarrow> nat \<Rightarrow> u64" where
  "qtd_byte_addr q k =
     (let x = unat (QtdBufferPagePointerPage0_current_offset (buffer_pointer_page_0 q)) + k
      in qtd_page q (x div 4096) + of_nat (x mod 4096))"

lemma ptr_bits_of [simp]:
  "i < length (bp_ptrs bp) \<Longrightarrow> ptr_bits_12_31 bp i = Inr (ucast (drop_bit 12 (ucast (bp_ptrs bp ! i) :: u32)))"
  "i < length (bp_ptrs bp) \<Longrightarrow> ptr_bits_32_63 bp i = Inr (ucast (drop_bit 32 (bp_ptrs bp ! i)))"
  by (simp_all add: ptr_bits_12_31_def ptr_bits_32_63_def index_list_def u20_new_shift)

lemma page_split:
  assumes "take_bit 12 (x :: u64) = 0"
  shows "push_bit 32 (ucast (ucast (drop_bit 32 x) :: u32))
    OR push_bit 12 (ucast (ucast (drop_bit 12 (ucast x :: u32)) :: u20)) = x" (is "?l = x")
proof (rule bit_word_eqI)
  fix n assume n: "n < LENGTH(64)"
  have "\<not> bit x n" if "n < 12"
    using assms that by (metis bit_0_eq bit_take_bit_iff bot_apply bot_bool_def)
  with n show "bit ?l n = bit x n"
    by (cases "n < 12"; cases "n < 32") (auto simp: bit_simps)
qed

lemma Qtd_new_total:
  "length (bp_ptrs bp) = 5 \<Longrightarrow> \<exists>q. Qtd_new t bp = Inr q \<and> qtd_token q = t
     \<and> next_qtd_ptr q = NextQtdPointer_INVALID
     \<and> alternate_next_qtd_ptr q = AlternateQtdLinkPtr_INVALID"
  by (simp add: Qtd_new_def)

lemma less_5_cases: "(i::nat) < 5 \<longleftrightarrow> i = 0 \<or> i = 1 \<or> i = 2 \<or> i = 3 \<or> i = 4"
  by auto

lemma qtd_page_Qtd_new:
  assumes "Qtd_new t bp = Inr q" and "length (bp_ptrs bp) = 5" and "i < 5"
    and "take_bit 12 (bp_ptrs bp ! i) = 0"
  shows "qtd_page q i = bp_ptrs bp ! i"
  using assms(1,3) page_split [OF assms(4)] assms(2)
  by (auto simp: Qtd_new_def qtd_page_def bitfield_defs bitfield less_5_cases)

lemma qtd_offset_Qtd_new:
  assumes "Qtd_new t bp = Inr q" and "length (bp_ptrs bp) = 5"
  shows "QtdBufferPagePointerPage0_current_offset (buffer_pointer_page_0 q) = bp_offset bp"
  using assms by (auto simp: Qtd_new_def bitfield_defs bitfield)

lemma new_contiguous_Inr_iff:
  "BufferPtrs_new_contiguous p len = Inr bp \<longleftrightarrow>
     unat (p - p mod 0x1000) + 0x5000 < 2 ^ 64 \<and> len \<le> 0x5000 \<and>
     bp = \<lparr>bp_ptrs = map (\<lambda>i. p - p mod 0x1000 + 0x1000 * of_nat i) [0..<5],
           bp_offset = of_nat (unat (p mod 0x1000))\<rparr>"
proof -
  define page where "page = p - p mod 0x1000"
  have off: "unat (p mod 0x1000) < 4096"
    by (simp add: unat_mod_distrib)
  have "(unat (page + 0x5000) < unat (page + len)) = (0x5000 < unat len)"
    if "unat page + unat len < 2 ^ 64" "unat page + 0x5000 < 2 ^ 64"
    using that by (simp add: unat_word_ariths)
  then show ?thesis
    unfolding BufferPtrs_new_contiguous_def Let_def page_def [symmetric]
    using off
    by (auto simp: checked_add_def uint_new_def upt_rec word_le_nat_alt word_less_nat_alt not_less)
qed

lemma page_aligned: "take_bit 12 (p - p mod 0x1000 + 0x1000 * of_nat i :: u64) = 0"
proof -
  have "p - p mod 0x1000 = push_bit 12 (drop_bit 12 p)"
    by (simp add: push_bit_eq_mult drop_bit_eq_div minus_mod_eq_mult_div)
  moreover have "0x1000 * of_nat i = push_bit 12 (of_nat i :: u64)"
    by (simp add: push_bit_eq_mult)
  ultimately have "p - p mod 0x1000 + 0x1000 * of_nat i = push_bit 12 (drop_bit 12 p + of_nat i)"
    by (simp add: push_bit_eq_mult distrib_left)
  then show ?thesis by (simp add: take_bit_push_bit)
qed

lemma new_contiguous_length: "BufferPtrs_new_contiguous p len = Inr bp \<Longrightarrow> length (bp_ptrs bp) = 5"
  by (simp add: new_contiguous_Inr_iff)

lemma new_contiguous_ZERO_length [simp]: "length (bp_ptrs BufferPtrs_ZERO) = 5"
  by (simp add: BufferPtrs_ZERO_def)

lemma qtd_byte_addr_contiguous:
  assumes bp: "BufferPtrs_new_contiguous p len = Inr bp" and q: "Qtd_new t bp = Inr q"
    and k: "unat (p mod 0x1000) + k < 0x5000"
  shows "qtd_byte_addr q k = p + of_nat k"
proof -
  define x where "x = unat (p mod 0x1000) + k"
  have len: "length (bp_ptrs bp) = 5" and off: "bp_offset bp = of_nat (unat (p mod 0x1000))"
    and ptrs: "bp_ptrs bp = map (\<lambda>i. p - p mod 0x1000 + 0x1000 * of_nat i) [0..<5]"
    using bp by (auto simp: new_contiguous_Inr_iff)
  have "unat (p mod 0x1000) < 4096"
    by (simp add: unat_mod_distrib)
  then have "unat (bp_offset bp) = unat (p mod 0x1000)"
    by (simp only: off unsigned_of_nat) (simp add: take_bit_nat_eq_self)
  then have "qtd_byte_addr q k = qtd_page q (x div 4096) + of_nat (x mod 4096)"
    using qtd_offset_Qtd_new [OF q len] by (simp add: qtd_byte_addr_def x_def Let_def)
  also have "x div 4096 < 5"
    using k by (simp add: x_def)
  then have "qtd_page q (x div 4096) = p - p mod 0x1000 + 0x1000 * of_nat (x div 4096)"
    using qtd_page_Qtd_new [OF q len, of "x div 4096"] page_aligned [of p "x div 4096"]
    by (simp add: ptrs)
  also have "\<dots> + of_nat (x mod 4096) = p - p mod 0x1000 + of_nat (4096 * (x div 4096) + x mod 4096)"
    by (simp only: of_nat_add of_nat_mult) simp
  also have "\<dots> = p + of_nat k"
    by (simp add: x_def of_nat_unat)
  finally show ?thesis .
qed

lemma link_contiguous_loop_spec:
  assumes "link_contiguous_loop phys k i qtds = Inr qtds'" and "i + k \<le> length qtds"
  shows "length qtds' = length qtds \<and>
    (\<forall>j < length qtds. qtds' ! j =
       (if i \<le> j \<and> j < i + k
        then (qtds ! j)\<lparr>next_qtd_ptr := NextQtdPointer_new_valid (phys + of_nat ((j + 1) * size_of_Qtd))\<rparr>
        else qtds ! j))"
  using assms
proof (induction k arbitrary: i qtds)
  case 0
  then show ?case by auto
next
  case (Suc k)
  let ?u = "qtds[i := (qtds ! i)\<lparr>next_qtd_ptr :=
    NextQtdPointer_new_valid (phys + of_nat ((i + 1) * size_of_Qtd))\<rparr>]"
  from Suc.prems have rec: "link_contiguous_loop phys k (i + 1) ?u = Inr qtds'"
    by (auto simp: obind_eq_Inr_iff checked_add_Inr_iff split: if_splits)
  from Suc.prems(2) have "i + 1 + k \<le> length ?u" by simp
  from Suc.IH [OF rec this] Suc.prems(2) show ?case
    by (auto simp: nth_list_update)
qed

subsection \<open>Properties\<close>

text \<open>A link pointer that the driver builds from the physical address of a 32-byte aligned queue
  head inside the segment leads the controller, which prepends the segment register, back to
  exactly that physical address.\<close>

theorem link_pointer_resolves:
  assumes "get_addr_offset phys seg = Inr off" and "aligned32 phys"
  shows "map_option (segment_addr seg) (QhHorizontalLinkPtr_ptr (QhHorizontalLinkPtr_new t off)) = Some phys
    \<and> QhHorizontalLinkPtr_pointer_type (QhHorizontalLinkPtr_new t off) = u2_from_SelectType t"
  using get_addr_offset_aligned [OF assms] segment_addr_get_addr_offset [OF assms(1)] by simp

theorem link_pointer_resolves_witness:
  "map_option (segment_addr \<lparr>base_addr_upper = 7\<rparr>)
     (QhHorizontalLinkPtr_ptr (QhHorizontalLinkPtr_new Qh 0x40)) = Some 0x700000040"
  using link_pointer_resolves [of "0x700000040" "\<lparr>base_addr_upper = 7\<rparr>" "0x40" Qh]
  by (simp add: get_addr_offset_def aligned32_def)

text \<open>A descriptor built for a contiguous buffer addresses the buffer: byte \<open>k\<close> of the transfer, as
  the controller finds it through the page pointers, is the byte at \<open>p + k\<close>, for every \<open>k\<close> that
  falls within the five pages.\<close>

theorem descriptor_addresses_buffer:
  assumes "BufferPtrs_new_contiguous p len = Inr bp"
    and "unat (p mod 0x1000) + k < 0x5000"
  shows "\<exists>q. Qtd_new t bp = Inr q \<and> qtd_token q = t \<and> qtd_byte_addr q k = p + of_nat k"
  using Qtd_new_total [OF new_contiguous_length [OF assms(1)]] qtd_byte_addr_contiguous [OF assms(1) _ assms(2)]
  by blast

theorem descriptor_addresses_buffer_witness:
  "\<exists>bp q. BufferPtrs_new_contiguous 0x123456FFC 8 = Inr bp \<and> Qtd_new 0x80 bp = Inr q
     \<and> qtd_byte_addr q 5 = 0x123457001"
proof -
  obtain bp where bp: "BufferPtrs_new_contiguous 0x123456FFC 8 = Inr bp"
    by (simp add: BufferPtrs_new_contiguous_def checked_add_def uint_new_def)
  from descriptor_addresses_buffer [OF bp, of 5 "0x80"] obtain q
    where "Qtd_new 0x80 bp = Inr q" "qtd_byte_addr q 5 = 0x123456FFC + of_nat 5"
    by auto
  with bp show ?thesis by auto
qed

text \<open>The buffers \<open>BufferPtrs_new_contiguous\<close> accepts: those of at most \<open>0x5000\<close> bytes whose page
  window does not wrap around the address space.  The offset of the buffer within its first page
  plays no part, so a buffer that starts late in a page is accepted although its last bytes lie
  beyond the fifth page pointer.\<close>

theorem new_contiguous_accepts:
  "(\<exists>bp. BufferPtrs_new_contiguous p len = Inr bp) \<longleftrightarrow>
     len \<le> 0x5000 \<and> unat (p - p mod 0x1000) + 0x5000 < 2 ^ 64"
  by (auto simp: new_contiguous_Inr_iff)

text \<open>\<open>link_contiguous_qtds\<close> chains an array of descriptors: the queue head points at the first,
  each descriptor but the last at its successor in the array (64 bytes further), and nothing else
  of any descriptor changes.\<close>

theorem link_contiguous_qtds_chains:
  assumes "link_contiguous_qtds q qtds phys = Inr (q', qtds')"
  shows "q' = q\<lparr>next_qtd_pointer := NextQtdPointer_new_valid phys\<rparr> \<and> length qtds' = length qtds
    \<and> last qtds' = last qtds
    \<and> (\<forall>j. j + 1 < length qtds \<longrightarrow> qtds' ! j =
        (qtds ! j)\<lparr>next_qtd_ptr := NextQtdPointer_new_valid (phys + of_nat ((j + 1) * size_of_Qtd))\<rparr>)"
proof -
  have ne: "qtds \<noteq> []"
    and loop: "link_contiguous_loop phys (length qtds - 1) 0 qtds = Inr qtds'"
    and q': "q' = q\<lparr>next_qtd_pointer := NextQtdPointer_new_valid phys\<rparr>"
    using assms by (auto simp: link_contiguous_qtds_def Let_def obind_eq_Inr_iff split: if_splits)
  note spec = link_contiguous_loop_spec [OF loop, simplified]
  from spec ne have "qtds' \<noteq> []" by auto
  with spec ne q' show ?thesis
    by (auto simp: last_conv_nth)
qed

theorem link_contiguous_qtds_chains_witness:
  "\<exists>q' qtds' d. link_contiguous_qtds (Qh_new 0 0) [d, d] 0x1000 = Inr (q', qtds')
     \<and> next_qtd_ptr (qtds' ! 0) = NextQtdPointer_new_valid 0x1040"
proof -
  define d where "d = (case Qtd_new 0 BufferPtrs_ZERO of Inr x \<Rightarrow> x)"
  obtain q' qtds' where r: "link_contiguous_qtds (Qh_new 0 0) [d, d] 0x1000 = Inr (q', qtds')"
    by (simp add: link_contiguous_qtds_def checked_add_def size_of_Qtd_def)
  from link_contiguous_qtds_chains [OF r] have "next_qtd_ptr (qtds' ! 0) = NextQtdPointer_new_valid 0x1040"
    by (auto simp: size_of_Qtd_def dest: spec [of _ 0])
  with r show ?thesis by blast
qed

end
