(* ===== verification/Setup_Packets.thy ===== *)
theory Setup_Packets
  imports Transfer_Structs
begin

text \<open>
  The eight bytes of a SETUP packet (\<^verbatim>\<open>setup_packet.rs\<close>): the request enumerations with their
  wire values, the record \<open>setup_packet\<close>, one definition per constructor, and the byte image
  that \<^verbatim>\<open>transmute!\<close> puts in memory.  \<open>decode_request\<close> is a reader written from the device's
  side; the round trip shows that a device reads from the bytes the request the driver meant.
\<close>

subsection \<open>Requests and their wire values\<close>

type_synonym bm_request_type = u8

definition BmRequestType_recipient :: "bm_request_type \<Rightarrow> u5" where [bitfield_defs]:
  "BmRequestType_recipient = bits_get 0"

definition BmRequestType_with_recipient :: "u5 \<Rightarrow> bm_request_type \<Rightarrow> bm_request_type" where [bitfield_defs]:
  "BmRequestType_with_recipient = bits_set 0"

definition BmRequestType_request_type :: "bm_request_type \<Rightarrow> u2" where [bitfield_defs]:
  "BmRequestType_request_type = bits_get 5"

definition BmRequestType_with_request_type :: "u2 \<Rightarrow> bm_request_type \<Rightarrow> bm_request_type" where [bitfield_defs]:
  "BmRequestType_with_request_type = bits_set 5"

definition BmRequestType_direction :: "bm_request_type \<Rightarrow> bool" where [bitfield_defs]:
  "BmRequestType_direction = flag_get 7"

definition BmRequestType_with_direction :: "bool \<Rightarrow> bm_request_type \<Rightarrow> bm_request_type" where [bitfield_defs]:
  "BmRequestType_with_direction = flag_set 7"

datatype Recipient = Recipient_Device | Recipient_Interface | Recipient_Endpoint | Recipient_Other

fun u5_from_Recipient :: "Recipient \<Rightarrow> u5" where
  "u5_from_Recipient Recipient_Device = 0"
| "u5_from_Recipient Recipient_Interface = 1"
| "u5_from_Recipient Recipient_Endpoint = 2"
| "u5_from_Recipient Recipient_Other = 3"

datatype RequestType = Standard | Class | Vendor

fun u2_from_RequestType :: "RequestType \<Rightarrow> u2" where
  "u2_from_RequestType Standard = 0"
| "u2_from_RequestType Class = 1"
| "u2_from_RequestType Vendor = 2"

datatype Direction = HostToDeviceOrNoDataTransfer | DeviceToHost

definition bool_from_Direction :: "Direction \<Rightarrow> bool" where
  "bool_from_Direction d = (d = DeviceToHost)"

datatype BRequest =
    GetStatus | ClearFeature | SetFeature | SetAddress | GetDescriptor | SetDescriptor
  | GetConfiguration | SetConfiguration

fun u8_from_BRequest :: "BRequest \<Rightarrow> u8" where
  "u8_from_BRequest GetStatus = 0"
| "u8_from_BRequest ClearFeature = 1"
| "u8_from_BRequest SetFeature = 3"
| "u8_from_BRequest SetAddress = 5"
| "u8_from_BRequest GetDescriptor = 6"
| "u8_from_BRequest SetDescriptor = 7"
| "u8_from_BRequest GetConfiguration = 8"
| "u8_from_BRequest SetConfiguration = 9"

datatype DescriptorType =
    DescriptorType_Device | DescriptorType_Configuration | DescriptorType_String
  | DescriptorType_Interface | DescriptorType_Endpoint | DescriptorType_DeviceQualifier
  | DescriptorType_OtherSpeedConfiguration | DescriptorType_InterfacePower

fun u8_from_DescriptorType :: "DescriptorType \<Rightarrow> u8" where
  "u8_from_DescriptorType DescriptorType_Device = 1"
| "u8_from_DescriptorType DescriptorType_Configuration = 2"
| "u8_from_DescriptorType DescriptorType_String = 3"
| "u8_from_DescriptorType DescriptorType_Interface = 4"
| "u8_from_DescriptorType DescriptorType_Endpoint = 5"
| "u8_from_DescriptorType DescriptorType_DeviceQualifier = 6"
| "u8_from_DescriptorType DescriptorType_OtherSpeedConfiguration = 7"
| "u8_from_DescriptorType DescriptorType_InterfacePower = 8"

datatype HubDescriptorType = HubDescriptorType_Hub

fun u8_from_HubDescriptorType :: "HubDescriptorType \<Rightarrow> u8" where
  "u8_from_HubDescriptorType HubDescriptorType_Hub = 0x29"

datatype HubFeature = PortPower | PortReset

fun u16_from_HubFeature :: "HubFeature \<Rightarrow> u16" where
  "u16_from_HubFeature PortPower = 0x8"
| "u16_from_HubFeature PortReset = 0x4"

subsection \<open>Packets\<close>

record setup_packet =
  sp_bm_request_type :: u8
  sp_b_request :: u8
  sp_w_value :: bytes
  sp_w_index :: bytes
  sp_w_length :: bytes

definition SetupPacket_new_get_device_descriptor :: "u16 \<Rightarrow> setup_packet" where
  "SetupPacket_new_get_device_descriptor w_length =
     \<lparr>sp_bm_request_type =
        (BmRequestType_with_direction (bool_from_Direction DeviceToHost)
          (BmRequestType_with_request_type (u2_from_RequestType Standard)
            (BmRequestType_with_recipient (u5_from_Recipient Recipient_Device) 0))),
      sp_b_request = u8_from_BRequest GetDescriptor,
      sp_w_value = [0, u8_from_DescriptorType DescriptorType_Device],
      sp_w_index = u16_to_le_bytes 0,
      sp_w_length = u16_to_le_bytes w_length\<rparr>"

definition SetupPacket_new_get_configuration_descriptor :: "u16 \<Rightarrow> u8 \<Rightarrow> setup_packet" where
  "SetupPacket_new_get_configuration_descriptor w_length num =
     \<lparr>sp_bm_request_type =
        (BmRequestType_with_direction (bool_from_Direction DeviceToHost)
          (BmRequestType_with_request_type (u2_from_RequestType Standard)
            (BmRequestType_with_recipient (u5_from_Recipient Recipient_Device) 0))),
      sp_b_request = u8_from_BRequest GetDescriptor,
      sp_w_value = [num, u8_from_DescriptorType DescriptorType_Configuration],
      sp_w_index = u16_to_le_bytes 0,
      sp_w_length = u16_to_le_bytes w_length\<rparr>"

definition SetupPacket_new_set_address :: "u7 \<Rightarrow> setup_packet" where
  "SetupPacket_new_set_address new_address =
     \<lparr>sp_bm_request_type =
        (BmRequestType_with_direction (bool_from_Direction HostToDeviceOrNoDataTransfer)
          (BmRequestType_with_request_type (u2_from_RequestType Standard)
            (BmRequestType_with_recipient (u5_from_Recipient Recipient_Device) 0))),
      sp_b_request = u8_from_BRequest SetAddress,
      sp_w_value = u16_to_le_bytes (ucast new_address),
      sp_w_index = u16_to_le_bytes 0,
      sp_w_length = u16_to_le_bytes 0\<rparr>"

definition SetupPacket_new_set_configuration :: "u8 \<Rightarrow> setup_packet" where
  "SetupPacket_new_set_configuration configuration_number =
     \<lparr>sp_bm_request_type =
        (BmRequestType_with_direction (bool_from_Direction HostToDeviceOrNoDataTransfer)
          (BmRequestType_with_request_type (u2_from_RequestType Standard)
            (BmRequestType_with_recipient (u5_from_Recipient Recipient_Device) 0))),
      sp_b_request = u8_from_BRequest SetConfiguration,
      sp_w_value = [configuration_number, 0],
      sp_w_index = u16_to_le_bytes 0,
      sp_w_length = u16_to_le_bytes 0\<rparr>"

definition SetupPacket_new_get_hub_descriptor :: "u16 \<Rightarrow> setup_packet" where
  "SetupPacket_new_get_hub_descriptor w_length =
     \<lparr>sp_bm_request_type =
        (BmRequestType_with_direction (bool_from_Direction DeviceToHost)
          (BmRequestType_with_request_type (u2_from_RequestType Class)
            (BmRequestType_with_recipient (u5_from_Recipient Recipient_Device) 0))),
      sp_b_request = u8_from_BRequest GetDescriptor,
      sp_w_value = [0, u8_from_HubDescriptorType HubDescriptorType_Hub],
      sp_w_index = u16_to_le_bytes 0,
      sp_w_length = u16_to_le_bytes w_length\<rparr>"

definition SetupPacket_new_set_feature_port_power :: "u8 \<Rightarrow> setup_packet" where
  "SetupPacket_new_set_feature_port_power port_number =
     \<lparr>sp_bm_request_type =
        (BmRequestType_with_direction (bool_from_Direction HostToDeviceOrNoDataTransfer)
          (BmRequestType_with_request_type (u2_from_RequestType Class)
            (BmRequestType_with_recipient (u5_from_Recipient Recipient_Other) 0))),
      sp_b_request = u8_from_BRequest SetFeature,
      sp_w_value = u16_to_le_bytes (u16_from_HubFeature PortPower),
      sp_w_index = u16_to_le_bytes (ucast port_number),
      sp_w_length = u16_to_le_bytes 0\<rparr>"

definition SetupPacket_new_get_port_status :: "u8 \<Rightarrow> setup_packet" where
  "SetupPacket_new_get_port_status port_number =
     \<lparr>sp_bm_request_type =
        (BmRequestType_with_direction (bool_from_Direction DeviceToHost)
          (BmRequestType_with_request_type (u2_from_RequestType Class)
            (BmRequestType_with_recipient (u5_from_Recipient Recipient_Other) 0))),
      sp_b_request = u8_from_BRequest GetStatus,
      sp_w_value = u16_to_le_bytes 0,
      sp_w_index = u16_to_le_bytes (ucast port_number),
      sp_w_length = u16_to_le_bytes 4\<rparr>"

definition SetupPacket_new_set_feature_port_reset :: "u8 \<Rightarrow> setup_packet" where
  "SetupPacket_new_set_feature_port_reset port_number =
     \<lparr>sp_bm_request_type =
        (BmRequestType_with_direction (bool_from_Direction HostToDeviceOrNoDataTransfer)
          (BmRequestType_with_request_type (u2_from_RequestType Class)
            (BmRequestType_with_recipient (u5_from_Recipient Recipient_Other) 0))),
      sp_b_request = u8_from_BRequest SetFeature,
      sp_w_value = u16_to_le_bytes (u16_from_HubFeature PortReset),
      sp_w_index = u16_to_le_bytes (ucast port_number),
      sp_w_length = u16_to_le_bytes 0\<rparr>"

text \<open>\<^verbatim>\<open>transmute!(packet)\<close> to \<^verbatim>\<open>[u8; 8]\<close>: the fields in declaration order (\<^verbatim>\<open>repr(C)\<close>, all of
  alignment 1).\<close>

definition SetupPacket_bytes :: "setup_packet \<Rightarrow> bytes" where
  "SetupPacket_bytes p =
     sp_bm_request_type p # sp_b_request p # sp_w_value p @ sp_w_index p @ sp_w_length p"

subsection \<open>The device's reading of the bytes\<close>

datatype usb_request =
    ReqGetDescriptor RequestType u8 u8 u16
  | ReqSetAddress u16
  | ReqSetConfiguration u8
  | ReqPortStatus u16 u16
  | ReqSetPortFeature u16 u16

definition decode_request :: "bytes \<Rightarrow> usb_request option" where
  "decode_request bs =
     (case bs of
        [ty, req, v0, v1, i0, i1, l0, l1] \<Rightarrow>
          (let value = u16_from_le_bytes v0 v1; index = u16_from_le_bytes i0 i1;
               len = u16_from_le_bytes l0 l1
           in if (ty, req) = (0x80, 6) \<and> index = 0 then Some (ReqGetDescriptor Standard v1 v0 len)
              else if (ty, req) = (0xA0, 6) \<and> index = 0 then Some (ReqGetDescriptor Class v1 v0 len)
              else if (ty, req) = (0x00, 5) \<and> index = 0 \<and> len = 0 then Some (ReqSetAddress value)
              else if (ty, req) = (0x00, 9) \<and> index = 0 \<and> len = 0 \<and> v1 = 0 then Some (ReqSetConfiguration v0)
              else if (ty, req) = (0xA3, 0) \<and> value = 0 then Some (ReqPortStatus index len)
              else if (ty, req) = (0x23, 3) \<and> len = 0 then Some (ReqSetPortFeature value index)
              else None)
      | _ \<Rightarrow> None)"

lemmas setup_packet_defs =
  SetupPacket_new_get_device_descriptor_def SetupPacket_new_get_configuration_descriptor_def
  SetupPacket_new_set_address_def SetupPacket_new_set_configuration_def
  SetupPacket_new_get_hub_descriptor_def SetupPacket_new_set_feature_port_power_def
  SetupPacket_new_get_port_status_def SetupPacket_new_set_feature_port_reset_def

lemma request_type_bytes:
  "BmRequestType_with_direction True (BmRequestType_with_request_type 0 (BmRequestType_with_recipient 0 0)) = 0x80"
  "BmRequestType_with_direction True (BmRequestType_with_request_type 1 (BmRequestType_with_recipient 0 0)) = 0xA0"
  "BmRequestType_with_direction False (BmRequestType_with_request_type 0 (BmRequestType_with_recipient 0 0)) = 0"
  "BmRequestType_with_direction True (BmRequestType_with_request_type 1 (BmRequestType_with_recipient 3 0)) = 0xA3"
  "BmRequestType_with_direction False (BmRequestType_with_request_type 1 (BmRequestType_with_recipient 3 0)) = 0x23"
  by (simp_all add: bitfield_defs bits_set_def flag_set_def mask_eq_exp_minus_1 set_bit_eq_or unset_bit_eq_and_not)

lemma small_le_bytes:
  "u16_from_le_bytes 0 0 = 0" "u16_from_le_bytes 4 0 = 4" "u16_from_le_bytes 8 0 = 8"
  by (simp_all add: u16_from_le_bytes_def)

subsection \<open>Properties\<close>

lemma decode_setup_packets [simp]:
  "decode_request (SetupPacket_bytes (SetupPacket_new_get_device_descriptor l)) = Some (ReqGetDescriptor Standard 1 0 l)"
  "decode_request (SetupPacket_bytes (SetupPacket_new_get_configuration_descriptor l n)) = Some (ReqGetDescriptor Standard 2 n l)"
  "decode_request (SetupPacket_bytes (SetupPacket_new_get_hub_descriptor l)) = Some (ReqGetDescriptor Class 0x29 0 l)"
  "decode_request (SetupPacket_bytes (SetupPacket_new_set_address a)) = Some (ReqSetAddress (ucast a))"
  "decode_request (SetupPacket_bytes (SetupPacket_new_set_configuration n)) = Some (ReqSetConfiguration n)"
  "decode_request (SetupPacket_bytes (SetupPacket_new_get_port_status n)) = Some (ReqPortStatus (ucast n) 4)"
  "decode_request (SetupPacket_bytes (SetupPacket_new_set_feature_port_power n)) = Some (ReqSetPortFeature 8 (ucast n))"
  "decode_request (SetupPacket_bytes (SetupPacket_new_set_feature_port_reset n)) = Some (ReqSetPortFeature 4 (ucast n))"
  by (simp_all add: setup_packet_defs SetupPacket_bytes_def decode_request_def u16_to_le_bytes_def
      bool_from_Direction_def request_type_bytes small_le_bytes Let_def)

text \<open>Every SETUP packet the driver can build is eight bytes long and a device that decodes them by
  the USB layout reads exactly the request that was meant: the descriptor type, index and length,
  the new address, the configuration number, the port number and feature.\<close>

theorem setup_packet_roundtrip:
  "decode_request (SetupPacket_bytes (SetupPacket_new_get_device_descriptor l)) = Some (ReqGetDescriptor Standard 1 0 l)
   \<and> decode_request (SetupPacket_bytes (SetupPacket_new_get_configuration_descriptor l n)) = Some (ReqGetDescriptor Standard 2 n l)
   \<and> decode_request (SetupPacket_bytes (SetupPacket_new_get_hub_descriptor l)) = Some (ReqGetDescriptor Class 0x29 0 l)
   \<and> decode_request (SetupPacket_bytes (SetupPacket_new_set_address a)) = Some (ReqSetAddress (ucast a))
   \<and> decode_request (SetupPacket_bytes (SetupPacket_new_set_configuration n)) = Some (ReqSetConfiguration n)
   \<and> decode_request (SetupPacket_bytes (SetupPacket_new_get_port_status n)) = Some (ReqPortStatus (ucast n) 4)
   \<and> decode_request (SetupPacket_bytes (SetupPacket_new_set_feature_port_power n)) = Some (ReqSetPortFeature 8 (ucast n))
   \<and> decode_request (SetupPacket_bytes (SetupPacket_new_set_feature_port_reset n)) = Some (ReqSetPortFeature 4 (ucast n))"
  by simp

end
