(* ===== verification/Registers.thy ===== *)
theory Registers
  imports Transfer_Structs
begin

text \<open>
  The memory-mapped registers of the controller (\<^verbatim>\<open>operational_regs.rs\<close>, \<^verbatim>\<open>capability_regs.rs\<close>), with
  the fields their bitfield declarations name.  \<open>operational_regs\<close> is the register file; the
  port registers that follow it are the list \<open>port_sc\<close>, whose length the capability registers give.
\<close>

subsection \<open>Operational registers\<close>

type_synonym usb_cmd_reg = u32

definition UsbCmdReg_rs :: "usb_cmd_reg \<Rightarrow> bool" where [bitfield_defs]:
  "UsbCmdReg_rs = flag_get 0"

definition UsbCmdReg_with_rs :: "bool \<Rightarrow> usb_cmd_reg \<Rightarrow> usb_cmd_reg" where [bitfield_defs]:
  "UsbCmdReg_with_rs = flag_set 0"

definition UsbCmdReg_hc_reset :: "usb_cmd_reg \<Rightarrow> bool" where [bitfield_defs]:
  "UsbCmdReg_hc_reset = flag_get 1"

definition UsbCmdReg_with_hc_reset :: "bool \<Rightarrow> usb_cmd_reg \<Rightarrow> usb_cmd_reg" where [bitfield_defs]:
  "UsbCmdReg_with_hc_reset = flag_set 1"

definition UsbCmdReg_frame_list_size :: "usb_cmd_reg \<Rightarrow> u2" where [bitfield_defs]:
  "UsbCmdReg_frame_list_size = bits_get 2"

definition UsbCmdReg_with_frame_list_size :: "u2 \<Rightarrow> usb_cmd_reg \<Rightarrow> usb_cmd_reg" where [bitfield_defs]:
  "UsbCmdReg_with_frame_list_size = bits_set 2"

definition UsbCmdReg_periodic_schedule_enable :: "usb_cmd_reg \<Rightarrow> bool" where [bitfield_defs]:
  "UsbCmdReg_periodic_schedule_enable = flag_get 4"

definition UsbCmdReg_with_periodic_schedule_enable :: "bool \<Rightarrow> usb_cmd_reg \<Rightarrow> usb_cmd_reg" where [bitfield_defs]:
  "UsbCmdReg_with_periodic_schedule_enable = flag_set 4"

definition UsbCmdReg_async_schedule_enable :: "usb_cmd_reg \<Rightarrow> bool" where [bitfield_defs]:
  "UsbCmdReg_async_schedule_enable = flag_get 5"

definition UsbCmdReg_with_async_schedule_enable :: "bool \<Rightarrow> usb_cmd_reg \<Rightarrow> usb_cmd_reg" where [bitfield_defs]:
  "UsbCmdReg_with_async_schedule_enable = flag_set 5"

definition UsbCmdReg_interrupt_on_async_advance_doorbell :: "usb_cmd_reg \<Rightarrow> bool" where [bitfield_defs]:
  "UsbCmdReg_interrupt_on_async_advance_doorbell = flag_get 6"

definition UsbCmdReg_with_interrupt_on_async_advance_doorbell :: "bool \<Rightarrow> usb_cmd_reg \<Rightarrow> usb_cmd_reg" where [bitfield_defs]:
  "UsbCmdReg_with_interrupt_on_async_advance_doorbell = flag_set 6"

definition UsbCmdReg_light_host_controller_reset :: "usb_cmd_reg \<Rightarrow> bool" where [bitfield_defs]:
  "UsbCmdReg_light_host_controller_reset = flag_get 7"

definition UsbCmdReg_with_light_host_controller_reset :: "bool \<Rightarrow> usb_cmd_reg \<Rightarrow> usb_cmd_reg" where [bitfield_defs]:
  "UsbCmdReg_with_light_host_controller_reset = flag_set 7"

type_synonym usb_sts_reg = u32

definition UsbStsReg_usb_int :: "usb_sts_reg \<Rightarrow> bool" where [bitfield_defs]:
  "UsbStsReg_usb_int = flag_get 0"

definition UsbStsReg_with_usb_int :: "bool \<Rightarrow> usb_sts_reg \<Rightarrow> usb_sts_reg" where [bitfield_defs]:
  "UsbStsReg_with_usb_int = flag_set 0"

definition UsbStsReg_usb_err_int :: "usb_sts_reg \<Rightarrow> bool" where [bitfield_defs]:
  "UsbStsReg_usb_err_int = flag_get 1"

definition UsbStsReg_with_usb_err_int :: "bool \<Rightarrow> usb_sts_reg \<Rightarrow> usb_sts_reg" where [bitfield_defs]:
  "UsbStsReg_with_usb_err_int = flag_set 1"

definition UsbStsReg_port_change_detect :: "usb_sts_reg \<Rightarrow> bool" where [bitfield_defs]:
  "UsbStsReg_port_change_detect = flag_get 2"

definition UsbStsReg_with_port_change_detect :: "bool \<Rightarrow> usb_sts_reg \<Rightarrow> usb_sts_reg" where [bitfield_defs]:
  "UsbStsReg_with_port_change_detect = flag_set 2"

definition UsbStsReg_frame_list_rollover :: "usb_sts_reg \<Rightarrow> bool" where [bitfield_defs]:
  "UsbStsReg_frame_list_rollover = flag_get 3"

definition UsbStsReg_with_frame_list_rollover :: "bool \<Rightarrow> usb_sts_reg \<Rightarrow> usb_sts_reg" where [bitfield_defs]:
  "UsbStsReg_with_frame_list_rollover = flag_set 3"

definition UsbStsReg_host_system_error :: "usb_sts_reg \<Rightarrow> bool" where [bitfield_defs]:
  "UsbStsReg_host_system_error = flag_get 4"

definition UsbStsReg_with_host_system_error :: "bool \<Rightarrow> usb_sts_reg \<Rightarrow> usb_sts_reg" where [bitfield_defs]:
  "UsbStsReg_with_host_system_error = flag_set 4"

definition UsbStsReg_interrupt_on_async_advance :: "usb_sts_reg \<Rightarrow> bool" where [bitfield_defs]:
  "UsbStsReg_interrupt_on_async_advance = flag_get 5"

definition UsbStsReg_with_interrupt_on_async_advance :: "bool \<Rightarrow> usb_sts_reg \<Rightarrow> usb_sts_reg" where [bitfield_defs]:
  "UsbStsReg_with_interrupt_on_async_advance = flag_set 5"

definition UsbStsReg_hc_halted :: "usb_sts_reg \<Rightarrow> bool" where [bitfield_defs]:
  "UsbStsReg_hc_halted = flag_get 12"

definition UsbStsReg_periodic_schedule_status :: "usb_sts_reg \<Rightarrow> bool" where [bitfield_defs]:
  "UsbStsReg_periodic_schedule_status = flag_get 14"

definition UsbStsReg_async_schedule_status :: "usb_sts_reg \<Rightarrow> bool" where [bitfield_defs]:
  "UsbStsReg_async_schedule_status = flag_get 15"

type_synonym usb_intr_reg = u32

definition UsbIntrReg_usb_interrupt_enable :: "usb_intr_reg \<Rightarrow> bool" where [bitfield_defs]:
  "UsbIntrReg_usb_interrupt_enable = flag_get 0"

definition UsbIntrReg_with_usb_interrupt_enable :: "bool \<Rightarrow> usb_intr_reg \<Rightarrow> usb_intr_reg" where [bitfield_defs]:
  "UsbIntrReg_with_usb_interrupt_enable = flag_set 0"

definition UsbIntrReg_usb_error_interrupt_enable :: "usb_intr_reg \<Rightarrow> bool" where [bitfield_defs]:
  "UsbIntrReg_usb_error_interrupt_enable = flag_get 1"

definition UsbIntrReg_with_usb_error_interrupt_enable :: "bool \<Rightarrow> usb_intr_reg \<Rightarrow> usb_intr_reg" where [bitfield_defs]:
  "UsbIntrReg_with_usb_error_interrupt_enable = flag_set 1"

definition UsbIntrReg_port_change_interrupt_enable :: "usb_intr_reg \<Rightarrow> bool" where [bitfield_defs]:
  "UsbIntrReg_port_change_interrupt_enable = flag_get 2"

definition UsbIntrReg_with_port_change_interrupt_enable :: "bool \<Rightarrow> usb_intr_reg \<Rightarrow> usb_intr_reg" where [bitfield_defs]:
  "UsbIntrReg_with_port_change_interrupt_enable = flag_set 2"

definition UsbIntrReg_frame_list_rollover_interrupt_enable :: "usb_intr_reg \<Rightarrow> bool" where [bitfield_defs]:
  "UsbIntrReg_frame_list_rollover_interrupt_enable = flag_get 3"

definition UsbIntrReg_with_frame_list_rollover_interrupt_enable :: "bool \<Rightarrow> usb_intr_reg \<Rightarrow> usb_intr_reg" where [bitfield_defs]:
  "UsbIntrReg_with_frame_list_rollover_interrupt_enable = flag_set 3"

definition UsbIntrReg_host_system_error_interrupt_enable :: "usb_intr_reg \<Rightarrow> bool" where [bitfield_defs]:
  "UsbIntrReg_host_system_error_interrupt_enable = flag_get 4"

definition UsbIntrReg_with_host_system_error_interrupt_enable :: "bool \<Rightarrow> usb_intr_reg \<Rightarrow> usb_intr_reg" where [bitfield_defs]:
  "UsbIntrReg_with_host_system_error_interrupt_enable = flag_set 4"

definition UsbIntrReg_interrupt_on_async_advance_enable :: "usb_intr_reg \<Rightarrow> bool" where [bitfield_defs]:
  "UsbIntrReg_interrupt_on_async_advance_enable = flag_get 5"

definition UsbIntrReg_with_interrupt_on_async_advance_enable :: "bool \<Rightarrow> usb_intr_reg \<Rightarrow> usb_intr_reg" where [bitfield_defs]:
  "UsbIntrReg_with_interrupt_on_async_advance_enable = flag_set 5"

definition UsbIntrReg_reserved :: "usb_intr_reg \<Rightarrow> u26" where [bitfield_defs]:
  "UsbIntrReg_reserved = bits_get 6"

definition UsbIntrReg_with_reserved :: "u26 \<Rightarrow> usb_intr_reg \<Rightarrow> usb_intr_reg" where [bitfield_defs]:
  "UsbIntrReg_with_reserved = bits_set 6"

type_synonym usb_fr_index_reg = u32

type_synonym async_list_addr_reg = u32

definition AsyncListAddrReg_link_pointer_low :: "async_list_addr_reg \<Rightarrow> u27" where [bitfield_defs]:
  "AsyncListAddrReg_link_pointer_low = bits_get 5"

definition AsyncListAddrReg_with_link_pointer_low :: "u27 \<Rightarrow> async_list_addr_reg \<Rightarrow> async_list_addr_reg" where [bitfield_defs]:
  "AsyncListAddrReg_with_link_pointer_low = bits_set 5"

definition AsyncListAddrReg_new :: "u32 \<Rightarrow> async_list_addr_reg" where
  "AsyncListAddrReg_new addr_offset =
     AsyncListAddrReg_with_link_pointer_low (ucast (drop_bit 5 addr_offset)) 0"

type_synonym config_flag_reg = u32

definition ConfigFlagReg_configure_flag :: "config_flag_reg \<Rightarrow> bool" where [bitfield_defs]:
  "ConfigFlagReg_configure_flag = flag_get 0"

definition ConfigFlagReg_with_configure_flag :: "bool \<Rightarrow> config_flag_reg \<Rightarrow> config_flag_reg" where [bitfield_defs]:
  "ConfigFlagReg_with_configure_flag = flag_set 0"

definition ConfigFlagReg_reserved :: "config_flag_reg \<Rightarrow> u31" where [bitfield_defs]:
  "ConfigFlagReg_reserved = bits_get 1"

definition ConfigFlagReg_with_reserved :: "u31 \<Rightarrow> config_flag_reg \<Rightarrow> config_flag_reg" where [bitfield_defs]:
  "ConfigFlagReg_with_reserved = bits_set 1"

type_synonym port_sc_reg = u32

definition PortScReg_current_connect_status :: "port_sc_reg \<Rightarrow> bool" where [bitfield_defs]:
  "PortScReg_current_connect_status = flag_get 0"

definition PortScReg_connect_status_change :: "port_sc_reg \<Rightarrow> bool" where [bitfield_defs]:
  "PortScReg_connect_status_change = flag_get 1"

definition PortScReg_with_connect_status_change :: "bool \<Rightarrow> port_sc_reg \<Rightarrow> port_sc_reg" where [bitfield_defs]:
  "PortScReg_with_connect_status_change = flag_set 1"

definition PortScReg_port_enabled :: "port_sc_reg \<Rightarrow> bool" where [bitfield_defs]:
  "PortScReg_port_enabled = flag_get 2"

definition PortScReg_with_port_enabled :: "bool \<Rightarrow> port_sc_reg \<Rightarrow> port_sc_reg" where [bitfield_defs]:
  "PortScReg_with_port_enabled = flag_set 2"

definition PortScReg_port_enable_change :: "port_sc_reg \<Rightarrow> bool" where [bitfield_defs]:
  "PortScReg_port_enable_change = flag_get 3"

definition PortScReg_with_port_enable_change :: "bool \<Rightarrow> port_sc_reg \<Rightarrow> port_sc_reg" where [bitfield_defs]:
  "PortScReg_with_port_enable_change = flag_set 3"

definition PortScReg_over_current_active :: "port_sc_reg \<Rightarrow> bool" where [bitfield_defs]:
  "PortScReg_over_current_active = flag_get 4"

definition PortScReg_over_current_change :: "port_sc_reg \<Rightarrow> bool" where [bitfield_defs]:
  "PortScReg_over_current_change = flag_get 5"

definition PortScReg_with_over_current_change :: "bool \<Rightarrow> port_sc_reg \<Rightarrow> port_sc_reg" where [bitfield_defs]:
  "PortScReg_with_over_current_change = flag_set 5"

definition PortScReg_force_port_resume :: "port_sc_reg \<Rightarrow> bool" where [bitfield_defs]:
  "PortScReg_force_port_resume = flag_get 6"

definition PortScReg_with_force_port_resume :: "bool \<Rightarrow> port_sc_reg \<Rightarrow> port_sc_reg" where [bitfield_defs]:
  "PortScReg_with_force_port_resume = flag_set 6"

definition PortScReg_suspend :: "port_sc_reg \<Rightarrow> bool" where [bitfield_defs]:
  "PortScReg_suspend = flag_get 7"

definition PortScReg_with_suspend :: "bool \<Rightarrow> port_sc_reg \<Rightarrow> port_sc_reg" where [bitfield_defs]:
  "PortScReg_with_suspend = flag_set 7"

definition PortScReg_port_reset :: "port_sc_reg \<Rightarrow> bool" where [bitfield_defs]:
  "PortScReg_port_reset = flag_get 8"

definition PortScReg_with_port_reset :: "bool \<Rightarrow> port_sc_reg \<Rightarrow> port_sc_reg" where [bitfield_defs]:
  "PortScReg_with_port_reset = flag_set 8"

definition PortScReg_line_status :: "port_sc_reg \<Rightarrow> u2" where [bitfield_defs]:
  "PortScReg_line_status = bits_get 10"

definition PortScReg_port_power :: "port_sc_reg \<Rightarrow> bool" where [bitfield_defs]:
  "PortScReg_port_power = flag_get 12"

definition PortScReg_with_port_power :: "bool \<Rightarrow> port_sc_reg \<Rightarrow> port_sc_reg" where [bitfield_defs]:
  "PortScReg_with_port_power = flag_set 12"

definition PortScReg_port_owner :: "port_sc_reg \<Rightarrow> bool" where [bitfield_defs]:
  "PortScReg_port_owner = flag_get 13"

definition PortScReg_with_port_owner :: "bool \<Rightarrow> port_sc_reg \<Rightarrow> port_sc_reg" where [bitfield_defs]:
  "PortScReg_with_port_owner = flag_set 13"

definition PortScReg_port_indicator_control :: "port_sc_reg \<Rightarrow> u2" where [bitfield_defs]:
  "PortScReg_port_indicator_control = bits_get 14"

definition PortScReg_with_port_indicator_control :: "u2 \<Rightarrow> port_sc_reg \<Rightarrow> port_sc_reg" where [bitfield_defs]:
  "PortScReg_with_port_indicator_control = bits_set 14"

definition PortScReg_port_test_control :: "port_sc_reg \<Rightarrow> u4" where [bitfield_defs]:
  "PortScReg_port_test_control = bits_get 16"

definition PortScReg_with_port_test_control :: "u4 \<Rightarrow> port_sc_reg \<Rightarrow> port_sc_reg" where [bitfield_defs]:
  "PortScReg_with_port_test_control = bits_set 16"

definition PortScReg_wake_on_connect_enable :: "port_sc_reg \<Rightarrow> bool" where [bitfield_defs]:
  "PortScReg_wake_on_connect_enable = flag_get 20"

definition PortScReg_with_wake_on_connect_enable :: "bool \<Rightarrow> port_sc_reg \<Rightarrow> port_sc_reg" where [bitfield_defs]:
  "PortScReg_with_wake_on_connect_enable = flag_set 20"

definition PortScReg_wake_on_disconnect_enable :: "port_sc_reg \<Rightarrow> bool" where [bitfield_defs]:
  "PortScReg_wake_on_disconnect_enable = flag_get 21"

definition PortScReg_with_wake_on_disconnect_enable :: "bool \<Rightarrow> port_sc_reg \<Rightarrow> port_sc_reg" where [bitfield_defs]:
  "PortScReg_with_wake_on_disconnect_enable = flag_set 21"

definition PortScReg_wake_on_over_current_enable :: "port_sc_reg \<Rightarrow> bool" where [bitfield_defs]:
  "PortScReg_wake_on_over_current_enable = flag_get 22"

definition PortScReg_with_wake_on_over_current_enable :: "bool \<Rightarrow> port_sc_reg \<Rightarrow> port_sc_reg" where [bitfield_defs]:
  "PortScReg_with_wake_on_over_current_enable = flag_set 22"

definition without_write_to_clear_bits :: "port_sc_reg \<Rightarrow> port_sc_reg" where
  "without_write_to_clear_bits r =
     PortScReg_with_over_current_change False
       (PortScReg_with_port_enable_change False
         (PortScReg_with_connect_status_change False r))"

datatype LineStatus = Se0 | KState | JState | Undefined

text \<open>\<^verbatim>\<open>try_into().unwrap()\<close> of a two-bit value cannot fail: the enumeration has four values.\<close>

definition LineStatus_from_u2 :: "u2 \<Rightarrow> LineStatus" where
  "LineStatus_from_u2 v = (if v = 0 then Se0 else if v = 1 then KState else if v = 2 then JState else Undefined)"

record operational_regs =
  usb_cmd :: usb_cmd_reg
  usb_sts :: usb_sts_reg
  usb_intr :: usb_intr_reg
  fr_index :: usb_fr_index_reg
  ctrl_ds_segment_reg :: u32
  periodic_list_base :: u32
  async_list_addr :: async_list_addr_reg
  config_flag :: config_flag_reg
  port_sc :: "port_sc_reg list"

subsection \<open>Capability registers\<close>

type_synonym hci_version = u16

definition HciVersion_minor_revision :: "hci_version \<Rightarrow> u8" where [bitfield_defs]:
  "HciVersion_minor_revision = bits_get 0"

definition HciVersion_major_revision :: "hci_version \<Rightarrow> u8" where [bitfield_defs]:
  "HciVersion_major_revision = bits_get 8"

type_synonym hcs_params = u32

definition HcsParams_n_ports :: "hcs_params \<Rightarrow> u4" where [bitfield_defs]:
  "HcsParams_n_ports = bits_get 0"

definition HcsParams_port_power_control :: "hcs_params \<Rightarrow> bool" where [bitfield_defs]:
  "HcsParams_port_power_control = flag_get 4"

definition HcsParams_port_routing_rules :: "hcs_params \<Rightarrow> bool" where [bitfield_defs]:
  "HcsParams_port_routing_rules = flag_get 7"

definition HcsParams_n_pcc :: "hcs_params \<Rightarrow> u4" where [bitfield_defs]:
  "HcsParams_n_pcc = bits_get 8"

definition HcsParams_n_cc :: "hcs_params \<Rightarrow> u4" where [bitfield_defs]:
  "HcsParams_n_cc = bits_get 12"

definition HcsParams_port_indicators :: "hcs_params \<Rightarrow> bool" where [bitfield_defs]:
  "HcsParams_port_indicators = flag_get 16"

definition HcsParams_debug_port_number :: "hcs_params \<Rightarrow> u4" where [bitfield_defs]:
  "HcsParams_debug_port_number = bits_get 20"

type_synonym hcc_params = u32

definition HccParams_is_64_bit_addressing_cap :: "hcc_params \<Rightarrow> bool" where [bitfield_defs]:
  "HccParams_is_64_bit_addressing_cap = flag_get 0"

definition HccParams_programmable_frame_list_flag :: "hcc_params \<Rightarrow> bool" where [bitfield_defs]:
  "HccParams_programmable_frame_list_flag = flag_get 1"

definition HccParams_async_sched_park_cap :: "hcc_params \<Rightarrow> bool" where [bitfield_defs]:
  "HccParams_async_sched_park_cap = flag_get 2"

definition HccParams_isochronous_sched_threshold :: "hcc_params \<Rightarrow> u4" where [bitfield_defs]:
  "HccParams_isochronous_sched_threshold = bits_get 4"

definition HccParams_eecp :: "hcc_params \<Rightarrow> u8" where [bitfield_defs]:
  "HccParams_eecp = bits_get 8"

record capability_regs =
  cap_len :: u8
  hci_version :: hci_version
  hcs_params :: hcs_params
  hcc_params :: hcc_params
  hcsp_port_route :: "u32 list"

subsection \<open>Write-to-clear bits\<close>

text \<open>
  How the hardware takes a write of \<open>v\<close> to a port register whose value is \<open>r\<close>: the three change
  bits (R/WC) are cleared by a 1 and kept by a 0; the read-only bits keep their value; every other
  bit takes the written value.
\<close>

definition port_sc_rwc_mask :: port_sc_reg where
  "port_sc_rwc_mask = push_bit 1 1 OR push_bit 3 1 OR push_bit 5 1"

definition port_sc_ro_mask :: port_sc_reg where
  "port_sc_ro_mask = 1 OR push_bit 4 1 OR push_bit 10 1 OR push_bit 11 1"

definition port_sc_hw_write :: "port_sc_reg \<Rightarrow> port_sc_reg \<Rightarrow> port_sc_reg" where
  "port_sc_hw_write v r =
     (r AND port_sc_rwc_mask AND NOT v) OR (r AND port_sc_ro_mask)
     OR (v AND NOT (port_sc_rwc_mask OR port_sc_ro_mask))"

lemma bit_rwc_mask: "bit port_sc_rwc_mask i \<longleftrightarrow> i = 1 \<or> i = 3 \<or> i = 5"
  unfolding port_sc_rwc_mask_def
  by (simp only: bit_or_iff bit_push_bit_iff bit_1_iff) (auto simp: possible_bit_def)

lemma bit_ro_mask: "bit port_sc_ro_mask i \<longleftrightarrow> i = 0 \<or> i = 4 \<or> i = 10 \<or> i = 11"
  unfolding port_sc_ro_mask_def
  by (simp only: bit_or_iff bit_push_bit_iff bit_1_iff) (auto simp: possible_bit_def)

lemma bit_without_wc:
  "bit (without_write_to_clear_bits r) i \<longleftrightarrow> bit r i \<and> i \<noteq> 1 \<and> i \<noteq> 3 \<and> i \<noteq> 5"
  by (auto simp: without_write_to_clear_bits_def bitfield_defs bit_flag_set dest: bit_imp_le_length)

subsection \<open>Properties\<close>

text \<open>The read-modify-write with which the driver starts or ends a port reset has no side effect:
  after the hardware has taken the written value, the reset bit is the one asked for and every
  other bit of the port register is as before; in particular no pending change bit is lost.\<close>

theorem port_reset_write_is_precise:
  "port_sc_hw_write (without_write_to_clear_bits (PortScReg_with_port_reset b r)) r
     = PortScReg_with_port_reset b r"
proof (rule bit_word_eqI)
  fix i assume "i < LENGTH(32)"
  then show "bit (port_sc_hw_write (without_write_to_clear_bits (PortScReg_with_port_reset b r)) r) i
      = bit (PortScReg_with_port_reset b r) i"
    by (auto simp: port_sc_hw_write_def bit_simps bit_rwc_mask bit_ro_mask bit_without_wc
        bitfield_defs bit_flag_set simp del: push_bit_of_1)
qed

end
