(* ===== verification/Signals.thy ===== *)
theory Signals
  imports Ehci_Prelude
begin

text \<open>
  The two channels between tasks: \<open>Signal\<close> (\<^verbatim>\<open>signal.rs\<close>), a one-place mailbox under a spin lock,
  and \<open>oneshot\<close> (\<^verbatim>\<open>oneshot.rs\<close>), a single value handed over through an atomic flag.

  A waker is a value of type \<open>'w\<close>; an operation returns the wakers it calls.  \<^verbatim>\<open>Waker::will_wake\<close>
  is the argument \<open>will_wake\<close>.  \<^verbatim>\<open>futures::task::AtomicWaker\<close> is the argument \<open>aw\<close>, a record of its
  two operations, and \<open>atomic_waker_ok\<close> states what its documentation promises: \<open>wake\<close> calls
  the waker registered last.  The operations of \<open>Signal\<close> hold the lock and are atomic.  For
  \<open>oneshot\<close>, which has no lock, each access to the shared cell is one step of
  \<open>oneshot_step\<close>, so that every interleaving of the two halves is covered.
\<close>

subsection \<open>Signal\<close>

datatype ('t, 'w) signal_state = SigNone | SigWaiting 'w | SigSignaled 't

definition Signal_default :: "('t, 'w) signal_state" where
  "Signal_default = SigNone"

fun Signal_signal :: "'t \<Rightarrow> ('t, 'w) signal_state \<Rightarrow> ('t, 'w) signal_state \<times> 'w list" where
  "Signal_signal value (SigWaiting w) = (SigSignaled value, [w])"
| "Signal_signal value st = (SigSignaled value, [])"

fun Signal_poll_wait ::
    "('w \<Rightarrow> 'w \<Rightarrow> bool) \<Rightarrow> 'w \<Rightarrow> ('t, 'w) signal_state
      \<Rightarrow> 't option \<times> ('t, 'w) signal_state \<times> 'w list" where
  "Signal_poll_wait will_wake cx SigNone = (None, SigWaiting cx, [])"
| "Signal_poll_wait will_wake cx (SigWaiting w) =
     (if will_wake w cx then (None, SigWaiting w, []) else (None, SigWaiting cx, [w]))"
| "Signal_poll_wait will_wake cx (SigSignaled value) = (Some value, SigNone, [])"

definition signal_content :: "('t, 'w) signal_state \<Rightarrow> 't option" where
  "signal_content st = (case st of SigSignaled v \<Rightarrow> Some v | _ \<Rightarrow> None)"

lemma signal_content_simps [simp]:
  "signal_content SigNone = None"
  "signal_content (SigWaiting w) = None"
  "signal_content (SigSignaled v) = Some v"
  by (simp_all add: signal_content_def)

text \<open>A mailbox that holds one value: a put replaces the content, a take removes it.\<close>

datatype ('t, 'c) mailbox_op = Put 't | Take 'c

primrec mailbox_run ::
    "('t \<Rightarrow> 's \<Rightarrow> 's) \<Rightarrow> ('c \<Rightarrow> 's \<Rightarrow> 't option \<times> 's) \<Rightarrow> ('t, 'c) mailbox_op list \<Rightarrow> 's
      \<Rightarrow> 't option list \<times> 's" where
  "mailbox_run put take_out [] s = ([], s)"
| "mailbox_run put take_out (x # xs) s =
     (case x of
        Put v \<Rightarrow> mailbox_run put take_out xs (put v s)
      | Take c \<Rightarrow>
          (case take_out c s of (r, s') \<Rightarrow>
             (case mailbox_run put take_out xs s' of (rs, t) \<Rightarrow> (r # rs, t))))"

text \<open>What a sequence of operations delivers, by the content alone.\<close>

primrec mailbox_spec :: "('t, 'c) mailbox_op list \<Rightarrow> 't option \<Rightarrow> 't option list" where
  "mailbox_spec [] m = []"
| "mailbox_spec (x # xs) m =
     (case x of Put v \<Rightarrow> mailbox_spec xs (Some v) | Take c \<Rightarrow> m # mailbox_spec xs None)"

locale mailbox =
  fixes put :: "'t \<Rightarrow> 's \<Rightarrow> 's"
    and take_out :: "'c \<Rightarrow> 's \<Rightarrow> 't option \<times> 's"
    and content :: "'s \<Rightarrow> 't option"
  assumes content_put: "content (put v s) = Some v"
    and fst_take: "fst (take_out c s) = content s"
    and content_take: "content (snd (take_out c s)) = None"
begin

lemma run_refines: "fst (mailbox_run put take_out xs s) = mailbox_spec xs (content s)"
proof (induction xs arbitrary: s)
  case (Cons x xs)
  show ?case
  proof (cases x)
    case (Take c)
    with Cons.IH [of "snd (take_out c s)"] fst_take [of c s] show ?thesis
      by (auto simp: content_take split: prod.split)
  qed (use Cons.IH in \<open>simp add: content_put\<close>)
qed simp

lemma second_put_wins: "fst (take_out c (put b (put a s))) = Some b"
  by (simp add: fst_take content_put)

lemma take_after_take: "fst (take_out c (snd (take_out d s))) = None"
  by (simp add: fst_take content_take)

end

definition signal_put :: "'t \<Rightarrow> ('t, 'w) signal_state \<Rightarrow> ('t, 'w) signal_state" where
  "signal_put v st = fst (Signal_signal v st)"

definition signal_take ::
    "('w \<Rightarrow> 'w \<Rightarrow> bool) \<Rightarrow> 'w \<Rightarrow> ('t, 'w) signal_state \<Rightarrow> 't option \<times> ('t, 'w) signal_state" where
  "signal_take will_wake cx st =
     (case Signal_poll_wait will_wake cx st of (r, st', _) \<Rightarrow> (r, st'))"

lemma signal_put_eq [simp]: "signal_put v st = SigSignaled v"
  by (cases st) (simp_all add: signal_put_def)

interpretation sig: mailbox signal_put "signal_take will_wake" signal_content
  for will_wake :: "'w \<Rightarrow> 'w \<Rightarrow> bool"
proof
  fix c and s :: "('t, 'w) signal_state" and v :: 't
  show "signal_content (signal_put v s) = Some v" by simp
  show "fst (signal_take will_wake c s) = signal_content s"
    by (cases s) (simp_all add: signal_take_def)
  show "signal_content (snd (signal_take will_wake c s)) = None"
    by (cases s) (simp_all add: signal_take_def)
qed

text \<open>A \<open>Signal\<close> behaves as a one-place mailbox: in every sequence of \<open>signal\<close> and \<open>poll_wait\<close>
  calls, a poll returns exactly the value of the last \<open>signal\<close> since the last successful poll, and
  is pending if there was none.  In particular a second \<open>signal\<close> before the poll replaces the
  first, whose value is never delivered.\<close>

theorem signal_is_mailbox:
  fixes xs :: "('t, 'w) mailbox_op list"
  shows "fst (mailbox_run signal_put (signal_take will_wake) xs Signal_default) = mailbox_spec xs None"
  using sig.run_refines [of will_wake xs "Signal_default :: ('t, 'w) signal_state"]
  by (simp add: Signal_default_def)

text \<open>No wake-up of a \<open>Signal\<close> is lost: after a poll by the task \<open>cx\<close> that returned pending, the next
  \<open>signal\<close> calls a waker that wakes \<open>cx\<close> (its own, or one that \<open>will_wake\<close> it), and a waker that a
  poll displaces is called by that poll.\<close>

theorem signal_no_lost_wakeup:
  assumes "Signal_poll_wait will_wake cx st = (None, st', woken)"
  shows "(\<exists>w. (w = cx \<or> will_wake w cx) \<and> Signal_signal v st' = (SigSignaled v, [w]))
    \<and> (\<forall>w. st = SigWaiting w \<longrightarrow> st' = SigWaiting w \<or> w \<in> set woken)"
  using assms by (cases st) (auto split: if_splits)

theorem signal_no_lost_wakeup_witness:
  "Signal_poll_wait (=) (2::nat) (SigWaiting 1) = (None, SigWaiting 2, [1])
   \<and> Signal_signal (7::nat) (SigWaiting (2::nat)) = (SigSignaled 7, [2])"
  using signal_no_lost_wakeup [of "(=)" "2::nat" "SigWaiting 1" "SigWaiting 2" "[1]" "7::nat"] by simp

subsection \<open>Oneshot\<close>

record ('w, 'a) atomic_waker =
  aw_new :: 'a
  aw_register :: "'w \<Rightarrow> 'a \<Rightarrow> 'a"
  aw_wake :: "'a \<Rightarrow> 'w option \<times> 'a"

definition atomic_waker_ok :: "('w, 'a) atomic_waker \<Rightarrow> bool" where
  "atomic_waker_ok aw \<longleftrightarrow>
     fst (aw_wake aw (aw_new aw)) = None \<and>
     (\<forall>w a. fst (aw_wake aw (aw_register aw w a)) = Some w)"

record ('t, 'a) oneshot_shared =
  os_stored :: bool
  os_cell :: "'t option"
  os_waker :: 'a
  os_sender_alive :: bool

datatype RecvError = RecvError

definition oneshot :: "('w, 'a) atomic_waker \<Rightarrow> ('t, 'a) oneshot_shared" where
  "oneshot aw = \<lparr>os_stored = False, os_cell = None, os_waker = aw_new aw, os_sender_alive = True\<rparr>"

text \<open>
  \<^verbatim>\<open>OneshotSender::send\<close> takes the sender by value, so its reference to the shared state is
  released when it returns.
\<close>

definition OneshotSender_send ::
    "('w, 'a) atomic_waker \<Rightarrow> 't \<Rightarrow> ('t, 'a) oneshot_shared
      \<Rightarrow> ('t, 'a) oneshot_shared \<times> 'w option" where
  "OneshotSender_send aw value sh =
     (let sh1 = sh\<lparr>os_cell := Some value\<rparr>;
          sh2 = sh1\<lparr>os_stored := True\<rparr>
      in case aw_wake aw (os_waker sh2) of (woken, wk) \<Rightarrow>
           (sh2\<lparr>os_waker := wk, os_sender_alive := False\<rparr>, woken))"

text \<open>\<^verbatim>\<open>Arc::strong_count == 1\<close> holds when only the receiver is left.\<close>

definition OneshotReceiver_poll ::
    "('w, 'a) atomic_waker \<Rightarrow> 'w \<Rightarrow> ('t, 'a) oneshot_shared
      \<Rightarrow> (RecvError + 't) option \<times> ('t, 'a) oneshot_shared" where
  "OneshotReceiver_poll aw cx sh =
     (let sh1 = sh\<lparr>os_waker := aw_register aw cx (os_waker sh)\<rparr>
      in if os_stored sh1 then (map_option Inr (os_cell sh1), sh1)
         else if \<not> os_sender_alive sh1 then (Some (Inl RecvError), sh1)
         else (None, sh1))"

text \<open>When the two halves do not overlap, \<open>oneshot\<close> delivers: a poll before the send is pending and
  its waker is called by the send, a poll after the send returns the value, and a poll after the
  sender was dropped without sending returns the error.\<close>

theorem oneshot_delivers:
  assumes "atomic_waker_ok aw"
  shows "case OneshotReceiver_poll aw cx (oneshot aw) of (r, sh) \<Rightarrow> r = None
      \<and> (case OneshotSender_send aw v sh of (sh', woken) \<Rightarrow> woken = Some cx
           \<and> fst (OneshotReceiver_poll aw cx' sh') = Some (Inr v))
      \<and> fst (OneshotReceiver_poll aw cx' (sh\<lparr>os_sender_alive := False\<rparr>)) = Some (Inl RecvError)"
  using assms
  by (auto simp: OneshotReceiver_poll_def OneshotSender_send_def oneshot_def atomic_waker_ok_def Let_def
      split: prod.split) (metis fst_conv option.inject)

definition option_waker :: "(nat, nat option) atomic_waker" where
  "option_waker = \<lparr>aw_new = None, aw_register = (\<lambda>w _. Some w), aw_wake = (\<lambda>a. (a, None))\<rparr>"

theorem oneshot_delivers_witness:
  "atomic_waker_ok option_waker
   \<and> fst (OneshotReceiver_poll option_waker 4 (oneshot option_waker :: (bool, nat option) oneshot_shared)) = None"
proof -
  have ok: "atomic_waker_ok option_waker"
    by (simp add: atomic_waker_ok_def option_waker_def)
  from oneshot_delivers [OF ok, where cx = 4 and v = True and cx' = 5] ok show ?thesis
    by (auto split: prod.splits)
qed

subsection \<open>Oneshot under every interleaving\<close>

text \<open>
  One send (or drop) of the value \<open>v\<close> against the polls of one receiver task \<open>cx\<close>.  Each rule is
  one access to the shared state; \<open>os_woken\<close> records whether the task was woken since it last
  registered its waker.
\<close>

datatype sender_pc = SBegin | SWritten | SStored | SWoke | SGone

datatype 't receiver_pc = RIdle | RRegistered | RNotStored | RPending | RReady "RecvError + 't"

record ('t, 'a) oneshot_sys =
  sys_shared :: "('t, 'a) oneshot_shared"
  sender_at :: sender_pc
  receiver_at :: "'t receiver_pc"
  os_woken :: bool

definition oneshot_init :: "('w, 'a) atomic_waker \<Rightarrow> ('t, 'a) oneshot_sys" where
  "oneshot_init aw =
     \<lparr>sys_shared = oneshot aw, sender_at = SBegin, receiver_at = RIdle, os_woken = False\<rparr>"

inductive oneshot_step ::
    "('w, 'a) atomic_waker \<Rightarrow> 't \<Rightarrow> 'w \<Rightarrow> ('t, 'a) oneshot_sys \<Rightarrow> ('t, 'a) oneshot_sys \<Rightarrow> bool"
  for aw v cx where
  s_write: "sender_at s = SBegin \<Longrightarrow>
     oneshot_step aw v cx s (s\<lparr>sys_shared := (sys_shared s)\<lparr>os_cell := Some v\<rparr>, sender_at := SWritten\<rparr>)"
| s_store: "sender_at s = SWritten \<Longrightarrow>
     oneshot_step aw v cx s (s\<lparr>sys_shared := (sys_shared s)\<lparr>os_stored := True\<rparr>, sender_at := SStored\<rparr>)"
| s_wake: "sender_at s = SStored \<Longrightarrow> aw_wake aw (os_waker (sys_shared s)) = (woken, wk) \<Longrightarrow>
     oneshot_step aw v cx s (s\<lparr>sys_shared := (sys_shared s)\<lparr>os_waker := wk\<rparr>, sender_at := SWoke,
       os_woken := os_woken s \<or> woken = Some cx\<rparr>)"
| s_drop: "sender_at s = SWoke \<or> sender_at s = SBegin \<Longrightarrow>
     oneshot_step aw v cx s (s\<lparr>sys_shared := (sys_shared s)\<lparr>os_sender_alive := False\<rparr>, sender_at := SGone\<rparr>)"
| r_register: "receiver_at s = RIdle \<or> receiver_at s = RPending \<Longrightarrow>
     oneshot_step aw v cx s (s\<lparr>sys_shared := (sys_shared s)\<lparr>os_waker := aw_register aw cx (os_waker (sys_shared s))\<rparr>,
       receiver_at := RRegistered, os_woken := False\<rparr>)"
| r_load_true: "receiver_at s = RRegistered \<Longrightarrow> os_stored (sys_shared s) \<Longrightarrow> os_cell (sys_shared s) = Some x \<Longrightarrow>
     oneshot_step aw v cx s (s\<lparr>receiver_at := RReady (Inr x)\<rparr>)"
| r_load_false: "receiver_at s = RRegistered \<Longrightarrow> \<not> os_stored (sys_shared s) \<Longrightarrow>
     oneshot_step aw v cx s (s\<lparr>receiver_at := RNotStored\<rparr>)"
| r_alone: "receiver_at s = RNotStored \<Longrightarrow> \<not> os_sender_alive (sys_shared s) \<Longrightarrow>
     oneshot_step aw v cx s (s\<lparr>receiver_at := RReady (Inl RecvError)\<rparr>)"
| r_pending: "receiver_at s = RNotStored \<Longrightarrow> os_sender_alive (sys_shared s) \<Longrightarrow>
     oneshot_step aw v cx s (s\<lparr>receiver_at := RPending\<rparr>)"

inductive oneshot_reachable ::
    "('w, 'a) atomic_waker \<Rightarrow> 't \<Rightarrow> 'w \<Rightarrow> ('t, 'a) oneshot_sys \<Rightarrow> bool"
  for aw v cx where
  init: "oneshot_reachable aw v cx (oneshot_init aw)"
| step: "oneshot_reachable aw v cx s \<Longrightarrow> oneshot_step aw v cx s t \<Longrightarrow> oneshot_reachable aw v cx t"

definition oneshot_inv :: "('w, 'a) atomic_waker \<Rightarrow> 't \<Rightarrow> 'w \<Rightarrow> ('t, 'a) oneshot_sys \<Rightarrow> bool" where
  "oneshot_inv aw v cx s \<longleftrightarrow>
     (os_stored (sys_shared s) \<longrightarrow> os_cell (sys_shared s) = Some v \<and> sender_at s \<in> {SStored, SWoke, SGone})
   \<and> (sender_at s = SWritten \<longrightarrow> os_cell (sys_shared s) = Some v)
   \<and> (receiver_at s \<in> {RRegistered, RNotStored, RPending} \<and> \<not> os_woken s \<longrightarrow>
        fst (aw_wake aw (os_waker (sys_shared s))) = Some cx \<or> sender_at s \<in> {SWoke, SGone})
   \<and> (receiver_at s \<in> {RNotStored, RPending} \<and> os_stored (sys_shared s) \<and> sender_at s \<noteq> SStored \<longrightarrow> os_woken s)
   \<and> (\<forall>x. receiver_at s = RReady (Inr x) \<longrightarrow> x = v)"

lemma oneshot_step_inv:
  assumes "oneshot_step aw v cx s t" and "atomic_waker_ok aw" and "oneshot_inv aw v cx s"
  shows "oneshot_inv aw v cx t"
  using assms
  by (induction rule: oneshot_step.induct) (auto simp: oneshot_inv_def atomic_waker_ok_def)

lemma oneshot_reachable_inv:
  assumes "oneshot_reachable aw v cx s" and "atomic_waker_ok aw"
  shows "oneshot_inv aw v cx s"
  using assms
proof (induction rule: oneshot_reachable.induct)
  case init
  then show ?case by (simp add: oneshot_inv_def oneshot_init_def oneshot_def)
next
  case (step s t)
  then show ?case by (blast intro: oneshot_step_inv)
qed

text \<open>C31: In every interleaving of the sender and the receiver of a \<open>oneshot\<close>, a value the receiver
  obtains is the value that was sent, and no wake-up is lost: a receiver whose last poll was
  pending has been woken once the sender has stored the value and called the waker.\<close>

theorem oneshot_interleaving_safe:
  assumes "atomic_waker_ok aw" and "oneshot_reachable aw v cx s"
  shows "(\<forall>x. receiver_at s = RReady (Inr x) \<longrightarrow> x = v)
    \<and> (receiver_at s = RPending \<and> os_stored (sys_shared s) \<and> sender_at s \<noteq> SStored \<longrightarrow> os_woken s)"
  using oneshot_reachable_inv [OF assms(2,1)] by (simp add: oneshot_inv_def)

lemma oneshot_reach_not_stored:
  "\<exists>s. oneshot_reachable aw v cx s \<and> receiver_at s = RNotStored \<and> sender_at s = SBegin
     \<and> os_sender_alive (sys_shared s)"
proof -
  let ?s = "oneshot_init aw"
  have s: "oneshot_reachable aw v cx ?s" by (rule oneshot_reachable.init)
  have "receiver_at ?s = RIdle \<or> receiver_at ?s = RPending" by (simp add: oneshot_init_def)
  from oneshot_reachable.step [OF s oneshot_step.r_register [OF this]]
  obtain s1 where s1: "oneshot_reachable aw v cx s1" "receiver_at s1 = RRegistered" "sender_at s1 = SBegin"
      "\<not> os_stored (sys_shared s1)" "os_sender_alive (sys_shared s1)"
    by (auto simp: oneshot_init_def oneshot_def)
  from oneshot_reachable.step [OF s1(1) oneshot_step.r_load_false [OF s1(2,4)]] s1 show ?thesis
    by auto
qed

lemma oneshot_reach_send:
  assumes "oneshot_reachable aw v cx s" and "sender_at s = SBegin"
  shows "\<exists>t. oneshot_reachable aw v cx t \<and> receiver_at t = receiver_at s \<and> sender_at t = SWoke
     \<and> os_stored (sys_shared t) \<and> os_cell (sys_shared t) = Some v"
proof -
  obtain woken wk where w: "aw_wake aw (os_waker (sys_shared s)) = (woken, wk)"
    by fastforce
  note wrote = oneshot_reachable.step [OF assms(1) oneshot_step.s_write [OF assms(2)]]
  note store = oneshot_reachable.step [OF wrote oneshot_step.s_store]
  from oneshot_reachable.step [OF store oneshot_step.s_wake, of woken wk] w show ?thesis
    by auto
qed

theorem oneshot_interleaving_safe_witness:
  "\<exists>s. oneshot_reachable option_waker True 4 s \<and> receiver_at s = RPending
     \<and> os_stored (sys_shared s) \<and> sender_at s = SWoke \<and> os_woken s"
proof -
  have ok: "atomic_waker_ok option_waker"
    by (simp add: atomic_waker_ok_def option_waker_def)
  obtain s where s: "oneshot_reachable option_waker True 4 s" "receiver_at s = RNotStored"
      "sender_at s = SBegin" "os_sender_alive (sys_shared s)"
    using oneshot_reach_not_stored by metis
  from oneshot_reach_send [OF oneshot_reachable.step [OF s(1) oneshot_step.r_pending [OF s(2,4)]]] s
  obtain t where t: "oneshot_reachable option_waker True 4 t" "receiver_at t = RPending"
      "os_stored (sys_shared t)" "sender_at t = SWoke"
    by auto
  with oneshot_interleaving_safe [OF ok t(1)] show ?thesis by auto
qed

text \<open>The receiver can be told that the sender is gone although the value was sent: if the send
  completes between the receiver's load of the flag and its look at the reference count, the
  poll returns the error while the value sits in the cell.\<close>

theorem oneshot_spurious_error:
  "\<exists>s. oneshot_reachable aw v cx s \<and> receiver_at s = RReady (Inl RecvError)
     \<and> os_stored (sys_shared s) \<and> os_cell (sys_shared s) = Some v"
proof -
  obtain s where s: "oneshot_reachable aw v cx s" "receiver_at s = RNotStored" "sender_at s = SBegin"
    using oneshot_reach_not_stored by metis
  obtain t where t: "oneshot_reachable aw v cx t" "receiver_at t = RNotStored" "sender_at t = SWoke"
      "os_stored (sys_shared t)" "os_cell (sys_shared t) = Some v"
    using oneshot_reach_send [OF s(1,3)] s(2) by auto
  note dropped = oneshot_reachable.step [OF t(1) oneshot_step.s_drop]
  from oneshot_reachable.step [OF dropped oneshot_step.r_alone] t show ?thesis
    by auto
qed

end
