(* ===== verification/Async_List.thy ===== *)
theory Async_List
  imports Registers Signals "HOL-Library.Sublist" "HOL-Library.Multiset"
begin

text \<open>
  The asynchronous schedule (\<^verbatim>\<open>async_list_manager.rs\<close>): a circular, doubly linked list of queue
  heads that the controller walks by physical links while the driver edits it through virtual
  pointers, and the doorbell protocol that tells when an unlinked queue head may be reused.

  The memory of the queue heads is a store from virtual addresses to \<open>qh_with_meta_a\<close>; every
  field write of the source is one update of the store, in the order of the source.  \<open>ring\<close> is the
  invariant of the list, \<open>hw_visits\<close> what the controller meets when it follows the links.
  Callback channels are numbered; \<open>os\<close> maps a number to the shared state of its \<open>oneshot\<close>.
\<close>

subsection \<open>Queue heads in memory\<close>

record qh_with_meta_a =
  qha_qh :: qh
  qha_prev :: vptr
  qha_next :: vptr

type_synonym async_heap = "vptr \<Rightarrow> qh_with_meta_a"

abbreviation hlink :: "async_heap \<Rightarrow> vptr \<Rightarrow> qh_horizontal_link_ptr" where
  "hlink h p \<equiv> horizontal_link_ptr (qha_qh (h p))"

definition set_hlink :: "vptr \<Rightarrow> qh_horizontal_link_ptr \<Rightarrow> async_heap \<Rightarrow> async_heap" where
  "set_hlink p l h = h(p := (h p)\<lparr>qha_qh := (qha_qh (h p))\<lparr>horizontal_link_ptr := l\<rparr>\<rparr>)"

definition set_prev :: "vptr \<Rightarrow> vptr \<Rightarrow> async_heap \<Rightarrow> async_heap" where
  "set_prev p q h = h(p := (h p)\<lparr>qha_prev := q\<rparr>)"

definition set_next :: "vptr \<Rightarrow> vptr \<Rightarrow> async_heap \<Rightarrow> async_heap" where
  "set_next p q h = h(p := (h p)\<lparr>qha_next := q\<rparr>)"

subsection \<open>The manager\<close>

type_synonym sender = nat

record async_list_manager =
  anchor_qh :: mapped_mem
  alm_ctrl_ds_segment :: ctrl_ds_segment
  qhs_removed_before_doorbell :: "sender list"
  qhs_queued_to_remove :: "sender list"

definition AsyncListManager_new :: "mapped_mem \<Rightarrow> ctrl_ds_segment \<Rightarrow> async_list_manager" where
  "AsyncListManager_new anchor seg =
     \<lparr>anchor_qh = anchor, alm_ctrl_ds_segment = seg,
      qhs_removed_before_doorbell = [], qhs_queued_to_remove = []\<rparr>"

definition add_qh_to_async_list ::
    "async_list_manager \<Rightarrow> mapped_mem \<Rightarrow> async_heap \<Rightarrow> async_heap outcome" where
  "add_qh_to_async_list m q h =
     (let qh_ptr = mm_ptr q;
          anchor_qh_ptr = mm_ptr (anchor_qh m);
          next_qh_ptr = qha_next (h anchor_qh_ptr);
          h1 = set_hlink qh_ptr (hlink h anchor_qh_ptr) h;
          h2 = set_prev qh_ptr anchor_qh_ptr h1;
          h3 = set_next qh_ptr next_qh_ptr h2
      in obind (get_addr_offset (phys_addr q) (alm_ctrl_ds_segment m)) (\<lambda>off.
         let h4 = set_hlink anchor_qh_ptr (QhHorizontalLinkPtr_new Qh off) h3;
             h5 = set_prev next_qh_ptr qh_ptr h4;
             h6 = set_next anchor_qh_ptr qh_ptr h5
         in Inr h6))"

definition queue_remove_qh ::
    "mapped_mem \<Rightarrow> sender \<Rightarrow> async_list_manager \<times> usb_cmd_reg \<times> async_heap
      \<Rightarrow> async_list_manager \<times> usb_cmd_reg \<times> async_heap" where
  "queue_remove_qh q sender = (\<lambda>(m, cmd, h).
     (let qh_ptr = mm_ptr q;
          next_horizontal_link_ptr = hlink h qh_ptr;
          prev_qh_ptr = qha_prev (h qh_ptr);
          h1 = set_hlink prev_qh_ptr next_horizontal_link_ptr h;
          next_qh_ptr = qha_next (h1 qh_ptr);
          h2 = set_prev next_qh_ptr prev_qh_ptr h1;
          h3 = set_next prev_qh_ptr next_qh_ptr h2
      in if qhs_removed_before_doorbell m = []
         then (m\<lparr>qhs_removed_before_doorbell := [sender]\<rparr>,
               UsbCmdReg_with_interrupt_on_async_advance_doorbell True cmd, h3)
         else (m\<lparr>qhs_queued_to_remove := qhs_queued_to_remove m @ [sender]\<rparr>, cmd, h3)))"

text \<open>The loop \<^verbatim>\<open>for sender in removed_qhs { sender.send(()) }\<close>.\<close>

primrec send_all ::
    "('w, 'a) atomic_waker \<Rightarrow> sender list \<Rightarrow> (sender \<Rightarrow> (unit, 'a) oneshot_shared)
      \<Rightarrow> (sender \<Rightarrow> (unit, 'a) oneshot_shared) \<times> 'w list" where
  "send_all aw [] os = (os, [])"
| "send_all aw (s # ss) os =
     (case OneshotSender_send aw () (os s) of (sh, woken) \<Rightarrow>
       (case send_all aw ss (os(s := sh)) of (os', ws) \<Rightarrow>
         (os', (case woken of None \<Rightarrow> ws | Some w \<Rightarrow> w # ws))))"

definition handle_async_advance ::
    "('w, 'a) atomic_waker
      \<Rightarrow> async_list_manager \<times> usb_cmd_reg \<times> (sender \<Rightarrow> (unit, 'a) oneshot_shared)
      \<Rightarrow> async_list_manager \<times> usb_cmd_reg \<times> (sender \<Rightarrow> (unit, 'a) oneshot_shared) \<times> 'w list" where
  "handle_async_advance aw = (\<lambda>(m, cmd, os).
     (let new_qhs_before_doorbell = qhs_queued_to_remove m;
          removed_qhs = qhs_removed_before_doorbell m;
          m' = m\<lparr>qhs_queued_to_remove := [], qhs_removed_before_doorbell := new_qhs_before_doorbell\<rparr>
      in case send_all aw removed_qhs os of (os', woken) \<Rightarrow>
         (m', if qhs_removed_before_doorbell m' \<noteq> []
              then UsbCmdReg_with_interrupt_on_async_advance_doorbell True cmd else cmd,
          os', woken)))"

subsection \<open>The ring\<close>

text \<open>
  \<open>off p\<close> is the offset of the queue head at \<open>p\<close> within the segment.  A queue head is linked to its
  successor when both pointers of the metadata and the physical link agree.
\<close>

definition linked :: "(vptr \<Rightarrow> u32) \<Rightarrow> async_heap \<Rightarrow> vptr \<Rightarrow> vptr \<Rightarrow> bool" where
  "linked off h p q \<longleftrightarrow>
     qha_next (h p) = q \<and> qha_prev (h q) = p \<and> hlink h p = QhHorizontalLinkPtr_new Qh (off q)"

definition ring :: "(vptr \<Rightarrow> u32) \<Rightarrow> async_heap \<Rightarrow> vptr \<Rightarrow> vptr list \<Rightarrow> bool" where
  "ring off h a qs \<longleftrightarrow> successively (linked off h) (a # qs @ [a]) \<and> distinct (a # qs)"

text \<open>
  The first \<open>n\<close> queue heads the controller reaches from \<open>p\<close>; \<open>at\<close> gives the queue head at an offset.
\<close>

primrec hw_visits :: "(u32 \<Rightarrow> vptr) \<Rightarrow> async_heap \<Rightarrow> vptr \<Rightarrow> nat \<Rightarrow> vptr list" where
  "hw_visits at h p 0 = []"
| "hw_visits at h p (Suc n) =
     (case QhHorizontalLinkPtr_ptr (hlink h p) of
        None \<Rightarrow> []
      | Some x \<Rightarrow> at x # hw_visits at h (at x) n)"

lemma heap_simps [simp]:
  "hlink (set_hlink p l h) x = (if x = p then l else hlink h x)"
  "qha_prev (set_hlink p l h x) = qha_prev (h x)"
  "qha_next (set_hlink p l h x) = qha_next (h x)"
  "hlink (set_prev p q h) x = hlink h x"
  "qha_prev (set_prev p q h x) = (if x = p then q else qha_prev (h x))"
  "qha_next (set_prev p q h x) = qha_next (h x)"
  "hlink (set_next p q h) x = hlink h x"
  "qha_prev (set_next p q h x) = qha_prev (h x)"
  "qha_next (set_next p q h x) = (if x = p then q else qha_next (h x))"
  by (simp_all add: set_hlink_def set_prev_def set_next_def)

text \<open>
  Replacing what lies between two members \<open>p\<close> and \<open>n\<close> of a chain leaves the two outer parts linked,
  as long as only the successor fields of \<open>p\<close> and the predecessor field of \<open>n\<close> change there.
\<close>

definition same_links :: "async_heap \<Rightarrow> async_heap \<Rightarrow> vptr set \<Rightarrow> vptr set \<Rightarrow> bool" where
  "same_links h h' S T \<longleftrightarrow>
     (\<forall>x\<in>S. qha_next (h' x) = qha_next (h x) \<and> hlink h' x = hlink h x)
     \<and> (\<forall>y\<in>T. qha_prev (h' y) = qha_prev (h y))"

lemma chain_same_links:
  assumes "successively (linked off h) zs"
    and "same_links h h' (set (butlast zs)) (set (tl zs))"
  shows "successively (linked off h') zs"
  using assms by (auto intro!: successively_frame [OF assms(1)] simp: same_links_def linked_def)

lemma hw_visits_chain:
  assumes "successively (linked off h) (p # zs)"
    and "\<And>x. x \<in> set zs \<Longrightarrow> aligned32 (off x) \<and> at (off x) = x"
  shows "hw_visits at h p (length zs) = zs"
  using assms by (induction zs arbitrary: p) (auto simp: linked_def)

lemma hw_visits_cong:
  assumes "hw_visits at h p n = zs" and "n = length zs" and "\<And>x. x \<in> set (butlast (p # zs)) \<Longrightarrow> hlink h' x = hlink h x"
  shows "hw_visits at h' p n = zs"
  using assms
proof (induction zs arbitrary: p n)
  case (Cons z zs)
  then obtain o' where o': "QhHorizontalLinkPtr_ptr (hlink h p) = Some o'" "at o' = z"
      "hw_visits at h z (length zs) = zs"
    by (auto split: option.splits)
  have "hw_visits at h' z (length zs) = zs"
    using o' Cons.prems(3) by (intro Cons.IH) (auto split: if_splits)
  moreover have "hlink h' p = hlink h p"
    using Cons.prems(3) [of p] by simp
  ultimately show ?case using o' Cons.prems(2) by simp
qed auto

subsection \<open>Insertion and removal\<close>

definition inserted_heap :: "(vptr \<Rightarrow> u32) \<Rightarrow> vptr \<Rightarrow> vptr \<Rightarrow> async_heap \<Rightarrow> async_heap" where
  "inserted_heap off a q h =
     set_next a q (set_prev (qha_next (h a)) q (set_hlink a (QhHorizontalLinkPtr_new Qh (off q))
       (set_next q (qha_next (h a)) (set_prev q a (set_hlink q (hlink h a) h)))))"

definition removed_heap :: "vptr \<Rightarrow> async_heap \<Rightarrow> async_heap" where
  "removed_heap q h =
     set_next (qha_prev (h q)) (qha_next (h q)) (set_prev (qha_next (h q)) (qha_prev (h q))
       (set_hlink (qha_prev (h q)) (hlink h q) h))"

lemma add_qh_to_async_list_eq:
  assumes "get_addr_offset (phys_addr q) (alm_ctrl_ds_segment m) = Inr (off (mm_ptr q))"
  shows "add_qh_to_async_list m q h = Inr (inserted_heap off (mm_ptr (anchor_qh m)) (mm_ptr q) h)"
  using assms by (simp add: add_qh_to_async_list_def inserted_heap_def Let_def)

lemma queue_remove_qh_eq:
  "queue_remove_qh q sender (m, cmd, h) =
     (if qhs_removed_before_doorbell m = []
      then (m\<lparr>qhs_removed_before_doorbell := [sender]\<rparr>,
            UsbCmdReg_with_interrupt_on_async_advance_doorbell True cmd, removed_heap (mm_ptr q) h)
      else (m\<lparr>qhs_queued_to_remove := qhs_queued_to_remove m @ [sender]\<rparr>, cmd, removed_heap (mm_ptr q) h))"
  by (simp add: queue_remove_qh_def removed_heap_def Let_def)

lemma ring_successor: "ring off h a qs \<Longrightarrow> linked off h a (hd (qs @ [a]))"
  by (cases qs) (auto simp: ring_def)

lemma ring_inserted:
  assumes r: "ring off h a qs" and q: "q \<notin> set (a # qs)"
  shows "ring off (inserted_heap off a q h) a (q # qs)"
proof -
  let ?h = "inserted_heap off a q h"
  obtain n zs where nz: "qs @ [a] = n # zs" by (cases "qs @ [a]") auto
  have n: "n = hd (qs @ [a])" "n \<in> set (qs @ [a])" using nz by auto
  then have nq: "n \<noteq> q" using q by auto
  have an: "qha_next (h a) = n" "hlink h a = QhHorizontalLinkPtr_new Qh (off n)"
    using ring_successor [OF r] n by (auto simp: linked_def)
  have "linked off ?h a q" "linked off ?h q n"
    using q nq by (auto simp: linked_def inserted_heap_def an)
  moreover have "successively (linked off ?h) (qs @ [a])"
  proof (rule chain_same_links)
    show "successively (linked off h) (qs @ [a])"
      using r by (cases qs) (auto simp: ring_def)
    have "distinct (qs @ [a])" using r by (auto simp: ring_def)
    then have "n \<notin> set (tl (qs @ [a]))" using nz by auto
    moreover have "set (tl (qs @ [a])) \<subseteq> set (qs @ [a])" by (cases qs) auto
    ultimately show "same_links h ?h (set (butlast (qs @ [a]))) (set (tl (qs @ [a])))"
      using q r an by (auto simp: same_links_def inserted_heap_def ring_def)
  qed
  ultimately show ?thesis
    using r q nz by (auto simp: ring_def)
qed

lemma same_links_bypass:
  "p \<notin> S \<Longrightarrow> n \<notin> T \<Longrightarrow> same_links h (set_next p n (set_prev n p (set_hlink p l h))) S T"
  by (auto simp: same_links_def)

lemma ring_removed:
  assumes r: "ring off h a (xs @ q # ys)"
  shows "ring off (removed_heap q h) a (xs @ ys)"
proof -
  let ?h = "removed_heap q h"
  obtain us p where up: "a # xs = us @ [p]" by (metis append_butlast_last_id list.distinct(1))
  obtain n vs where nv: "ys @ [a] = n # vs" by (cases "ys @ [a]") auto
  have d: "distinct (us @ [p])" "distinct (n # vs)" "q \<notin> set (us @ [p])" "q \<notin> set (n # vs)"
    using r unfolding ring_def by (auto simp: up [symmetric] nv [symmetric])
  have all: "a # (xs @ q # ys) @ [a] = (us @ [p]) @ q # (n # vs)"
    using up nv by (metis append.assoc append_Cons)
  have "successively (linked off h) ((us @ [p]) @ q # (n # vs))"
    using r unfolding ring_def all by blast
  then have parts: "successively (linked off h) (us @ [p])" "linked off h p q" "linked off h q n"
      "successively (linked off h) (n # vs)"
    by (auto simp: successively_append_iff)
  then have pn: "qha_prev (h q) = p" "qha_next (h q) = n" "hlink h q = QhHorizontalLinkPtr_new Qh (off n)"
    by (auto simp: linked_def)
  have "set (tl (us @ [p])) \<subseteq> set xs" and "set (butlast (n # vs)) \<subseteq> set ys"
    by (simp_all add: up [symmetric] nv [symmetric])
  moreover have "n \<notin> set xs" "p \<notin> set ys"
    using r up nv unfolding ring_def
    by (auto simp: append_eq_Cons_conv Cons_eq_append_conv)
  ultimately have "p \<notin> set (butlast (us @ [p]))" "n \<notin> set (tl (us @ [p]))"
      "p \<notin> set (butlast (n # vs))" "n \<notin> set (tl (n # vs))"
    using d(1,2) by (auto simp del: butlast.simps)
  then have "same_links h ?h (set (butlast (us @ [p]))) (set (tl (us @ [p])))"
      "same_links h ?h (set (butlast (n # vs))) (set (tl (n # vs)))"
    unfolding removed_heap_def pn by (blast intro: same_links_bypass)+
  with parts have "successively (linked off ?h) (us @ [p])" "successively (linked off ?h) (n # vs)"
    by (blast intro: chain_same_links)+
  moreover have "linked off ?h p n"
    by (auto simp: linked_def removed_heap_def pn)
  ultimately have "successively (linked off ?h) ((us @ [p]) @ (n # vs))"
    by (simp add: successively_append_iff)
  moreover have "a # (xs @ ys) @ [a] = (us @ [p]) @ (n # vs)"
    using up nv by (metis append.assoc append_Cons)
  ultimately show ?thesis
    using r by (simp add: ring_def)
qed

subsection \<open>The contract of the list\<close>

datatype sched_op = Ins vptr | Del vptr

primrec sched_valid :: "vptr \<Rightarrow> sched_op list \<Rightarrow> vptr list \<Rightarrow> bool" where
  "sched_valid a [] qs = True"
| "sched_valid a (x # xs) qs =
     (case x of
        Ins q \<Rightarrow> q \<notin> set (a # qs) \<and> sched_valid a xs (q # qs)
      | Del q \<Rightarrow> q \<in> set qs \<and> sched_valid a xs (remove1 q qs))"

primrec sched_members :: "sched_op list \<Rightarrow> vptr list \<Rightarrow> vptr list" where
  "sched_members [] qs = qs"
| "sched_members (x # xs) qs =
     sched_members xs (case x of Ins q \<Rightarrow> q # qs | Del q \<Rightarrow> remove1 q qs)"

primrec sched_run :: "(vptr \<Rightarrow> 'h \<Rightarrow> 'h) \<Rightarrow> (vptr \<Rightarrow> 'h \<Rightarrow> 'h) \<Rightarrow> sched_op list \<Rightarrow> 'h \<Rightarrow> 'h" where
  "sched_run ins del [] h = h"
| "sched_run ins del (x # xs) h =
     sched_run ins del xs (case x of Ins q \<Rightarrow> ins q h | Del q \<Rightarrow> del q h)"

text \<open>What a client of a schedule list relies on: which queue heads are on it.\<close>

locale schedule_list =
  fixes anchor :: vptr
    and invar :: "'h \<Rightarrow> vptr list \<Rightarrow> bool"
    and ins :: "vptr \<Rightarrow> 'h \<Rightarrow> 'h"
    and del :: "vptr \<Rightarrow> 'h \<Rightarrow> 'h"
  assumes invar_ins: "invar h qs \<Longrightarrow> q \<notin> set (anchor # qs) \<Longrightarrow> invar (ins q h) (q # qs)"
    and invar_del: "invar h qs \<Longrightarrow> q \<in> set qs \<Longrightarrow> invar (del q h) (remove1 q qs)"
begin

lemma invar_run:
  "invar h qs \<Longrightarrow> sched_valid anchor xs qs \<Longrightarrow> invar (sched_run ins del xs h) (sched_members xs qs)"
proof (induction xs arbitrary: h qs)
  case (Cons x xs)
  then show ?case by (cases x) (auto simp: invar_ins invar_del)
qed simp

lemma ins_del_inverse:
  "invar h qs \<Longrightarrow> q \<notin> set (anchor # qs) \<Longrightarrow> invar (del q (ins q h)) qs"
  using invar_del [OF invar_ins, of h qs q q] by simp

end

interpretation async_ring: schedule_list a "\<lambda>h. ring off h a" "inserted_heap off a" removed_heap
  for a off
proof
  fix h qs q
  assume r: "ring off h a qs"
  show "ring off (inserted_heap off a q h) a (q # qs)" if "q \<notin> set (a # qs)"
    using r that by (rule ring_inserted)
  show "ring off (removed_heap q h) a (remove1 q qs)" if "q \<in> set qs"
  proof -
    from that obtain xs ys where xy: "qs = xs @ q # ys" "q \<notin> set xs"
      by (meson split_list_first)
    with ring_removed [of off h a xs q ys] r show ?thesis by (simp add: remove1_append)
  qed
qed

lemma ring_neighbours:
  assumes "ring off h a (xs @ q # ys)"
  shows "qha_prev (h q) \<noteq> q \<and> qha_next (h q) \<noteq> q"
proof -
  have d: "distinct (a # xs @ q # ys)" and "successively (linked off h) ((a # xs) @ q # ys @ [a])"
    using assms by (simp_all add: ring_def)
  then have "linked off h (last (a # xs)) q" "linked off h q (hd (ys @ [a]))"
    unfolding successively_append_iff by (cases ys; simp)+
  moreover have "last (a # xs) \<in> set (a # xs)" "hd (ys @ [a]) \<in> set (ys @ [a])"
    by (rule last_in_set, simp, rule hd_in_set, simp)
  then have "last (a # xs) \<noteq> q" "hd (ys @ [a]) \<noteq> q"
    using d by (auto simp del: last.simps)
  ultimately show ?thesis by (auto simp: linked_def)
qed

lemma ring_singleton:
  "qha_next (h a) = a \<Longrightarrow> qha_prev (h a) = a \<Longrightarrow> hlink h a = QhHorizontalLinkPtr_new Qh (off a)
     \<Longrightarrow> ring off h a []"
  by (simp add: ring_def linked_def)

lemma ring_hw_visits:
  assumes "ring off h a qs" and "\<And>x. x \<in> set (a # qs) \<Longrightarrow> aligned32 (off x) \<and> at (off x) = x"
  shows "hw_visits at h a (length qs + 1) = qs @ [a]"
  using hw_visits_chain [of off h a "qs @ [a]" at] assms by (auto simp: ring_def)

subsection \<open>Properties of the list\<close>

text \<open>C4: Adding a queue head that is not yet on the asynchronous list succeeds when it lies in the
  segment, keeps the list a well-formed ring (forward, backward and physical links agree) and
  puts the queue head right behind the anchor; the other members keep their order.\<close>

theorem add_qh_keeps_ring:
  assumes "ring off h (mm_ptr (anchor_qh m)) qs" and "mm_ptr q \<notin> set (mm_ptr (anchor_qh m) # qs)"
    and "get_addr_offset (phys_addr q) (alm_ctrl_ds_segment m) = Inr (off (mm_ptr q))"
  shows "\<exists>h'. add_qh_to_async_list m q h = Inr h' \<and> ring off h' (mm_ptr (anchor_qh m)) (mm_ptr q # qs)"
  using add_qh_to_async_list_eq [of q m off h, OF assms(3)] async_ring.invar_ins [OF assms(1,2)] by blast

text \<open>C5: Unlinking a member keeps the list a well-formed ring of the other members, in their order; the
  unlinked queue head itself is not written, so a controller that stands on it finds its way back
  into the ring.\<close>

theorem queue_remove_keeps_ring:
  assumes "ring off h a qs" and "mm_ptr q \<in> set qs"
  shows "case queue_remove_qh q s (m, cmd, h) of (m', cmd', h') \<Rightarrow>
     ring off h' a (remove1 (mm_ptr q) qs) \<and> h' (mm_ptr q) = h (mm_ptr q)"
proof -
  let ?q = "mm_ptr q"
  have r: "ring off (removed_heap ?q h) a (remove1 ?q qs)"
    using assms by (rule async_ring.invar_del)
  from assms(2) obtain xs ys where "qs = xs @ ?q # ys"
    by (meson split_list)
  with assms(1) have "qha_prev (h ?q) \<noteq> ?q \<and> qha_next (h ?q) \<noteq> ?q"
    using ring_neighbours by metis
  then have "removed_heap ?q h ?q = h ?q"
    by (auto simp: removed_heap_def set_next_def set_prev_def set_hlink_def)
  with r show ?thesis by (simp add: queue_remove_qh_eq)
qed

text \<open>A concrete memory with the anchor at \<open>0x40\<close> for the examples: offsets are the low halves of
  the virtual addresses.\<close>

definition example_heap :: async_heap where
  "example_heap = (\<lambda>_. \<lparr>qha_qh = (Qh_new 0 0)\<lparr>horizontal_link_ptr := QhHorizontalLinkPtr_new Qh 0x40\<rparr>,
     qha_prev = 0x40, qha_next = 0x40\<rparr>)"

definition example_mem :: "u64 \<Rightarrow> mapped_mem" where
  "example_mem p = \<lparr>phys_addr = p, mm_ptr = p\<rparr>"

definition example_manager :: async_list_manager where
  "example_manager = AsyncListManager_new (example_mem 0x40) LOWER_4_G"

lemma example_ring: "ring ucast example_heap 0x40 []"
  by (rule ring_singleton) (simp_all add: example_heap_def)

lemma example_simps [simp]:
  "mm_ptr (example_mem p) = p" "phys_addr (example_mem p) = p"
  "mm_ptr (anchor_qh example_manager) = 0x40" "alm_ctrl_ds_segment example_manager = LOWER_4_G"
  "qhs_removed_before_doorbell example_manager = []" "qhs_queued_to_remove example_manager = []"
  by (simp_all add: example_mem_def example_manager_def AsyncListManager_new_def)

theorem add_qh_keeps_ring_witness:
  "\<exists>h'. add_qh_to_async_list example_manager (example_mem 0x80) example_heap = Inr h'
     \<and> ring ucast h' 0x40 [0x80]"
  using add_qh_keeps_ring [of ucast example_heap example_manager "[]" "example_mem 0x80"] example_ring
  by (simp add: get_addr_offset_def LOWER_4_G_def)

theorem queue_remove_keeps_ring_witness:
  "ring ucast (snd (snd (queue_remove_qh (example_mem 0x80) 7
     (example_manager, 0, inserted_heap ucast 0x40 0x80 example_heap)))) 0x40 []"
proof -
  have r: "ring ucast (inserted_heap ucast 0x40 0x80 example_heap) 0x40 [0x80]"
    by (rule ring_inserted [OF example_ring]) simp
  have m: "mm_ptr (example_mem 0x80) \<in> set [0x80]" by simp
  from queue_remove_keeps_ring [OF r m, of 7 example_manager 0] show ?thesis
    by (simp add: case_prod_beta)
qed

text \<open>The heaps the controller can observe while a queue head is added: after each write, in order.\<close>

definition add_qh_trace :: "vptr \<Rightarrow> vptr \<Rightarrow> u32 \<Rightarrow> async_heap \<Rightarrow> async_heap list" where
  "add_qh_trace anchor_qh_ptr qh_ptr off h =
     (let next_qh_ptr = qha_next (h anchor_qh_ptr);
          h1 = set_hlink qh_ptr (hlink h anchor_qh_ptr) h;
          h2 = set_prev qh_ptr anchor_qh_ptr h1;
          h3 = set_next qh_ptr next_qh_ptr h2;
          h4 = set_hlink anchor_qh_ptr (QhHorizontalLinkPtr_new Qh off) h3;
          h5 = set_prev next_qh_ptr qh_ptr h4;
          h6 = set_next anchor_qh_ptr qh_ptr h5
      in [h1, h2, h3, h4, h5, h6])"

lemma last_add_qh_trace: "last (add_qh_trace a q (off q) h) = inserted_heap off a q h"
  by (simp add: add_qh_trace_def inserted_heap_def Let_def)

lemma add_qh_trace_hlink:
  assumes "h' \<in> set (add_qh_trace a q (off q) h)" and "q \<noteq> a"
  shows "(\<forall>x. x \<noteq> q \<longrightarrow> hlink h' x = hlink h x) \<or> (\<forall>x. hlink h' x = hlink (inserted_heap off a q h) x)"
  using assms by (auto simp: add_qh_trace_def inserted_heap_def Let_def)

lemma add_qh_trace_visits:
  assumes r: "ring off h a qs" and q: "q \<notin> set (a # qs)"
    and al: "\<forall>x \<in> set (a # q # qs). aligned32 (off x) \<and> at (off x) = x"
    and h': "h' \<in> set (add_qh_trace a q (off q) h)"
  shows "hw_visits at h' a (length qs + 1) = qs @ [a]
    \<or> hw_visits at h' a (length qs + 2) = q # qs @ [a]"
proof -
  have old: "hw_visits at h a (length qs + 1) = qs @ [a]"
    using al by (intro ring_hw_visits [OF r]) auto
  have new: "hw_visits at (inserted_heap off a q h) a (length (q # qs) + 1) = (q # qs) @ [a]"
    using al by (intro ring_hw_visits [OF ring_inserted [OF r q]]) auto
  from q have "q \<noteq> a" by simp
  from add_qh_trace_hlink [where off = off, OF h' this] show ?thesis
  proof
    assume "\<forall>x. x \<noteq> q \<longrightarrow> hlink h' x = hlink h x"
    with q have "hw_visits at h' a (length qs + 1) = qs @ [a]"
      by (intro hw_visits_cong [OF old]) (auto simp: butlast_append split: if_splits)
    then show ?thesis ..
  next
    assume "\<forall>x. hlink h' x = hlink (inserted_heap off a q h) x"
    then have "hw_visits at h' a (length (q # qs) + 1) = (q # qs) @ [a]"
      by (intro hw_visits_cong [OF new]) auto
    then show ?thesis by simp
  qed
qed

text \<open>C6: The controller, which may read the list between any two writes, never sees a broken list while a
  queue head is added: the writes of \<open>add_qh_to_async_list\<close> lead from one heap to the next, ending in its result, and after every
  single one of them the controller visits either exactly the old members or exactly the new queue head followed by the old
  members, and is back at the anchor.\<close>

theorem add_qh_atomic_for_controller:
  assumes r: "ring off h a qs" and a: "a = mm_ptr (anchor_qh m)" and q: "mm_ptr q \<notin> set (a # qs)"
    and al: "\<forall>x \<in> set (a # mm_ptr q # qs). aligned32 (off x) \<and> at (off x) = x"
    and seg: "get_addr_offset (phys_addr q) (alm_ctrl_ds_segment m) = Inr (off (mm_ptr q))"
  shows "add_qh_to_async_list m q h = Inr (last (add_qh_trace a (mm_ptr q) (off (mm_ptr q)) h))
    \<and> (\<forall>h' \<in> set (add_qh_trace a (mm_ptr q) (off (mm_ptr q)) h).
          hw_visits at h' a (length qs + 1) = qs @ [a] \<or> hw_visits at h' a (length qs + 2) = mm_ptr q # qs @ [a])"
  using add_qh_to_async_list_eq [of q m off h, OF seg] add_qh_trace_visits [OF r q al] a
  by (simp add: last_add_qh_trace)

theorem add_qh_atomic_for_controller_witness:
  "list_all (\<lambda>h'. hw_visits ucast h' 0x40 1 = [0x40] \<or> hw_visits ucast h' 0x40 2 = [0x80, 0x40])
     (add_qh_trace 0x40 0x80 0x80 example_heap)"
proof -
  let ?q = "example_mem 0x80"
  have q: "mm_ptr ?q \<notin> set (0x40 # ([] :: vptr list))" by simp
  have al: "\<forall>x \<in> set (0x40 # mm_ptr ?q # ([] :: vptr list)). aligned32 (ucast x :: u32) \<and> ucast (ucast x :: u32) = x"
    by (simp add: aligned32_def)
  have s: "0x40 = mm_ptr (anchor_qh example_manager)"
    "get_addr_offset (phys_addr ?q) (alm_ctrl_ds_segment example_manager) = Inr (ucast (mm_ptr ?q))"
    by (simp_all add: get_addr_offset_def LOWER_4_G_def)
  have o: "ucast (mm_ptr ?q) = (0x80 :: u32)" "mm_ptr ?q = 0x80" by simp_all
  note r = add_qh_atomic_for_controller [OF example_ring s(1) q al s(2), THEN conjunct2, unfolded o(1), unfolded o(2) list.size add_0 append.simps]
  show ?thesis unfolding list_all_iff by (rule r)
qed

subsection \<open>The doorbell protocol\<close>

text \<open>
  The manager together with the controller's side of the doorbell: the controller may answer a
  doorbell that is rung, by clearing the bit and raising the asynchronous advance, which the
  runner hands to \<open>handle_async_advance\<close>.  The labels record the order of events.
\<close>

datatype alm_event = EvUnlink sender | EvRing | EvAdvance

record 'a alm_sys =
  sys_manager :: async_list_manager
  sys_cmd :: usb_cmd_reg
  sys_heap :: async_heap
  sys_os :: "sender \<Rightarrow> (unit, 'a) oneshot_shared"

abbreviation doorbell :: "usb_cmd_reg \<Rightarrow> bool" where
  "doorbell \<equiv> UsbCmdReg_interrupt_on_async_advance_doorbell"

inductive alm_step ::
    "('w, 'a) atomic_waker \<Rightarrow> 'a alm_sys \<Rightarrow> alm_event list \<Rightarrow> 'a alm_sys \<Rightarrow> bool" for aw where
  add: "add_qh_to_async_list (sys_manager s) q (sys_heap s) = Inr h' \<Longrightarrow>
     alm_step aw s [] (s\<lparr>sys_heap := h'\<rparr>)"
| remove: "queue_remove_qh q x (sys_manager s, sys_cmd s, sys_heap s) = (m', cmd', h') \<Longrightarrow>
     alm_step aw s (EvUnlink x # (if doorbell cmd' \<and> \<not> doorbell (sys_cmd s) then [EvRing] else []))
       (s\<lparr>sys_manager := m', sys_cmd := cmd', sys_heap := h'\<rparr>)"
| advance: "doorbell (sys_cmd s) \<Longrightarrow>
     handle_async_advance aw (sys_manager s,
       UsbCmdReg_with_interrupt_on_async_advance_doorbell False (sys_cmd s), sys_os s)
       = (m', cmd', os', woken) \<Longrightarrow>
     alm_step aw s (EvAdvance # (if doorbell cmd' then [EvRing] else []))
       (s\<lparr>sys_manager := m', sys_cmd := cmd', sys_os := os'\<rparr>)"

inductive alm_reach ::
    "('w, 'a) atomic_waker \<Rightarrow> mapped_mem \<Rightarrow> ctrl_ds_segment \<Rightarrow> alm_event list \<Rightarrow> 'a alm_sys \<Rightarrow> bool"
  for aw anchor seg where
  init: "\<not> doorbell cmd \<Longrightarrow> (\<forall>x. \<not> os_stored (os x)) \<Longrightarrow>
     alm_reach aw anchor seg []
       \<lparr>sys_manager = AsyncListManager_new anchor seg, sys_cmd = cmd, sys_heap = h, sys_os = os\<rparr>"
| step: "alm_reach aw anchor seg evs s \<Longrightarrow> alm_step aw s es t \<Longrightarrow> alm_reach aw anchor seg (evs @ es) t"

lemma os_stored_send: "os_stored (fst (OneshotSender_send aw v sh))"
  by (simp add: OneshotSender_send_def Let_def split: prod.split)

lemma send_all_stored:
  "send_all aw ss os = (os', ws) \<Longrightarrow> os_stored (os' x) \<longleftrightarrow> x \<in> set ss \<or> os_stored (os x)"
proof (induction ss arbitrary: os ws)
  case (Cons s ss)
  obtain sh w where send: "OneshotSender_send aw () (os s) = (sh, w)" by fastforce
  obtain ws' where "send_all aw ss (os(s := sh)) = (os', ws')"
    using Cons.prems send by (auto split: prod.splits)
  with Cons.IH have "os_stored (os' x) \<longleftrightarrow> x \<in> set ss \<or> os_stored ((os(s := sh)) x)" by blast
  moreover have "os_stored sh"
    using os_stored_send [of aw "()" "os s"] send by simp
  ultimately show ?case by auto
qed simp

lemma doorbell_with [simp]: "doorbell (UsbCmdReg_with_interrupt_on_async_advance_doorbell b cmd) = b"
  by (simp add: bitfield_defs bitfield)

definition alm_inv :: "alm_event list \<Rightarrow> 'a alm_sys \<Rightarrow> bool" where
  "alm_inv evs s \<longleftrightarrow>
     (let before = qhs_removed_before_doorbell (sys_manager s);
          queued = qhs_queued_to_remove (sys_manager s)
      in (before = [] \<longrightarrow> queued = []) \<and> (doorbell (sys_cmd s) \<longleftrightarrow> before \<noteq> [])
       \<and> (\<forall>x \<in> set before. subseq [EvUnlink x, EvRing] evs)
       \<and> (\<forall>x \<in> set queued. EvUnlink x \<in> set evs)
       \<and> (\<forall>x. os_stored (sys_os s x) \<longrightarrow> subseq [EvUnlink x, EvRing, EvAdvance] evs)
       \<and> (\<forall>x. EvUnlink x \<in> set evs \<longrightarrow>
            x \<in> set before \<or> x \<in> set queued \<or> os_stored (sys_os s x)))"

lemma subseq_extend: "subseq xs evs \<Longrightarrow> subseq ys es \<Longrightarrow> subseq (xs @ ys) (evs @ es)"
  by (rule list_emb_append_mono)

lemma subseq_append_right: "subseq xs evs \<Longrightarrow> subseq xs (evs @ es)"
  using subseq_extend [of xs evs "[]" es] by simp

lemma alm_inv_add: "alm_inv evs s \<Longrightarrow> alm_inv evs (s\<lparr>sys_heap := h\<rparr>)"
  by (simp add: alm_inv_def)

lemma alm_inv_remove:
  assumes inv: "alm_inv evs s"
    and r: "queue_remove_qh q x (sys_manager s, sys_cmd s, sys_heap s) = (m', cmd', h')"
  shows "alm_inv (evs @ EvUnlink x # (if doorbell cmd' \<and> \<not> doorbell (sys_cmd s) then [EvRing] else []))
     (s\<lparr>sys_manager := m', sys_cmd := cmd', sys_heap := h'\<rparr>)"
proof (cases "qhs_removed_before_doorbell (sys_manager s) = []")
  case True
  with r inv show ?thesis
    by (auto simp: alm_inv_def Let_def queue_remove_qh_eq intro: subseq_append_right)
next
  case False
  with r inv show ?thesis
    by (auto simp: alm_inv_def Let_def queue_remove_qh_eq intro: subseq_append_right)
qed

lemma alm_inv_advance:
  assumes inv: "alm_inv evs s"
    and a: "handle_async_advance aw (sys_manager s,
       UsbCmdReg_with_interrupt_on_async_advance_doorbell False (sys_cmd s), sys_os s) = (m', cmd', os', woken)"
  shows "alm_inv (evs @ EvAdvance # (if doorbell cmd' then [EvRing] else []))
     (s\<lparr>sys_manager := m', sys_cmd := cmd', sys_os := os'\<rparr>)"
proof -
  let ?before = "qhs_removed_before_doorbell (sys_manager s)" and ?queued = "qhs_queued_to_remove (sys_manager s)"
  obtain ws where send: "send_all aw ?before (sys_os s) = (os', ws)"
    using a by (auto simp: handle_async_advance_def Let_def split: prod.splits)
  have m': "qhs_removed_before_doorbell m' = ?queued" "qhs_queued_to_remove m' = []"
      "doorbell cmd' = (?queued \<noteq> [])"
    using a send by (auto simp: handle_async_advance_def Let_def)
  let ?es = "EvAdvance # (if doorbell cmd' then [EvRing] else [])"
  have old: "\<forall>x \<in> set ?before. subseq [EvUnlink x, EvRing] evs" "\<forall>x \<in> set ?queued. EvUnlink x \<in> set evs"
      "\<forall>x. os_stored (sys_os s x) \<longrightarrow> subseq [EvUnlink x, EvRing, EvAdvance] evs"
      "\<forall>x. EvUnlink x \<in> set evs \<longrightarrow> x \<in> set ?before \<or> x \<in> set ?queued \<or> os_stored (sys_os s x)"
    using inv by (auto simp: alm_inv_def Let_def)
  have "subseq [EvUnlink x, EvRing] (evs @ ?es)" if "x \<in> set ?queued" for x
    using that old(2) m'(3) subseq_extend [of "[EvUnlink x]" evs "[EvRing]" ?es]
    by (auto simp: subseq_singleton_left)
  moreover have "subseq [EvUnlink x, EvRing, EvAdvance] (evs @ ?es)" if "os_stored (os' x)" for x
    using that old(1,3) subseq_extend [of "[EvUnlink x, EvRing]" evs "[EvAdvance]" ?es]
    by (auto simp: send_all_stored [OF send] subseq_singleton_left intro: subseq_append_right)
  ultimately show ?thesis
    using old(4) m' by (auto simp: alm_inv_def Let_def send_all_stored [OF send])
qed

lemma alm_reach_inv: "alm_reach aw anchor seg evs s \<Longrightarrow> alm_inv evs s"
proof (induction rule: alm_reach.induct)
  case (init cmd os h)
  then show ?case by (simp add: alm_inv_def AsyncListManager_new_def)
next
  case (step evs s es t)
  from step.hyps(2) show ?case
  proof (cases rule: alm_step.cases)
    case (add q h')
    with step.IH show ?thesis by (simp add: alm_inv_add)
  next
    case (remove q x m' cmd' h')
    show ?thesis unfolding remove(1,2) by (rule alm_inv_remove [OF step.IH remove(3)])
  next
    case (advance m' cmd' os' woken)
    show ?thesis unfolding advance(1,2) by (rule alm_inv_advance [OF step.IH advance(4)])
  qed
qed

subsection \<open>Properties of the protocol\<close>

text \<open>C7: A queue head is reported removed only when the controller can no longer hold it: whenever the
  callback of an unlinked queue head has been completed, a doorbell was rung after the unlinking
  and answered by an asynchronous advance after that, in this order.\<close>

theorem removal_reported_after_doorbell:
  assumes "alm_reach aw anchor seg evs s" and "os_stored (sys_os s x)"
  shows "subseq [EvUnlink x, EvRing, EvAdvance] evs"
  using alm_reach_inv [OF assms(1)] assms(2) by (simp add: alm_inv_def Let_def)

text \<open>A run of the protocol for the examples: two queue heads are removed, the second while the first
  doorbell is outstanding.\<close>

definition example_alm :: "nat option alm_sys" where
  "example_alm = \<lparr>sys_manager = example_manager, sys_cmd = 0, sys_heap = example_heap,
     sys_os = (\<lambda>_. oneshot option_waker)\<rparr>"

lemma example_alm_reach: "alm_reach option_waker (example_mem 0x40) LOWER_4_G [] example_alm"
  unfolding example_alm_def example_manager_def
  by (rule alm_reach.init) (simp_all add: oneshot_def bitfield_defs bitfield)

lemma example_alm_two_removals:
  "\<exists>s. alm_reach option_waker (example_mem 0x40) LOWER_4_G [EvUnlink 1, EvRing, EvUnlink 2] s
     \<and> qhs_removed_before_doorbell (sys_manager s) = [1] \<and> qhs_queued_to_remove (sys_manager s) = [2]
     \<and> doorbell (sys_cmd s) \<and> (\<forall>x. \<not> os_stored (sys_os s x))"
proof -
  obtain m h where r1: "queue_remove_qh (example_mem 0x80) 1 (sys_manager example_alm, sys_cmd example_alm, sys_heap example_alm)
      = (m, UsbCmdReg_with_interrupt_on_async_advance_doorbell True 0, h)"
    and m: "qhs_removed_before_doorbell m = [1]" "qhs_queued_to_remove m = []"
    by (simp add: queue_remove_qh_eq example_alm_def)
  have off: "\<not> doorbell (sys_cmd example_alm)" by (simp add: example_alm_def bitfield_defs bitfield)
  note s1 = alm_reach.step [OF example_alm_reach alm_step.remove [OF r1], simplified off doorbell_with, simplified]
  let ?s1 = "example_alm\<lparr>sys_manager := m, sys_cmd := UsbCmdReg_with_interrupt_on_async_advance_doorbell True 0, sys_heap := h\<rparr>"
  obtain m2 h2 where r2: "queue_remove_qh (example_mem 0xC0) 2 (sys_manager ?s1, sys_cmd ?s1, sys_heap ?s1)
      = (m2, UsbCmdReg_with_interrupt_on_async_advance_doorbell True 0, h2)"
    and m2: "qhs_removed_before_doorbell m2 = [1]" "qhs_queued_to_remove m2 = [2]"
    using m by (simp add: queue_remove_qh_eq)
  from alm_reach.step [OF s1 alm_step.remove [OF r2]] m2 show ?thesis
    by (auto simp: example_alm_def oneshot_def)
qed

theorem removal_reported_after_doorbell_witness:
  "\<exists>evs s. alm_reach option_waker (example_mem 0x40) LOWER_4_G evs s \<and> os_stored (sys_os s 1)
     \<and> subseq [EvUnlink 1, EvRing, EvAdvance] evs"
proof -
  obtain s where s: "alm_reach option_waker (example_mem 0x40) LOWER_4_G [EvUnlink 1, EvRing, EvUnlink 2] s"
      "qhs_removed_before_doorbell (sys_manager s) = [1]" "doorbell (sys_cmd s)"
    using example_alm_two_removals by blast
  obtain m' cmd' os' w where a: "handle_async_advance option_waker (sys_manager s,
      UsbCmdReg_with_interrupt_on_async_advance_doorbell False (sys_cmd s), sys_os s) = (m', cmd', os', w)"
    by (metis prod_cases3)
  then obtain ws where "send_all option_waker [1] (sys_os s) = (os', ws)"
    using s(2) by (auto simp: handle_async_advance_def Let_def split: prod.splits)
  then have "os_stored (os' 1)" by (simp only: send_all_stored) simp
  with alm_reach.step [OF s(1) alm_step.advance [OF s(3) a]] obtain evs t where
    t: "alm_reach option_waker (example_mem 0x40) LOWER_4_G evs t" "os_stored (sys_os t 1)"
    by (metis (no_types, lifting) alm_sys.select_convs(4) alm_sys.surjective alm_sys.update_convs(1,2,4))
  from removal_reported_after_doorbell [OF t] t show ?thesis by blast
qed

text \<open>C8: No removal is forgotten: while the callback of an unlinked queue head is outstanding the doorbell
  is rung, so an asynchronous advance will come, and at the latest the second one completes the
  callback.\<close>

theorem removal_completes_within_two_advances:
  assumes reach: "alm_reach aw anchor seg evs s" and x: "EvUnlink x \<in> set evs" "\<not> os_stored (sys_os s x)"
    and adv1: "handle_async_advance aw (sys_manager s,
        UsbCmdReg_with_interrupt_on_async_advance_doorbell False (sys_cmd s), sys_os s) = (m1, cmd1, os1, w1)"
    and adv2: "handle_async_advance aw (m1,
        UsbCmdReg_with_interrupt_on_async_advance_doorbell False cmd1, os1) = (m2, cmd2, os2, w2)"
  shows "doorbell (sys_cmd s) \<and> (os_stored (os1 x) \<or> doorbell cmd1 \<and> os_stored (os2 x))"
proof -
  let ?before = "qhs_removed_before_doorbell (sys_manager s)" and ?queued = "qhs_queued_to_remove (sys_manager s)"
  have pend: "x \<in> set ?before \<or> x \<in> set ?queued" and bell: "doorbell (sys_cmd s) \<longleftrightarrow> ?before \<noteq> []"
    and none: "?before = [] \<longrightarrow> ?queued = []"
    using alm_reach_inv [OF reach] x by (auto simp: alm_inv_def Let_def)
  obtain v1 where s1: "send_all aw ?before (sys_os s) = (os1, v1)"
    and m1: "qhs_removed_before_doorbell m1 = ?queued" and c1: "doorbell cmd1 = (?queued \<noteq> [])"
    using adv1 by (auto simp: handle_async_advance_def Let_def split: prod.splits)
  obtain v2 where s2: "send_all aw ?queued os1 = (os2, v2)"
    using adv2 m1 by (auto simp: handle_async_advance_def Let_def split: prod.splits)
  from pend bell none c1 show ?thesis
    by (auto simp: send_all_stored [OF s1] send_all_stored [OF s2])
qed

theorem removal_completes_within_two_advances_witness:
  "\<exists>(s :: nat option alm_sys) m1 cmd1 os1 w1 m2 cmd2 os2 w2.
     handle_async_advance option_waker (sys_manager s,
        UsbCmdReg_with_interrupt_on_async_advance_doorbell False (sys_cmd s), sys_os s) = (m1, cmd1, os1, w1)
   \<and> handle_async_advance option_waker (m1,
        UsbCmdReg_with_interrupt_on_async_advance_doorbell False cmd1, os1) = (m2, cmd2, os2, w2)
   \<and> \<not> os_stored (sys_os s 2) \<and> doorbell (sys_cmd s) \<and> (os_stored (os1 2) \<or> doorbell cmd1 \<and> os_stored (os2 2))"
proof -
  obtain s where s: "alm_reach option_waker (example_mem 0x40) LOWER_4_G [EvUnlink 1, EvRing, EvUnlink 2] s"
      "\<not> os_stored (sys_os s 2)"
    using example_alm_two_removals by blast
  obtain m1 cmd1 os1 w1 where a1: "handle_async_advance option_waker (sys_manager s,
      UsbCmdReg_with_interrupt_on_async_advance_doorbell False (sys_cmd s), sys_os s) = (m1, cmd1, os1, w1)"
    by (metis prod_cases3)
  obtain m2 cmd2 os2 w2 where a2: "handle_async_advance option_waker (m1,
      UsbCmdReg_with_interrupt_on_async_advance_doorbell False cmd1, os1) = (m2, cmd2, os2, w2)"
    by (metis prod_cases3)
  have x: "EvUnlink 2 \<in> set [EvUnlink 1, EvRing, EvUnlink 2]" by simp
  from removal_completes_within_two_advances [OF s(1) x s(2) a1 a2] a1 a2 s(2) show ?thesis by blast
qed

end
