(* ===== verification/Control_Endpoint.thy ===== *)
theory Control_Endpoint
  imports Async_List
begin

text \<open>
  Control endpoints (\<^verbatim>\<open>control_endpoint.rs\<close>, \<^verbatim>\<open>control_endpoint_shared.rs\<close>): loading a queue head,
  building the descriptor chain of a control transfer, waiting for its completion, and counting
  the bytes that arrived.

  The transfer descriptors are a store from virtual addresses to \<open>qtd\<close>.  An asynchronous function is
  cut at its \<^verbatim>\<open>await\<close>: \<open>transfer_in_start\<close> is \<^verbatim>\<open>transfer_in\<close> up to the wait, \<open>wait_for_qtd_complete_poll\<close>
  one poll of the wait, \<open>transfer_in_finish\<close> the rest.  Between polls the controller writes the
  store; within a poll, \<open>active k\<close> is what the \<open>k\<close>-th read of the active flag returns.
\<close>

type_synonym qtd_store = "vptr \<Rightarrow> qtd"

record 'w control_endpoint_shared =
  ces_req_signal :: "(mapped_mem, 'w) signal_state"
  ces_int_signal :: "(unit, 'w) signal_state"

definition ControlEndpointSharedState_default :: "'w control_endpoint_shared" where
  "ControlEndpointSharedState_default =
     \<lparr>ces_req_signal = Signal_default, ces_int_signal = Signal_default\<rparr>"

record control_endpoint =
  ce_device_address :: u7
  ce_endpoint_number :: u4
  ce_ctrl_ds_segment :: ctrl_ds_segment

record loaded_control_endpoint =
  lce_qh :: vptr
  lce_ctrl_ds_segment :: ctrl_ds_segment

subsection \<open>Loading\<close>

definition control_qh :: "control_endpoint \<Rightarrow> qh outcome" where
  "control_qh ep =
     obind (uint_new 64) (\<lambda>max_packet_len.
     let characteristics =
           EndpointCharacteristics_with_data_toggle_control True
             (EndpointCharacteristics_with_max_packet_len max_packet_len
               (EndpointCharacteristics_with_endpoint_speed (u2_from_EndpointSpeed EndpointSpeed_High)
                 (EndpointCharacteristics_with_endpoint_number (ce_endpoint_number ep)
                   (EndpointCharacteristics_with_device_addr (ce_device_address ep)
                     (EndpointCharacteristics_with_head_of_reclamation_list_flag False 0)))));
         q = (Qh_new characteristics 0)\<lparr>next_qtd_pointer := NextQtdPointer_INVALID\<rparr>
     in Inr (q\<lparr>transfer_token := TransferToken_with_halted True (transfer_token q)\<rparr>))"

definition ControlEndpoint_load ::
    "control_endpoint \<Rightarrow> mapped_mem \<Rightarrow> async_heap \<times> 'w control_endpoint_shared
      \<Rightarrow> (loaded_control_endpoint \<times> (async_heap \<times> 'w control_endpoint_shared) \<times> 'w list) outcome" where
  "ControlEndpoint_load ep qh_mem = (\<lambda>(h, sh).
     obind (control_qh ep) (\<lambda>q.
     let h' = h(mm_ptr qh_mem := (h (mm_ptr qh_mem))\<lparr>qha_qh := q\<rparr>)
     in case Signal_signal qh_mem (ces_req_signal sh) of (sig, woken) \<Rightarrow>
        Inr (\<lparr>lce_qh = mm_ptr qh_mem, lce_ctrl_ds_segment = ce_ctrl_ds_segment ep\<rparr>,
             (h', sh\<lparr>ces_req_signal := sig\<rparr>), woken)))"

subsection \<open>Descriptors of a control transfer\<close>

definition write_setup_qtd ::
    "ctrl_ds_segment \<Rightarrow> mapped_mem \<Rightarrow> mapped_mem \<Rightarrow> mapped_mem \<Rightarrow> qtd_store \<Rightarrow> qtd_store outcome" where
  "write_setup_qtd seg setup_packet setup_qtd_mem next_qtd_mem qs =
     obind (uint_new 8) (\<lambda>n.
     obind (BufferPtrs_new_contiguous (phys_addr setup_packet) 8) (\<lambda>bp.
     obind (Qtd_new (TransferToken_new_active SetupToken n) bp) (\<lambda>setup_qtd.
     obind (get_addr_offset (phys_addr next_qtd_mem) seg) (\<lambda>off.
     Inr (qs(mm_ptr setup_qtd_mem := setup_qtd\<lparr>next_qtd_ptr := NextQtdPointer_new_valid off\<rparr>))))))"

definition write_status_qtd :: "mapped_mem \<Rightarrow> PidCode \<Rightarrow> qtd_store \<Rightarrow> qtd_store outcome" where
  "write_status_qtd status_qtd_mem pid qs =
     obind (Qtd_new (TransferToken_with_interrupt_on_complete True
              (TransferToken_with_data_toggle True (TransferToken_new_active pid 0)))
            BufferPtrs_ZERO) (\<lambda>status_qtd.
     Inr (qs(mm_ptr status_qtd_mem := status_qtd)))"

definition attach_qtd :: "loaded_control_endpoint \<Rightarrow> mapped_mem \<Rightarrow> async_heap \<Rightarrow> async_heap outcome" where
  "attach_qtd ep q h =
     obind (get_addr_offset (phys_addr q) (lce_ctrl_ds_segment ep)) (\<lambda>off.
     let p = lce_qh ep;
         h1 = h(p := (h p)\<lparr>qha_qh := (qha_qh (h p))\<lparr>next_qtd_pointer := NextQtdPointer_new_valid off\<rparr>\<rparr>);
         h2 = h1(p := (h1 p)\<lparr>qha_qh := (qha_qh (h1 p))\<lparr>transfer_token := 0\<rparr>\<rparr>)
     in Inr h2)"

text \<open>One data descriptor; \<open>next_mem\<close> is the descriptor behind it.\<close>

definition data_qtd :: "ctrl_ds_segment \<Rightarrow> alternate_qtd_link_ptr \<Rightarrow> mapped_slice \<Rightarrow> mapped_mem \<Rightarrow> qtd outcome" where
  "data_qtd seg alternate_qtd_ptr buffer next_mem =
     (if mm_len buffer < 2 ^ 16
      then obind (uint_new (mm_len buffer)) (\<lambda>len.
           obind (BufferPtrs_new_contiguous (phys_addr buffer) (of_nat (mm_len buffer))) (\<lambda>bp.
           obind (Qtd_new (TransferToken_with_interrupt_on_complete True
                    (TransferToken_with_data_toggle True (TransferToken_new_active InToken len))) bp) (\<lambda>in_qtd.
           obind (get_addr_offset (phys_addr next_mem) seg) (\<lambda>off.
           Inr (in_qtd\<lparr>next_qtd_ptr := NextQtdPointer_new_valid off,
                       alternate_next_qtd_ptr := alternate_qtd_ptr\<rparr>)))))
      else Inl UnwrapFailed)"

text \<open>The loop over the buffers: the first descriptor of the list belongs to the first buffer.\<close>

fun data_qtd_loop ::
    "ctrl_ds_segment \<Rightarrow> alternate_qtd_link_ptr \<Rightarrow> mapped_slice list \<Rightarrow> mapped_mem list \<Rightarrow> qtd_store
      \<Rightarrow> qtd_store outcome" where
  "data_qtd_loop seg alt [] qtds qs = Inr qs"
| "data_qtd_loop seg alt (b # bs) (q # n # qtds) qs =
     obind (data_qtd seg alt b n) (\<lambda>in_qtd.
     data_qtd_loop seg alt bs (n # qtds) (qs(mm_ptr q := in_qtd)))"
| "data_qtd_loop seg alt (b # bs) qtds qs = Inl IndexOutOfBounds"

definition transfer_in_start ::
    "loaded_control_endpoint \<Rightarrow> mapped_mem \<Rightarrow> mapped_slice list \<Rightarrow> mapped_mem list
      \<Rightarrow> qtd_store \<times> async_heap \<Rightarrow> (qtd_store \<times> async_heap) outcome" where
  "transfer_in_start ep setup_packet buffers qtds = (\<lambda>(qs, h).
     let seg = lce_ctrl_ds_segment ep
     in if buffers = [] then Inl AssertFailed
        else if length qtds \<noteq> 1 + length buffers + 1 then Inl AssertFailed
        else
          let setup_qtd_mem = qtds ! 0; status_qtd_mem = last qtds
          in obind (write_setup_qtd seg setup_packet setup_qtd_mem (qtds ! 1) qs) (\<lambda>qs1.
             obind (get_addr_offset (phys_addr status_qtd_mem) seg) (\<lambda>status_addr_offset.
             obind (data_qtd_loop seg (AlternateQtdLinkPtr_new_valid status_addr_offset)
                      buffers (tl qtds) qs1) (\<lambda>qs2.
             obind (write_status_qtd status_qtd_mem OutToken qs2) (\<lambda>qs3.
             obind (attach_qtd ep setup_qtd_mem h) (\<lambda>h'.
             Inr (qs3, h')))))))"

definition transfer_no_data_start ::
    "loaded_control_endpoint \<Rightarrow> mapped_mem \<Rightarrow> mapped_mem \<Rightarrow> mapped_mem
      \<Rightarrow> qtd_store \<times> async_heap \<Rightarrow> (qtd_store \<times> async_heap) outcome" where
  "transfer_no_data_start ep setup_packet setup_qtd_mem status_qtd_mem = (\<lambda>(qs, h).
     obind (write_setup_qtd (lce_ctrl_ds_segment ep) setup_packet setup_qtd_mem status_qtd_mem qs) (\<lambda>qs1.
     obind (write_status_qtd status_qtd_mem InToken qs1) (\<lambda>qs2.
     obind (attach_qtd ep setup_qtd_mem h) (\<lambda>h'.
     Inr (qs2, h')))))"

subsection \<open>Waiting\<close>

lemma poll_wait_content:
  "Signal_poll_wait will_wake cx st = (Some v, st', ws) \<Longrightarrow> signal_content st \<noteq> None \<and> st' = SigNone"
  by (cases st) (auto split: if_splits)

function wait_for_qtd_complete_poll ::
    "('w \<Rightarrow> 'w \<Rightarrow> bool) \<Rightarrow> 'w \<Rightarrow> (nat \<Rightarrow> bool) \<Rightarrow> nat \<Rightarrow> (unit, 'w) signal_state
      \<Rightarrow> bool \<times> (unit, 'w) signal_state \<times> 'w list" where
  "wait_for_qtd_complete_poll will_wake cx active k st =
     (if \<not> active k then (True, st, [])
      else case Signal_poll_wait will_wake cx st of
             (Some _, st', _) \<Rightarrow> wait_for_qtd_complete_poll will_wake cx active (k + 1) st'
           | (None, st', ws) \<Rightarrow> (False, st', ws))"
  by pat_completeness auto
termination
  by (relation "measure (\<lambda>(_, _, _, _, st). if signal_content st = None then 0 else 1)")
    (auto dest!: sym [of _ "Signal_poll_wait _ _ _"] poll_wait_content)

declare wait_for_qtd_complete_poll.simps [simp del]

subsection \<open>Counting\<close>

fun transfer_in_finish :: "mapped_slice list \<Rightarrow> mapped_mem list \<Rightarrow> qtd_store \<Rightarrow> u16 \<Rightarrow> u16 outcome" where
  "transfer_in_finish [] qtds qs bytes_transferred = Inr bytes_transferred"
| "transfer_in_finish (b # bs) (q # qtds) qs bytes_transferred =
     (if mm_len b < 2 ^ 16
      then obind (checked_sub (of_nat (mm_len b))
                    (ucast (TransferToken_total_bytes_to_transfer (qtd_token (qs (mm_ptr q)))))) (\<lambda>d.
           obind (checked_add bytes_transferred d) (\<lambda>n.
           transfer_in_finish bs qtds qs n))
      else Inl UnwrapFailed)"
| "transfer_in_finish (b # bs) [] qs bytes_transferred = Inl IndexOutOfBounds"

definition transfer_out :: "'a outcome" where
  "transfer_out = Inl (NotImplemented ''transfer_out'')"

subsection \<open>The chain the controller follows\<close>

definition next_target :: "next_qtd_pointer \<Rightarrow> u32 option" where
  "next_target l =
     (if NextQtdPointer_terminate l then None
      else Some (push_bit 5 (ucast (NextQtdPointer_addr_upper l))))"

definition alternate_target :: "alternate_qtd_link_ptr \<Rightarrow> u32 option" where
  "alternate_target l =
     (if AlternateQtdLinkPtr_terminate l then None
      else Some (push_bit 5 (ucast (AlternateQtdLinkPtr_ptr_upper l))))"

primrec qtd_walk :: "(u32 \<Rightarrow> vptr) \<Rightarrow> qtd_store \<Rightarrow> nat \<Rightarrow> next_qtd_pointer \<Rightarrow> vptr list" where
  "qtd_walk at qs 0 l = []"
| "qtd_walk at qs (Suc n) l =
     (case next_target l of
        None \<Rightarrow> []
      | Some x \<Rightarrow> at x # qtd_walk at qs n (next_qtd_ptr (qs (at x))))"

lemma target_simps [simp]:
  "next_target NextQtdPointer_INVALID = None"
  "aligned32 a \<Longrightarrow> next_target (NextQtdPointer_new_valid a) = Some a"
  "alternate_target AlternateQtdLinkPtr_INVALID = None"
  "aligned32 a \<Longrightarrow> alternate_target (AlternateQtdLinkPtr_new_valid a) = Some a"
  by (simp_all add: next_target_def alternate_target_def NextQtdPointer_INVALID_def
      NextQtdPointer_new_valid_def AlternateQtdLinkPtr_INVALID_def AlternateQtdLinkPtr_new_valid_def
      bitfield_defs bitfield ucast_u27_push_drop aligned32_push_drop)

lemma qtd_walk_chain:
  assumes "successively (\<lambda>p q. next_qtd_ptr (qs p) = NextQtdPointer_new_valid (off q)) (p # ps)"
    and "next_qtd_ptr (qs (last (p # ps))) = NextQtdPointer_INVALID"
    and "\<forall>x \<in> set (p # ps). aligned32 (off x) \<and> at (off x) = x" "length ps < n"
  shows "qtd_walk at qs n (NextQtdPointer_new_valid (off p)) = p # ps"
  using assms
proof (induction ps arbitrary: p n)
  case Nil
  then obtain k where "n = Suc k" by (cases n) auto
  with Nil show ?case by (cases k) simp_all
next
  case (Cons y ps)
  then obtain k where k: "n = Suc k" by (cases n) auto
  have "qtd_walk at qs k (NextQtdPointer_new_valid (off y)) = y # ps"
    using Cons.prems k by (intro Cons.IH) auto
  then show ?case using Cons.prems k by simp
qed

text \<open>Memory the driver may hand to a transfer: a descriptor inside the segment, a buffer the page
  pointers can hold.\<close>

definition qtd_mem_ok :: "(vptr \<Rightarrow> u32) \<Rightarrow> ctrl_ds_segment \<Rightarrow> mapped_mem \<Rightarrow> bool" where
  "qtd_mem_ok off seg q \<longleftrightarrow> aligned32 (off (mm_ptr q))
     \<and> get_addr_offset (phys_addr q) seg = Inr (off (mm_ptr q))"

definition window_ok :: "u64 \<Rightarrow> nat \<Rightarrow> bool" where
  "window_ok p n \<longleftrightarrow> unat (p mod 0x1000) + n \<le> 0x5000 \<and> unat (p - p mod 0x1000) + 0x5000 < 2 ^ 64"

definition data_token :: "nat \<Rightarrow> transfer_token" where
  "data_token n = TransferToken_with_interrupt_on_complete True
     (TransferToken_with_data_toggle True (TransferToken_new_active InToken (of_nat n)))"

definition status_token :: "PidCode \<Rightarrow> transfer_token" where
  "status_token pid = TransferToken_with_interrupt_on_complete True
     (TransferToken_with_data_toggle True (TransferToken_new_active pid 0))"

text \<open>A descriptor as it should be: token, buffer, link.\<close>

definition qtd_is :: "transfer_token \<Rightarrow> u64 \<Rightarrow> nat \<Rightarrow> next_qtd_pointer \<Rightarrow> alternate_qtd_link_ptr \<Rightarrow> qtd \<Rightarrow> bool" where
  "qtd_is tok buf n nxt alt q \<longleftrightarrow> qtd_token q = tok \<and> next_qtd_ptr q = nxt \<and> alternate_next_qtd_ptr q = alt
     \<and> (\<forall>k < n. qtd_byte_addr q k = buf + of_nat k)"

lemma qtd_byte_addr_links [simp]:
  "qtd_byte_addr (q\<lparr>next_qtd_ptr := l\<rparr>) k = qtd_byte_addr q k"
  "qtd_byte_addr (q\<lparr>alternate_next_qtd_ptr := l'\<rparr>) k = qtd_byte_addr q k"
  by (simp_all add: qtd_byte_addr_def qtd_page_def Let_def)

lemma Qtd_new_window:
  assumes "window_ok p n" "of_nat n = len"
  shows "\<exists>bp q. BufferPtrs_new_contiguous p len = Inr bp \<and> Qtd_new t bp = Inr q
    \<and> qtd_is t p n NextQtdPointer_INVALID AlternateQtdLinkPtr_INVALID q"
proof -
  have n: "n \<le> 0x5000" using assms(1) by (simp add: window_ok_def)
  then have "unat len = n" using assms(2) by (auto simp: unat_of_nat take_bit_nat_eq_self)
  then have "len \<le> 0x5000" using n by (simp add: word_le_nat_alt)
  then obtain bp where bp: "BufferPtrs_new_contiguous p len = Inr bp"
    using assms(1) by (auto simp: new_contiguous_Inr_iff window_ok_def)
  obtain q where q: "Qtd_new t bp = Inr q" "qtd_token q = t" "next_qtd_ptr q = NextQtdPointer_INVALID"
      "alternate_next_qtd_ptr q = AlternateQtdLinkPtr_INVALID"
    using Qtd_new_total [OF new_contiguous_length [OF bp]] by blast
  have "qtd_byte_addr q k = p + of_nat k" if "k < n" for k
    using that assms(1) by (intro qtd_byte_addr_contiguous [OF bp q(1)]) (simp add: window_ok_def)
  with bp q show ?thesis by (auto simp: qtd_is_def)
qed

lemma write_setup_qtd_ok:
  assumes "window_ok (phys_addr sp) 8" "qtd_mem_ok off seg n"
  shows "\<exists>q. write_setup_qtd seg sp s n qs = Inr (qs(mm_ptr s := q))
    \<and> qtd_is (TransferToken_new_active SetupToken 8) (phys_addr sp) 8
         (NextQtdPointer_new_valid (off (mm_ptr n))) AlternateQtdLinkPtr_INVALID q"
proof -
  obtain bp q where "BufferPtrs_new_contiguous (phys_addr sp) 8 = Inr bp"
      "Qtd_new (TransferToken_new_active SetupToken 8) bp = Inr q"
      "qtd_is (TransferToken_new_active SetupToken 8) (phys_addr sp) 8
         NextQtdPointer_INVALID AlternateQtdLinkPtr_INVALID q"
    using Qtd_new_window [OF assms(1), of 8 "TransferToken_new_active SetupToken 8"] by auto
  then show ?thesis
    using assms(2) by (auto simp: write_setup_qtd_def qtd_mem_ok_def uint_new_def qtd_is_def)
qed

lemma write_status_qtd_ok:
  "\<exists>q. write_status_qtd s pid qs = Inr (qs(mm_ptr s := q))
    \<and> qtd_is (status_token pid) buf 0 NextQtdPointer_INVALID AlternateQtdLinkPtr_INVALID q"
  using Qtd_new_total [of BufferPtrs_ZERO "status_token pid"]
  by (auto simp: write_status_qtd_def status_token_def qtd_is_def)

lemma data_qtd_ok:
  assumes "mm_len b < 2 ^ 15" "window_ok (phys_addr b) (mm_len b)" "qtd_mem_ok off seg n"
  shows "\<exists>q. data_qtd seg alt b n = Inr q
    \<and> qtd_is (data_token (mm_len b)) (phys_addr b) (mm_len b) (NextQtdPointer_new_valid (off (mm_ptr n))) alt q"
proof -
  obtain bp q where "BufferPtrs_new_contiguous (phys_addr b) (of_nat (mm_len b)) = Inr bp"
      "Qtd_new (data_token (mm_len b)) bp = Inr q"
      "qtd_is (data_token (mm_len b)) (phys_addr b) (mm_len b) NextQtdPointer_INVALID AlternateQtdLinkPtr_INVALID q"
    using Qtd_new_window [OF assms(2) refl, of "data_token (mm_len b)"] by auto
  then show ?thesis
    using assms(1,3) by (auto simp: data_qtd_def qtd_mem_ok_def uint_new_def qtd_is_def data_token_def)
qed

definition buffer_ok :: "mapped_slice \<Rightarrow> bool" where
  "buffer_ok b \<longleftrightarrow> mm_len b < 2 ^ 15 \<and> window_ok (phys_addr b) (mm_len b)"

definition data_qtd_is ::
    "(vptr \<Rightarrow> u32) \<Rightarrow> alternate_qtd_link_ptr \<Rightarrow> mapped_slice \<Rightarrow> mapped_mem \<Rightarrow> qtd \<Rightarrow> bool" where
  "data_qtd_is off alt b n q \<longleftrightarrow>
     qtd_is (data_token (mm_len b)) (phys_addr b) (mm_len b) (NextQtdPointer_new_valid (off (mm_ptr n))) alt q"

lemma data_qtd_loop_ok:
  assumes "list_all buffer_ok bs" "length qtds = length bs + 1" "distinct (map mm_ptr qtds)"
    and "list_all (qtd_mem_ok off seg) qtds"
  shows "\<exists>qs'. data_qtd_loop seg alt bs qtds qs = Inr qs'
    \<and> (\<forall>x. x \<notin> mm_ptr ` set (butlast qtds) \<longrightarrow> qs' x = qs x)
    \<and> (\<forall>i < length bs. data_qtd_is off alt (bs ! i) (qtds ! Suc i) (qs' (mm_ptr (qtds ! i))))"
  using assms
proof (induction bs arbitrary: qtds qs)
  case Nil
  then show ?case by simp
next
  case (Cons b bs)
  then obtain q n rest where qtds: "qtds = q # n # rest"
    by (metis (no_types) Suc_eq_plus1 length_Suc_conv list.size(4))
  obtain d where d: "data_qtd seg alt b n = Inr d" "data_qtd_is off alt b n d"
    using data_qtd_ok [of b off seg n alt] Cons.prems by (auto simp: qtds buffer_ok_def data_qtd_is_def)
  have rest: "list_all buffer_ok bs" "length (n # rest) = length bs + 1" "distinct (map mm_ptr (n # rest))"
      "list_all (qtd_mem_ok off seg) (n # rest)"
    using Cons.prems by (simp_all add: qtds)
  obtain qs' where qs': "data_qtd_loop seg alt bs (n # rest) (qs(mm_ptr q := d)) = Inr qs'"
      "\<forall>x. x \<notin> mm_ptr ` set (butlast (n # rest)) \<longrightarrow> qs' x = (qs(mm_ptr q := d)) x"
      "\<forall>i < length bs. data_qtd_is off alt (bs ! i) ((n # rest) ! Suc i) (qs' (mm_ptr ((n # rest) ! i)))"
    using Cons.IH [of "n # rest" "qs(mm_ptr q := d)", OF rest] by blast
  have "mm_ptr q \<notin> mm_ptr ` set (n # rest)" using Cons.prems(3) by (auto simp: qtds)
  then have fresh: "mm_ptr q \<notin> mm_ptr ` set (butlast (n # rest))"
    using in_set_butlastD by fastforce
  then have "qs' (mm_ptr q) = d" using qs'(2) by simp
  then have "\<forall>i < length (b # bs). data_qtd_is off alt ((b # bs) ! i) (qtds ! Suc i) (qs' (mm_ptr (qtds ! i)))"
    using qs'(3) d(2) by (auto simp: qtds less_Suc_eq_0_disj)
  moreover have "\<forall>x. x \<notin> mm_ptr ` set (butlast qtds) \<longrightarrow> qs' x = qs x"
    using qs'(2) by (auto simp: qtds)
  ultimately show ?case using d(1) qs'(1) by (auto simp: qtds)
qed

lemma attach_qtd_ok:
  assumes "qtd_mem_ok off (lce_ctrl_ds_segment ep) q"
  shows "\<exists>h'. attach_qtd ep q h = Inr h'
    \<and> next_qtd_pointer (qha_qh (h' (lce_qh ep))) = NextQtdPointer_new_valid (off (mm_ptr q))
    \<and> transfer_token (qha_qh (h' (lce_qh ep))) = 0
    \<and> (\<forall>x. hlink h' x = hlink h x \<and> qha_next (h' x) = qha_next (h x) \<and> qha_prev (h' x) = qha_prev (h x))"
  using assms by (auto simp: attach_qtd_def qtd_mem_ok_def Let_def)

definition transfer_resources_ok ::
    "(vptr \<Rightarrow> u32) \<Rightarrow> (u32 \<Rightarrow> vptr) \<Rightarrow> ctrl_ds_segment \<Rightarrow> mapped_mem \<Rightarrow> mapped_slice list \<Rightarrow> mapped_mem list \<Rightarrow> bool" where
  "transfer_resources_ok off at seg sp buffers qtds \<longleftrightarrow>
     window_ok (phys_addr sp) 8 \<and> list_all buffer_ok buffers
     \<and> length qtds = length buffers + 2 \<and> distinct (map mm_ptr qtds)
     \<and> list_all (qtd_mem_ok off seg) qtds \<and> list_all (\<lambda>q. at (off (mm_ptr q)) = mm_ptr q) qtds"

lemma transfer_in_start_chain:
  assumes "transfer_resources_ok off at (lce_ctrl_ds_segment ep) sp buffers qtds" "buffers \<noteq> []"
  shows "\<exists>qs' h'. transfer_in_start ep sp buffers qtds (qs, h) = Inr (qs', h')
    \<and> qtd_walk at qs' (length qtds) (next_qtd_pointer (qha_qh (h' (lce_qh ep)))) = map mm_ptr qtds
    \<and> transfer_token (qha_qh (h' (lce_qh ep))) = 0
    \<and> qtd_is (TransferToken_new_active SetupToken 8) (phys_addr sp) 8
        (NextQtdPointer_new_valid (off (mm_ptr (qtds ! 1)))) AlternateQtdLinkPtr_INVALID (qs' (mm_ptr (hd qtds)))
    \<and> (\<forall>i < length buffers. data_qtd_is off (AlternateQtdLinkPtr_new_valid (off (mm_ptr (last qtds))))
          (buffers ! i) (qtds ! (i + 2)) (qs' (mm_ptr (qtds ! (i + 1)))))
    \<and> qtd_token (qs' (mm_ptr (last qtds))) = status_token OutToken
    \<and> (\<forall>x. hlink h' x = hlink h x \<and> qha_next (h' x) = qha_next (h x) \<and> qha_prev (h' x) = qha_prev (h x))"
proof -
  let ?seg = "lce_ctrl_ds_segment ep"
  note ok = assms(1) [unfolded transfer_resources_ok_def]
  obtain s ds where qtds: "qtds = s # ds" using ok by (cases qtds) auto
  have ds: "length ds = length buffers + 1" "ds \<noteq> []" using ok by (auto simp: qtds)
  define st where "st = last ds"
  have split: "ds = butlast ds @ [st]" using ds(2) by (simp add: st_def)
  have mem: "list_all (qtd_mem_ok off ?seg) ds" "qtd_mem_ok off ?seg s" "qtd_mem_ok off ?seg st"
    "qtd_mem_ok off ?seg (hd ds)"
    using ok ds(2) by (auto simp: qtds list_all_iff st_def)
  obtain q0 where q0: "write_setup_qtd ?seg sp s (hd ds) qs = Inr (qs(mm_ptr s := q0))"
      "qtd_is (TransferToken_new_active SetupToken 8) (phys_addr sp) 8
         (NextQtdPointer_new_valid (off (mm_ptr (hd ds)))) AlternateQtdLinkPtr_INVALID q0"
    using write_setup_qtd_ok [OF _ mem(4), of sp s qs] ok by blast
  let ?alt = "AlternateQtdLinkPtr_new_valid (off (mm_ptr st))"
  obtain qs2 where qs2: "data_qtd_loop ?seg ?alt buffers ds (qs(mm_ptr s := q0)) = Inr qs2"
      "\<forall>x. x \<notin> mm_ptr ` set (butlast ds) \<longrightarrow> qs2 x = (qs(mm_ptr s := q0)) x"
      "\<forall>i < length buffers. data_qtd_is off ?alt (buffers ! i) (ds ! Suc i) (qs2 (mm_ptr (ds ! i)))"
    using data_qtd_loop_ok [of buffers ds off ?seg ?alt "qs(mm_ptr s := q0)"] ok ds mem(1) by (auto simp: qtds)
  obtain qn where qn: "write_status_qtd st OutToken qs2 = Inr (qs2(mm_ptr st := qn))"
      "qtd_is (status_token OutToken) 0 0 NextQtdPointer_INVALID AlternateQtdLinkPtr_INVALID qn"
    using write_status_qtd_ok by blast
  obtain h' where h': "attach_qtd ep s h = Inr h'"
      "next_qtd_pointer (qha_qh (h' (lce_qh ep))) = NextQtdPointer_new_valid (off (mm_ptr s))"
      "transfer_token (qha_qh (h' (lce_qh ep))) = 0"
      "\<forall>x. hlink h' x = hlink h x \<and> qha_next (h' x) = qha_next (h x) \<and> qha_prev (h' x) = qha_prev (h x)"
    using attach_qtd_ok [OF mem(2)] by blast
  let ?qs = "qs2(mm_ptr st := qn)"
  have d: "distinct (map mm_ptr (s # butlast ds @ [st]))" using ok split by (metis qtds)
  then have fresh: "mm_ptr s \<notin> mm_ptr ` set (butlast ds)" "mm_ptr s \<noteq> mm_ptr st"
      "mm_ptr st \<notin> mm_ptr ` set (butlast ds)" by auto
  have setup_at: "?qs (mm_ptr s) = q0" using qs2(2) fresh by simp
  have data_at: "data_qtd_is off ?alt (buffers ! i) (ds ! Suc i) (?qs (mm_ptr (ds ! i)))"
    if "i < length buffers" for i
  proof -
    have "ds ! i = butlast ds ! i" "butlast ds ! i \<in> set (butlast ds)"
      using that ds(1) nth_mem [of i "butlast ds"] by (simp_all add: nth_butlast)
    then have "mm_ptr (ds ! i) \<noteq> mm_ptr st" using fresh(3) by (metis imageI)
    then show ?thesis using qs2(3) that by simp
  qed
  have "successively (\<lambda>p q. next_qtd_ptr (?qs p) = NextQtdPointer_new_valid (off q)) (map mm_ptr ds)"
    unfolding successively_conv_nth using data_at ds(1) by (auto simp: data_qtd_is_def qtd_is_def)
  then have "successively (\<lambda>p q. next_qtd_ptr (?qs p) = NextQtdPointer_new_valid (off q)) (map mm_ptr (s # ds))"
    using setup_at q0(2) ds(2) by (cases ds) (auto simp: qtd_is_def)
  moreover have "last (map mm_ptr (s # ds)) = mm_ptr st" using ds(2) by (simp add: st_def last_map)
  ultimately have "qtd_walk at ?qs (length qtds) (NextQtdPointer_new_valid (off (mm_ptr s))) = map mm_ptr qtds"
    using qtd_walk_chain [of ?qs off "mm_ptr s" "map mm_ptr ds" at "length qtds"] ok qn(2)
    by (auto simp: qtds qtd_is_def list_all_iff qtd_mem_ok_def)
  moreover have "transfer_in_start ep sp buffers qtds (qs, h) = Inr (?qs, h')"
    using assms(2) ds q0(1) qs2(1) qn(1) h'(1) mem(3)
    by (auto simp: transfer_in_start_def qtds Let_def st_def hd_conv_nth qtd_mem_ok_def)
  moreover have "qtds ! 1 = hd ds" "last qtds = st" using ds(2) by (simp_all add: qtds st_def hd_conv_nth)
  ultimately show ?thesis
    using h' setup_at q0(2) data_at qn(2) by (auto simp: qtds qtd_is_def)
qed


definition example_qtd :: qtd where
  "example_qtd = \<lparr>next_qtd_ptr = 1, alternate_next_qtd_ptr = 1, qtd_token = 0, buffer_pointer_page_0 = 0,
     buffer_pointer_page_1 = 0, buffer_pointer_page_2 = 0, buffer_pointer_page_3 = 0, buffer_pointer_page_4 = 0,
     extended_buffer_ptr_page_0 = 0, extended_buffer_ptr_page_1 = 0, extended_buffer_ptr_page_2 = 0,
     extended_buffer_ptr_page_3 = 0, extended_buffer_ptr_page_4 = 0\<rparr>"

definition example_ep0 :: loaded_control_endpoint where
  "example_ep0 = \<lparr>lce_qh = 0x40, lce_ctrl_ds_segment = LOWER_4_G\<rparr>"

lemma example_resources_ok:
  "transfer_resources_ok ucast ucast LOWER_4_G (example_mem 0x400) [cast_slice 18 (example_mem 0x1000)]
     [example_mem 0x100, example_mem 0x200, example_mem 0x300]"
  by (simp add: transfer_resources_ok_def window_ok_def buffer_ok_def cast_slice_def qtd_mem_ok_def
      aligned32_def get_addr_offset_def LOWER_4_G_def)


lemma transfer_no_data_start_chain:
  assumes "window_ok (phys_addr sp) 8" "qtd_mem_ok off (lce_ctrl_ds_segment ep) s"
    and "qtd_mem_ok off (lce_ctrl_ds_segment ep) st" "mm_ptr s \<noteq> mm_ptr st"
    and "at (off (mm_ptr s)) = mm_ptr s" "at (off (mm_ptr st)) = mm_ptr st"
  shows "\<exists>qs' h'. transfer_no_data_start ep sp s st (qs, h) = Inr (qs', h')
    \<and> qtd_walk at qs' 2 (next_qtd_pointer (qha_qh (h' (lce_qh ep)))) = [mm_ptr s, mm_ptr st]
    \<and> qtd_is (TransferToken_new_active SetupToken 8) (phys_addr sp) 8
        (NextQtdPointer_new_valid (off (mm_ptr st))) AlternateQtdLinkPtr_INVALID (qs' (mm_ptr s))
    \<and> qtd_token (qs' (mm_ptr st)) = status_token InToken
    \<and> transfer_token (qha_qh (h' (lce_qh ep))) = 0"
proof -
  obtain q0 where q0: "write_setup_qtd (lce_ctrl_ds_segment ep) sp s st qs = Inr (qs(mm_ptr s := q0))"
      "qtd_is (TransferToken_new_active SetupToken 8) (phys_addr sp) 8
         (NextQtdPointer_new_valid (off (mm_ptr st))) AlternateQtdLinkPtr_INVALID q0"
    using write_setup_qtd_ok [OF assms(1,3)] by blast
  obtain q1 where q1: "write_status_qtd st InToken (qs(mm_ptr s := q0)) = Inr ((qs(mm_ptr s := q0))(mm_ptr st := q1))"
      "qtd_is (status_token InToken) 0 0 NextQtdPointer_INVALID AlternateQtdLinkPtr_INVALID q1"
    using write_status_qtd_ok by blast
  obtain h' where h': "attach_qtd ep s h = Inr h'"
      "next_qtd_pointer (qha_qh (h' (lce_qh ep))) = NextQtdPointer_new_valid (off (mm_ptr s))"
      "transfer_token (qha_qh (h' (lce_qh ep))) = 0"
    using attach_qtd_ok [OF assms(2)] by blast
  let ?qs = "(qs(mm_ptr s := q0))(mm_ptr st := q1)"
  have "qtd_walk at ?qs 2 (NextQtdPointer_new_valid (off (mm_ptr s))) = [mm_ptr s, mm_ptr st]"
    using qtd_walk_chain [of ?qs off "mm_ptr s" "[mm_ptr st]" at 2] assms q0(2) q1(2)
    by (auto simp: qtd_is_def qtd_mem_ok_def)
  with q0 q1 h' assms(4) show ?thesis
    by (auto simp: transfer_no_data_start_def qtd_is_def)
qed

text \<open>A control transfer without data stage is the chain of a setup and an IN status stage.\<close>

theorem transfer_no_data_builds_chain:
  assumes "window_ok (phys_addr sp) 8" "qtd_mem_ok off (lce_ctrl_ds_segment ep) s"
    and "qtd_mem_ok off (lce_ctrl_ds_segment ep) st" "mm_ptr s \<noteq> mm_ptr st"
    and "at (off (mm_ptr s)) = mm_ptr s" "at (off (mm_ptr st)) = mm_ptr st"
  shows "\<exists>qs' h'. transfer_no_data_start ep sp s st (qs, h) = Inr (qs', h')
    \<and> qtd_walk at qs' 2 (next_qtd_pointer (qha_qh (h' (lce_qh ep)))) = [mm_ptr s, mm_ptr st]
    \<and> qtd_is (TransferToken_new_active SetupToken 8) (phys_addr sp) 8
        (NextQtdPointer_new_valid (off (mm_ptr st))) AlternateQtdLinkPtr_INVALID (qs' (mm_ptr s))
    \<and> qtd_token (qs' (mm_ptr st)) = status_token InToken
    \<and> transfer_token (qha_qh (h' (lce_qh ep))) = 0"
  using assms by (rule transfer_no_data_start_chain)

theorem transfer_no_data_builds_chain_witness:
  "\<exists>qs' h'. transfer_no_data_start example_ep0 (example_mem 0x400) (example_mem 0x100) (example_mem 0x200)
       (\<lambda>_. example_qtd, example_heap) = Inr (qs', h')
     \<and> qtd_walk ucast qs' 2 (next_qtd_pointer (qha_qh (h' 0x40))) = [0x100, 0x200]"
proof -
  have "\<exists>qs' h'. transfer_no_data_start example_ep0 (example_mem 0x400) (example_mem 0x100) (example_mem 0x200)
       (\<lambda>_. example_qtd, example_heap) = Inr (qs', h')
    \<and> qtd_walk ucast qs' 2 (next_qtd_pointer (qha_qh (h' (lce_qh example_ep0))))
        = [mm_ptr (example_mem 0x100), mm_ptr (example_mem 0x200)]"
    using transfer_no_data_builds_chain [of "example_mem 0x400" ucast example_ep0 "example_mem 0x100"
        "example_mem 0x200" ucast "\<lambda>_. example_qtd" example_heap]
    by (auto simp: window_ok_def qtd_mem_ok_def aligned32_def get_addr_offset_def LOWER_4_G_def example_ep0_def)
  then show ?thesis by (simp add: example_ep0_def)
qed

subsection \<open>Waiting and counting\<close>

text \<open>Waiting for a descriptor cannot miss its completion: a poll always returns; when it is ready,
  it has read the descriptor as inactive, and when it is pending, the last read was still active and
  the interrupt signal holds a waker of this task, so that the next interrupt wakes it for another
  look - even when the completion comes between the read and the registration.\<close>

theorem wait_for_qtd_complete_misses_nothing:
  "case wait_for_qtd_complete_poll will_wake cx active k st of
     (ready, st', ws) \<Rightarrow>
       if ready then \<exists>j \<ge> k. \<not> active j
       else (\<exists>j \<ge> k. active j) \<and> (\<exists>w. (w = cx \<or> will_wake w cx) \<and> Signal_signal () st' = (SigSignaled (), [w]))"
proof (induction will_wake cx active k st rule: wait_for_qtd_complete_poll.induct)
  case (1 will_wake cx active k st)
  show ?case
  proof (cases "active k")
    case False
    then show ?thesis by (subst wait_for_qtd_complete_poll.simps) auto
  next
    case True
    obtain r st' ws where p: "Signal_poll_wait will_wake cx st = (r, st', ws)"
      using prod_cases3 by blast
    show ?thesis
    proof (cases r)
      case None
      then have "\<exists>w. (w = cx \<or> will_wake w cx) \<and> Signal_signal () st' = (SigSignaled (), [w])"
        using p by (cases st) (auto split: if_splits)
      with True None p show ?thesis by (subst wait_for_qtd_complete_poll.simps) auto
    next
      case (Some u)
      then have eq: "wait_for_qtd_complete_poll will_wake cx active k st
          = wait_for_qtd_complete_poll will_wake cx active (k + 1) st'"
        using True p by (subst wait_for_qtd_complete_poll.simps) simp
      have "case wait_for_qtd_complete_poll will_wake cx active (k + 1) st' of
         (ready, st', ws) \<Rightarrow>
           if ready then \<exists>j \<ge> k + 1. \<not> active j
           else (\<exists>j \<ge> k + 1. active j)
             \<and> (\<exists>w. (w = cx \<or> will_wake w cx) \<and> Signal_signal () st' = (SigSignaled (), [w]))"
        using "1.IH" True p Some by auto
      then show ?thesis
        unfolding eq by (auto split: prod.splits if_splits) (meson Suc_leD)+
    qed
  qed
qed

definition received :: "mapped_slice list \<Rightarrow> mapped_mem list \<Rightarrow> qtd_store \<Rightarrow> nat" where
  "received bs qtds qs =
     (\<Sum>(b, q) \<leftarrow> zip bs qtds.
        mm_len b - unat (TransferToken_total_bytes_to_transfer (qtd_token (qs (mm_ptr q)))))"

lemma transfer_in_finish_received:
  assumes "length bs \<le> length qtds" "list_all (\<lambda>b. mm_len b < 2 ^ 16) bs"
    and "list_all2 (\<lambda>b q. unat (TransferToken_total_bytes_to_transfer (qtd_token (qs (mm_ptr q)))) \<le> mm_len b)
           bs (take (length bs) qtds)"
    and "unat n + received bs qtds qs < 2 ^ 16"
  shows "transfer_in_finish bs qtds qs n = Inr (n + of_nat (received bs qtds qs))"
  using assms
proof (induction bs qtds qs n rule: transfer_in_finish.induct)
  case (2 b bs q qtds qs n)
  define rem where "rem = TransferToken_total_bytes_to_transfer (qtd_token (qs (mm_ptr q)))"
  let ?d = "of_nat (mm_len b) - ucast rem :: u16"
  have "unat rem < 2 ^ 15" using unsigned_less [of rem, where 'a = nat] by simp
  then have u: "unat (of_nat (mm_len b) :: u16) = mm_len b" "unat (ucast rem :: u16) = unat rem"
    using "2.prems"(2)
    by (simp_all add: unat_of_nat take_bit_nat_eq_self unsigned_ucast_eq)
  have le: "unat rem \<le> mm_len b" using "2.prems"(3) by (simp add: rem_def)
  then have sub: "checked_sub (of_nat (mm_len b)) (ucast rem) = Inr ?d"
    and ud: "unat ?d = mm_len b - unat rem"
    using u by (simp_all add: checked_sub_def word_le_nat_alt unat_sub)
  have rec: "received (b # bs) (q # qtds) qs = (mm_len b - unat rem) + received bs qtds qs"
    by (simp add: received_def rem_def)
  have add: "checked_add n ?d = Inr (n + ?d)" and un: "unat (n + ?d) = unat n + (mm_len b - unat rem)"
    using "2.prems"(4) rec ud unat_word_ariths(1) [of n ?d] by (simp_all add: checked_add_def)
  have "transfer_in_finish bs qtds qs (n + ?d) = Inr (n + ?d + of_nat (received bs qtds qs))"
    using "2.prems" rec un sub add by (intro "2.IH") (auto simp: rem_def)
  moreover have "?d = of_nat (mm_len b - unat rem)"
    using ud by (metis of_nat_unat ucast_id)
  ultimately show ?case
    using "2.prems"(2) sub add rec by (simp add: rem_def add.assoc)
qed (auto simp: received_def)

text \<open>C39: The number of bytes a transfer reports is the sum over the data descriptors of what was asked for
  minus what the controller left; it is computed without overflow whenever that sum fits 16 bits and
  the controller never leaves more than was asked.\<close>

theorem transfer_in_counts_bytes:
  assumes "length bs \<le> length qtds" "list_all (\<lambda>b. mm_len b < 2 ^ 16) bs"
    and "list_all2 (\<lambda>b q. unat (TransferToken_total_bytes_to_transfer (qtd_token (qs (mm_ptr q)))) \<le> mm_len b)
           bs (take (length bs) qtds)"
    and "unat n + received bs qtds qs < 2 ^ 16"
  shows "transfer_in_finish bs qtds qs n = Inr (n + of_nat (received bs qtds qs))"
  using assms by (rule transfer_in_finish_received)

theorem transfer_in_counts_bytes_witness:
  "transfer_in_finish [cast_slice 18 (example_mem 0x1000)] [example_mem 0x200]
     (\<lambda>_. example_qtd\<lparr>qtd_token := TransferToken_new_active InToken 10\<rparr>) 0 = Inr 8"
  using transfer_in_counts_bytes [of "[cast_slice 18 (example_mem 0x1000)]" "[example_mem 0x200]"
      "\<lambda>_. example_qtd\<lparr>qtd_token := TransferToken_new_active InToken 10\<rparr>" 0]
  by (simp add: cast_slice_def received_def)

text \<open>A control endpoint that is loaded is inert: the queue head handed to the runner is halted, leads to no
  descriptor, addresses the device and endpoint it was made for, and the request the runner will
  take is that queue head; no other queue head in memory is touched.\<close>

theorem control_load_is_inert:
  "\<exists>ep' h' sh' woken. ControlEndpoint_load ep m (h, sh) = Inr (ep', (h', sh'), woken)
    \<and> signal_content (ces_req_signal sh') = Some m \<and> lce_qh ep' = mm_ptr m
    \<and> TransferToken_halted (transfer_token (qha_qh (h' (mm_ptr m))))
    \<and> next_target (next_qtd_pointer (qha_qh (h' (mm_ptr m)))) = None
    \<and> EndpointCharacteristics_device_addr (endpoint_characteristics (qha_qh (h' (mm_ptr m)))) = ce_device_address ep
    \<and> EndpointCharacteristics_endpoint_number (endpoint_characteristics (qha_qh (h' (mm_ptr m)))) = ce_endpoint_number ep
    \<and> EndpointCharacteristics_max_packet_len (endpoint_characteristics (qha_qh (h' (mm_ptr m)))) = 64
    \<and> h' = h(mm_ptr m := h' (mm_ptr m))"
proof -
  obtain st ws where s: "Signal_signal m (ces_req_signal sh) = (st, ws)" by fastforce
  then have "signal_content st = Some m" by (cases "ces_req_signal sh") auto
  with s show ?thesis
    by (simp add: ControlEndpoint_load_def control_qh_def uint_new_def Let_def Qh_new_def
        bitfield_defs bitfield next_target_def NextQtdPointer_INVALID_def)
qed

end
