(* ===== verification/Periodic_List.thy ===== *)
theory Periodic_List
  imports Transfer_Structs
begin

text \<open>
  The periodic schedule (\<^verbatim>\<open>periodic_list_manager.rs\<close>): the frame list of 1024 elements the
  controller indexes by frame number, and one doubly linked list of interrupt queue heads behind
  it.  The memory of the queue heads is a store from virtual addresses to \<open>qh_with_meta_p\<close>, written
  field by field in the order of the source.  \<open>plist\<close> is the invariant of the list, \<open>frame_visits\<close>
  what the controller meets in a frame.
\<close>

subsection \<open>Intervals\<close>

record normalized_interval =
  micro_frames_power :: u4

definition from_micro_frames_power :: "u4 \<Rightarrow> normalized_interval outcome" where
  "from_micro_frames_power p =
     (if p < 13 then Inr \<lparr>micro_frames_power = p\<rparr> else Inl AssertFailed)"

text \<open>\<^verbatim>\<open>u16::ilog2\<close>: the index of the highest bit; it panics on 0.\<close>

function ilog2 :: "nat \<Rightarrow> nat" where
  "ilog2 n = (if n < 2 then 0 else Suc (ilog2 (n div 2)))"
  by auto
termination by (relation "measure id") auto

declare ilog2.simps [simp del]

definition from_micro_frames_interval :: "u16 \<Rightarrow> normalized_interval outcome" where
  "from_micro_frames_interval i =
     (if i \<ge> 1024 * 8 then obind (uint_new 13) (\<lambda>p. Inr \<lparr>micro_frames_power = p\<rparr>)
      else if i = 0 then Inl (ExplicitPanic ''ilog2'')
      else obind (uint_new (ilog2 (unat i))) (\<lambda>p. Inr \<lparr>micro_frames_power = p\<rparr>))"

text \<open>\<^verbatim>\<open>saturating_sub\<close>.\<close>

definition frames_power :: "normalized_interval \<Rightarrow> u4" where
  "frames_power iv = (if 3 \<le> micro_frames_power iv then micro_frames_power iv - 3 else 0)"

definition frames :: "normalized_interval \<Rightarrow> u11 outcome" where
  "frames iv = uint_new (2 ^ unat (frames_power iv))"

subsection \<open>Queue heads in memory\<close>

record qh_with_meta_p =
  qhp_qh :: qh
  qhp_prev :: "vptr option"
  qhp_next :: "vptr option"
  qhp_interval :: normalized_interval

type_synonym periodic_heap = "vptr \<Rightarrow> qh_with_meta_p"

abbreviation plink :: "periodic_heap \<Rightarrow> vptr \<Rightarrow> qh_horizontal_link_ptr" where
  "plink h p \<equiv> horizontal_link_ptr (qhp_qh (h p))"

definition write_plink :: "vptr \<Rightarrow> qh_horizontal_link_ptr \<Rightarrow> periodic_heap \<Rightarrow> periodic_heap" where
  "write_plink p l h = h(p := (h p)\<lparr>qhp_qh := (qhp_qh (h p))\<lparr>horizontal_link_ptr := l\<rparr>\<rparr>)"

definition write_pprev :: "vptr \<Rightarrow> vptr option \<Rightarrow> periodic_heap \<Rightarrow> periodic_heap" where
  "write_pprev p q h = h(p := (h p)\<lparr>qhp_prev := q\<rparr>)"

definition write_pnext :: "vptr \<Rightarrow> vptr option \<Rightarrow> periodic_heap \<Rightarrow> periodic_heap" where
  "write_pnext p q h = h(p := (h p)\<lparr>qhp_next := q\<rparr>)"

definition write_pinterval :: "vptr \<Rightarrow> normalized_interval \<Rightarrow> periodic_heap \<Rightarrow> periodic_heap" where
  "write_pinterval p iv h = h(p := (h p)\<lparr>qhp_interval := iv\<rparr>)"

definition update_pcapabilities ::
    "vptr \<Rightarrow> (endpoint_capabilities \<Rightarrow> endpoint_capabilities) \<Rightarrow> periodic_heap \<Rightarrow> periodic_heap" where
  "update_pcapabilities p f h =
     h(p := (h p)\<lparr>qhp_qh := (qhp_qh (h p))\<lparr>endpoint_capabilities := f (endpoint_capabilities (qhp_qh (h p)))\<rparr>\<rparr>)"

subsection \<open>The manager\<close>

record periodic_list_manager =
  plm_list :: periodic_frame_list
  plm_qhs :: "mapped_mem option list"
  plm_first_qh :: "mapped_mem option"
  plm_ctrl_ds_segment :: ctrl_ds_segment

definition PeriodicListManager_new :: "periodic_frame_list \<Rightarrow> ctrl_ds_segment \<Rightarrow> periodic_list_manager" where
  "PeriodicListManager_new l seg =
     \<lparr>plm_list = l, plm_qhs = replicate 11 None, plm_first_qh = None, plm_ctrl_ds_segment = seg\<rparr>"

definition s_mask :: "normalized_interval \<Rightarrow> u8" where
  "s_mask iv =
     (if micro_frames_power iv = 0 then 0b11111111
      else if micro_frames_power iv = 1 then 0b01010101
      else if micro_frames_power iv = 2 then 0b00010001
      else 0b00000001)"

text \<open>The branch for an interval that already has a queue head.\<close>

definition add_after_existing ::
    "mapped_mem \<Rightarrow> nat \<Rightarrow> mapped_mem \<Rightarrow> periodic_list_manager \<times> periodic_heap
      \<Rightarrow> (periodic_list_manager \<times> periodic_heap) outcome" where
  "add_after_existing q qh_index existing = (\<lambda>(m, h).
     let qh_ptr = mm_ptr q;
         existing_qh_ptr = mm_ptr existing;
         next_phys = plink h existing_qh_ptr;
         h1 = write_plink qh_ptr next_phys h
     in obind (get_addr_offset (phys_addr q) (plm_ctrl_ds_segment m)) (\<lambda>off.
        let h2 = write_plink existing_qh_ptr (QhHorizontalLinkPtr_new Qh off) h1;
            h3 = write_pnext qh_ptr (qhp_next (h2 existing_qh_ptr)) h2;
            h4 = write_pprev qh_ptr (Some existing_qh_ptr) h3;
            h5 = (case qhp_next (h4 qh_ptr) of
                    None \<Rightarrow> h4
                  | Some next_qh_ptr \<Rightarrow> write_pprev next_qh_ptr (Some qh_ptr) h4);
            h6 = write_pnext existing_qh_ptr (Some qh_ptr) h5
        in Inr (m\<lparr>plm_qhs := (plm_qhs m)[qh_index := Some q]\<rparr>, h6)))"

text \<open>\<^verbatim>\<open>iter().enumerate().take(n).find_map(|(index, qh)| Some((index, qh?)))\<close>.\<close>

primrec find_first :: "nat \<Rightarrow> 'a option list \<Rightarrow> (nat \<times> 'a) option" where
  "find_first i [] = None"
| "find_first i (x # xs) = (case x of Some q \<Rightarrow> Some (i, q) | None \<Rightarrow> find_first (Suc i) xs)"

text \<open>
  The two loops over the frame list, \<^verbatim>\<open>while periodic_list_index < 1024\<close>, that advance by
  \<^verbatim>\<open>interval.frames()\<close>, which is \<open>2 ^ k\<close>; \<open>cond\<close> tells at which indices the element is written.
\<close>

function slot_loop ::
    "(nat \<Rightarrow> bool) \<Rightarrow> nat \<Rightarrow> periodic_frame_list_element \<Rightarrow> nat \<Rightarrow> periodic_frame_list
      \<Rightarrow> periodic_frame_list" where
  "slot_loop cond k e i l =
     (if i < 1024
      then slot_loop cond k e (i + 2 ^ k) (if cond i then l[i := e] else l)
      else l)"
  by auto
termination
proof (relation "measure (\<lambda>(_, _, _, i, _). 1024 - i)", goal_cases)
  case (2 cond k e i l)
  have "0 < (2 :: nat) ^ k" by simp
  with 2 have "1024 - (i + 2 ^ k) < 1024 - i" by linarith
  then show ?case by simp
qed simp

declare slot_loop.simps [simp del]

definition next_qh_of ::
    "(nat \<times> mapped_mem) option \<Rightarrow> periodic_list_manager \<times> periodic_heap
      \<Rightarrow> (u32 \<times> vptr) option outcome" where
  "next_qh_of prev_qh_power = (\<lambda>(m, h).
     case prev_qh_power of
       Some (_, prev_qh) \<Rightarrow>
         (case QhHorizontalLinkPtr_ptr (plink h (mm_ptr prev_qh)) of
            Some ptr \<Rightarrow> obind (unwrap_opt (qhp_next (h (mm_ptr prev_qh)))) (\<lambda>n. Inr (Some (ptr, n)))
          | None \<Rightarrow> Inr None)
     | None \<Rightarrow>
         (case plm_first_qh m of
            Some mem \<Rightarrow>
              obind (get_addr_offset (phys_addr mem) (plm_ctrl_ds_segment m))
                (\<lambda>off. Inr (Some (off, mm_ptr mem)))
          | None \<Rightarrow> Inr None))"

text \<open>The branch for an interval without a queue head.\<close>

definition add_new_interval ::
    "mapped_mem \<Rightarrow> normalized_interval \<Rightarrow> nat \<Rightarrow> periodic_list_manager \<times> periodic_heap
      \<Rightarrow> (periodic_list_manager \<times> periodic_heap) outcome" where
  "add_new_interval q iv qh_index = (\<lambda>(m, h).
     let qh_ptr = mm_ptr q;
         prev_qh_power = find_first 0 (take qh_index (plm_qhs m))
     in obind (next_qh_of prev_qh_power (m, h)) (\<lambda>next_qh.
        let h1 = (case next_qh of
                    Some (off, n) \<Rightarrow>
                      write_pprev n (Some qh_ptr)
                        (write_pnext qh_ptr (Some n)
                          (write_plink qh_ptr (QhHorizontalLinkPtr_new Qh off) h))
                  | None \<Rightarrow> write_pnext qh_ptr None (write_plink qh_ptr QhHorizontalLinkPtr_INVALID h))
        in obind (get_addr_offset (phys_addr q) (plm_ctrl_ds_segment m)) (\<lambda>off.
           obind (frames iv) (\<lambda>step.
           let element_to_qh = PeriodicFrameListElement_new Qh off
           in case prev_qh_power of
                Some (prev_power, prev_qh) \<Rightarrow>
                  (let h2 = write_plink (mm_ptr prev_qh) (QhHorizontalLinkPtr_new Qh off) h1;
                       h3 = write_pnext (mm_ptr prev_qh) (Some qh_ptr) h2;
                       h4 = write_pprev qh_ptr (Some (mm_ptr prev_qh)) h3
                   in Inr (m\<lparr>plm_list := slot_loop (\<lambda>i. i AND push_bit prev_power 1 = 0) qh_index
                                  element_to_qh (unat step) (plm_list m),
                             plm_qhs := (plm_qhs m)[qh_index := Some q]\<rparr>, h4))
              | None \<Rightarrow>
                  (let h2 = write_pprev qh_ptr None h1
                   in Inr (m\<lparr>plm_list := slot_loop (\<lambda>_. True) qh_index element_to_qh 0 (plm_list m),
                             plm_first_qh := Some q,
                             plm_qhs := (plm_qhs m)[qh_index := Some q]\<rparr>, h2))))))"

definition add_qh ::
    "mapped_mem \<Rightarrow> normalized_interval \<Rightarrow> periodic_list_manager \<times> periodic_heap
      \<Rightarrow> (periodic_list_manager \<times> periodic_heap) outcome" where
  "add_qh q iv = (\<lambda>(m, h).
     let h1 = update_pcapabilities (mm_ptr q)
                (EndpointCapabilities_with_split_completion_mask (s_mask iv)) h;
         h2 = write_pinterval (mm_ptr q) iv h1;
         qh_index = unat (frames_power iv)
     in obind (index_list (plm_qhs m) qh_index) (\<lambda>slot.
        case slot of
          Some existing \<Rightarrow> add_after_existing q qh_index existing (m, h2)
        | None \<Rightarrow> add_new_interval q iv qh_index (m, h2)))"

text \<open>\<^verbatim>\<open>todo!()\<close>.\<close>

definition remove_qh :: "mapped_mem \<Rightarrow> periodic_list_manager \<times> periodic_heap
    \<Rightarrow> (periodic_list_manager \<times> periodic_heap) outcome" where
  "remove_qh q s = Inl (NotImplemented ''remove_qh'')"

subsection \<open>Intervals are in range\<close>

definition interval_ok :: "normalized_interval \<Rightarrow> bool" where
  "interval_ok iv \<longleftrightarrow> micro_frames_power iv \<le> 13"

abbreviation power_of :: "normalized_interval \<Rightarrow> nat" where
  "power_of iv \<equiv> unat (frames_power iv)"

lemma ilog2_bounds: "0 < n \<Longrightarrow> 2 ^ ilog2 n \<le> n \<and> n < 2 ^ Suc (ilog2 n)"
proof (induction n rule: ilog2.induct)
  case (1 n)
  show ?case
  proof (cases "n < 2")
    case False
    then have "2 ^ ilog2 (n div 2) \<le> n div 2 \<and> n div 2 < 2 ^ Suc (ilog2 (n div 2))"
      using 1 by simp
    with False have "2 * 2 ^ ilog2 (n div 2) \<le> n \<and> n < 2 * (2 * 2 ^ ilog2 (n div 2))"
      unfolding power_Suc by linarith
    with False show ?thesis by (simp add: ilog2.simps [of n])
  qed (use 1 in \<open>simp add: ilog2.simps [of n]\<close>)
qed

lemma power_of_eq: "power_of iv = unat (micro_frames_power iv) - 3"
  by (auto simp: frames_power_def unat_sub word_le_nat_alt)

lemma interval_ok_power: "interval_ok iv \<Longrightarrow> power_of iv \<le> 10"
  by (simp add: interval_ok_def power_of_eq word_le_nat_alt)

lemma frames_eq: "interval_ok iv \<Longrightarrow> frames iv = Inr (of_nat (2 ^ power_of iv))"
proof -
  assume "interval_ok iv"
  then have "(2 :: nat) ^ power_of iv \<le> 2 ^ 10" by (intro power_increasing interval_ok_power) auto
  then show ?thesis by (simp add: frames_def uint_new_def)
qed

lemma unat_frames: "frames iv = Inr w \<Longrightarrow> unat w = 2 ^ power_of iv"
  unfolding frames_def by (rule unat_uint_new)

text \<open>Rounding an endpoint's interval to a power of two: every nonzero number of microframes is
  accepted and gives an interval in range, which is the largest power of two not above the
  request (capped at 8192 microframes); its number of frames divides the length of the frame list.\<close>

theorem from_micro_frames_interval_rounds_down:
  assumes "i \<noteq> 0"
  shows "\<exists>iv. from_micro_frames_interval i = Inr iv \<and> interval_ok iv
    \<and> 2 ^ unat (micro_frames_power iv) \<le> unat i
    \<and> (unat i < 2 ^ Suc (unat (micro_frames_power iv)) \<or> micro_frames_power iv = 13)
    \<and> (\<exists>w. frames iv = Inr w \<and> unat w dvd 1024)"
proof -
  have dvd: "\<exists>w. frames iv = Inr w \<and> unat w dvd 1024" if "interval_ok iv" for iv
  proof -
    have "(2 :: nat) ^ power_of iv dvd 2 ^ 10"
      using interval_ok_power [OF that] by (rule le_imp_power_dvd)
    then show ?thesis using frames_eq [OF that] unat_frames [of iv] by auto
  qed
  show ?thesis
  proof (cases "i \<ge> 1024 * 8")
    case True
    then have "8192 \<le> unat i" by (simp add: word_le_nat_alt)
    with True dvd [of "\<lparr>micro_frames_power = 13\<rparr>"] show ?thesis
      by (auto simp: from_micro_frames_interval_def uint_new_def interval_ok_def)
  next
    case False
    let ?n = "ilog2 (unat i)"
    have i: "0 < unat i" "unat i < 2 ^ 13" using assms False by (simp_all add: unat_gt_0 word_le_nat_alt)
    note b = ilog2_bounds [OF i(1)]
    have "?n < 13" using b i(2) by (metis le_less_trans power_less_imp_less_exp one_less_numeral_iff semiring_norm(76))
    then have u: "unat (of_nat ?n :: u4) = ?n" by (simp add: unat_of_nat take_bit_nat_eq_self)
    have "interval_ok \<lparr>micro_frames_power = of_nat ?n\<rparr>"
      using \<open>?n < 13\<close> u by (simp add: interval_ok_def word_le_nat_alt)
    with False assms b u dvd \<open>?n < 13\<close> show ?thesis
      by (auto simp: from_micro_frames_interval_def uint_new_def)
  qed
qed

theorem from_micro_frames_interval_rounds_down_witness:
  "\<exists>iv. from_micro_frames_interval 80 = Inr iv \<and> 2 ^ unat (micro_frames_power iv) \<le> (80 :: nat)"
  using from_micro_frames_interval_rounds_down [of 80] by auto

subsection \<open>The frame list\<close>

lemma slot_loop_length [simp]: "length (slot_loop cond k e i l) = length l"
  by (induction cond k e i l rule: slot_loop.induct) (simp add: slot_loop.simps)

lemma slot_loop_nth:
  assumes "length l = 1024" "j < 1024" "2 ^ k dvd i"
  shows "slot_loop cond k e i l ! j = (if i \<le> j \<and> 2 ^ k dvd j \<and> cond j then e else l ! j)"
  using assms
proof (induction cond k e i l rule: slot_loop.induct)
  case (1 cond k e i l)
  show ?case
  proof (cases "i < 1024")
    case False
    then show ?thesis using 1 by (subst slot_loop.simps) auto
  next
    case True
    have between: "j = i" if "i \<le> j" "\<not> i + 2 ^ k \<le> j" "2 ^ k dvd j"
    proof -
      have "2 ^ k dvd j - i" using that(3) "1.prems"(3) by (rule dvd_diff_nat)
      moreover have "j - i < 2 ^ k" using that by linarith
      ultimately show ?thesis using that(1) dvd_imp_le [of "2 ^ k" "j - i"] by linarith
    qed
    have "slot_loop cond k e i l ! j
        = slot_loop cond k e (i + 2 ^ k) (if cond i then l[i := e] else l) ! j"
      using True by (subst slot_loop.simps) simp
    also have "\<dots> = (if i + 2 ^ k \<le> j \<and> 2 ^ k dvd j \<and> cond j then e
        else (if cond i then l[i := e] else l) ! j)"
      using True "1.prems" by (intro "1.IH") auto
    finally show ?thesis
      using between True "1.prems" by (cases "i = j") (simp_all add: not_le, force)
  qed
qed

subsection \<open>The list of queue heads\<close>

lemma pheap_simps [simp]:
  "plink (write_plink p l h) x = (if x = p then l else plink h x)"
  "qhp_prev (write_plink p l h x) = qhp_prev (h x)"
  "qhp_next (write_plink p l h x) = qhp_next (h x)"
  "qhp_interval (write_plink p l h x) = qhp_interval (h x)"
  "plink (write_pprev p q h) x = plink h x"
  "qhp_prev (write_pprev p q h x) = (if x = p then q else qhp_prev (h x))"
  "qhp_next (write_pprev p q h x) = qhp_next (h x)"
  "qhp_interval (write_pprev p q h x) = qhp_interval (h x)"
  "plink (write_pnext p q h) x = plink h x"
  "qhp_prev (write_pnext p q h x) = qhp_prev (h x)"
  "qhp_next (write_pnext p q h x) = (if x = p then q else qhp_next (h x))"
  "qhp_interval (write_pnext p q h x) = qhp_interval (h x)"
  "plink (write_pinterval p iv h) x = plink h x"
  "qhp_prev (write_pinterval p iv h x) = qhp_prev (h x)"
  "qhp_next (write_pinterval p iv h x) = qhp_next (h x)"
  "qhp_interval (write_pinterval p iv h x) = (if x = p then iv else qhp_interval (h x))"
  "plink (update_pcapabilities p f h) x = plink h x"
  "qhp_prev (update_pcapabilities p f h x) = qhp_prev (h x)"
  "qhp_next (update_pcapabilities p f h x) = qhp_next (h x)"
  "qhp_interval (update_pcapabilities p f h x) = qhp_interval (h x)"
  by (simp_all add: write_plink_def write_pprev_def write_pnext_def write_pinterval_def
      update_pcapabilities_def)

definition plinked :: "(vptr \<Rightarrow> u32) \<Rightarrow> periodic_heap \<Rightarrow> vptr \<Rightarrow> vptr \<Rightarrow> bool" where
  "plinked off h p q \<longleftrightarrow>
     qhp_next (h p) = Some q \<and> qhp_prev (h q) = Some p \<and> plink h p = QhHorizontalLinkPtr_new Qh (off q)"

definition plist :: "(vptr \<Rightarrow> u32) \<Rightarrow> periodic_heap \<Rightarrow> vptr list \<Rightarrow> bool" where
  "plist off h qs \<longleftrightarrow> distinct qs \<and> successively (plinked off h) qs
     \<and> (qs \<noteq> [] \<longrightarrow> qhp_prev (h (hd qs)) = None \<and> qhp_next (h (last qs)) = None
          \<and> plink h (last qs) = QhHorizontalLinkPtr_INVALID)"

text \<open>What an insertion of \<open>q\<close> behind \<open>p\<close> does to the links, and an insertion before the head.\<close>

definition spliced :: "(vptr \<Rightarrow> u32) \<Rightarrow> vptr \<Rightarrow> vptr \<Rightarrow> periodic_heap \<Rightarrow> periodic_heap \<Rightarrow> bool" where
  "spliced off p q h h' \<longleftrightarrow>
     plink h' p = QhHorizontalLinkPtr_new Qh (off q) \<and> qhp_next (h' p) = Some q
     \<and> qhp_prev (h' q) = Some p \<and> qhp_next (h' q) = qhp_next (h p) \<and> plink h' q = plink h p
     \<and> (\<forall>x. x \<notin> {p, q} \<longrightarrow> qhp_next (h' x) = qhp_next (h x) \<and> plink h' x = plink h x)
     \<and> (\<forall>x. x \<noteq> q \<longrightarrow> qhp_prev (h' x) = (if qhp_next (h p) = Some x then Some q else qhp_prev (h x)))"

definition fronted :: "(vptr \<Rightarrow> u32) \<Rightarrow> vptr list \<Rightarrow> vptr \<Rightarrow> periodic_heap \<Rightarrow> periodic_heap \<Rightarrow> bool" where
  "fronted off qs q h h' \<longleftrightarrow>
     qhp_prev (h' q) = None
     \<and> (case qs of
          [] \<Rightarrow> qhp_next (h' q) = None \<and> plink h' q = QhHorizontalLinkPtr_INVALID
        | f # _ \<Rightarrow> qhp_next (h' q) = Some f \<and> plink h' q = QhHorizontalLinkPtr_new Qh (off f)
                  \<and> qhp_prev (h' f) = Some q)
     \<and> (\<forall>x. x \<noteq> q \<longrightarrow> qhp_next (h' x) = qhp_next (h x) \<and> plink h' x = plink h x
          \<and> (qs = [] \<or> x \<noteq> hd qs \<longrightarrow> qhp_prev (h' x) = qhp_prev (h x)))"

lemma plist_next_hd:
  assumes "plist off h (xs @ p # ys)"
  shows "qhp_next (h p) = (case ys of [] \<Rightarrow> None | n # _ \<Rightarrow> Some n)"
    and "plink h p = (case ys of [] \<Rightarrow> QhHorizontalLinkPtr_INVALID | n # _ \<Rightarrow> QhHorizontalLinkPtr_new Qh (off n))"
  using assms by (auto simp: plist_def successively_append_iff plinked_def split: list.splits)

lemma plist_spliced:
  assumes l: "plist off h (xs @ p # ys)" and q: "q \<notin> set (xs @ p # ys)" and s: "spliced off p q h h'"
  shows "plist off h' (xs @ p # q # ys)"
proof -
  have d: "distinct (xs @ p # ys)" using l by (simp add: plist_def)
  have parts: "successively (plinked off h) (xs @ [p])" "successively (plinked off h) ys"
    using l by (auto simp: plist_def successively_append_iff successively_Cons)
  note nx = plist_next_hd [OF l]
  have "successively (plinked off h') (xs @ [p])"
  proof (rule successively_frame [OF parts(1)])
    fix x y assume "x \<in> set (butlast (xs @ [p]))" "y \<in> set (tl (xs @ [p]))" "plinked off h x y"
    moreover from this have "y \<in> set (xs @ [p])" by (cases xs) auto
    moreover from this have "qhp_next (h p) \<noteq> Some y" "y \<noteq> q"
      using d q nx(1) by (auto split: list.splits)
    ultimately show "plinked off h' x y"
      using s d q by (auto simp: plinked_def spliced_def split: list.splits)
  qed
  moreover have "successively (plinked off h') ys"
  proof (rule successively_frame [OF parts(2)])
    fix x y assume "x \<in> set (butlast ys)" "y \<in> set (tl ys)" "plinked off h x y"
    moreover from this have "x \<in> set ys" "y \<in> set ys" "y \<noteq> hd ys"
      using d by (cases ys; auto dest: in_set_butlastD split: if_splits)+
    ultimately show "plinked off h' x y"
      using s d q nx by (auto simp: plinked_def spliced_def split: list.splits)
  qed
  moreover have "plinked off h' p q" "ys \<noteq> [] \<Longrightarrow> plinked off h' q (hd ys)"
    using s q d nx by (auto simp: plinked_def spliced_def split: list.splits)
  ultimately have "successively (plinked off h') (xs @ p # q # ys)"
    by (cases ys) (auto simp: successively_append_iff)
  moreover have "qhp_prev (h' (hd (xs @ p # q # ys))) = None"
    using l s d q nx by (cases xs) (auto simp: plist_def spliced_def split: list.splits)
  moreover have "qhp_next (h' (last (q # ys))) = None \<and> plink h' (last (q # ys)) = QhHorizontalLinkPtr_INVALID"
  proof (cases "ys = []")
    case False
    then have "last ys \<noteq> p" "last ys \<noteq> q" using d q last_in_set [OF False] by auto
    with False show ?thesis using l s by (simp add: plist_def spliced_def)
  qed (use s nx in \<open>auto simp: spliced_def\<close>)
  ultimately show ?thesis using d q by (auto simp: plist_def)
qed

lemma plist_fronted:
  assumes l: "plist off h qs" and q: "q \<notin> set qs" and f: "fronted off qs q h h'"
  shows "plist off h' (q # qs)"
proof (cases qs)
  case Nil
  then show ?thesis using f by (simp add: plist_def fronted_def)
next
  case (Cons g zs)
  have "successively (plinked off h') qs"
  proof (rule successively_frame)
    show "successively (plinked off h) qs" using l by (simp add: plist_def)
    fix x y assume "x \<in> set (butlast qs)" "y \<in> set (tl qs)" "plinked off h x y"
    moreover from this have "x \<in> set qs" "y \<in> set qs" "y \<noteq> hd qs"
      using l by (auto simp: plist_def Cons dest: in_set_butlastD split: if_splits)
    ultimately show "plinked off h' x y"
      using f q by (auto simp: plinked_def fronted_def)
  qed
  moreover have "last qs \<in> set qs" using Cons by simp
  ultimately show ?thesis
    using l f q by (auto simp: plist_def fronted_def plinked_def Cons)
qed

subsection \<open>The state of the manager\<close>

definition plm_ok :: "(vptr \<Rightarrow> u32) \<Rightarrow> periodic_list_manager \<times> periodic_heap \<Rightarrow> vptr list \<Rightarrow> bool" where
  "plm_ok off s qs \<longleftrightarrow>
     plist off (snd s) qs \<and> length (plm_qhs (fst s)) = 11 \<and> length (plm_list (fst s)) = 1024
     \<and> (\<forall>x \<in> set qs. aligned32 (off x))
     \<and> (\<forall>k q. k < 11 \<longrightarrow> plm_qhs (fst s) ! k = Some q \<longrightarrow> mm_ptr q \<in> set qs)
     \<and> (case plm_first_qh (fst s) of
          None \<Rightarrow> qs = []
        | Some f \<Rightarrow> qs \<noteq> [] \<and> hd qs = mm_ptr f
            \<and> get_addr_offset (phys_addr f) (plm_ctrl_ds_segment (fst s)) = Inr (off (mm_ptr f)))"

text \<open>A queue head that may be added: not on the list yet, aligned, inside the segment.\<close>

definition addable :: "(vptr \<Rightarrow> u32) \<Rightarrow> periodic_list_manager \<Rightarrow> vptr list \<Rightarrow> mapped_mem \<Rightarrow> bool" where
  "addable off m qs q \<longleftrightarrow> mm_ptr q \<notin> set qs \<and> aligned32 (off (mm_ptr q))
     \<and> get_addr_offset (phys_addr q) (plm_ctrl_ds_segment m) = Inr (off (mm_ptr q))"

lemma find_first_Some:
  "find_first i xs = Some (j, q) \<Longrightarrow> \<exists>k < length xs. j = i + k \<and> xs ! k = Some q \<and> (\<forall>l < k. xs ! l = None)"
proof (induction xs arbitrary: i)
  case (Cons x xs)
  show ?case
  proof (cases x)
    case None
    then obtain k where "k < length xs" "j = Suc i + k" "xs ! k = Some q" "\<forall>l < k. xs ! l = None"
      using Cons.prems Cons.IH [of "Suc i"] by auto
    then show ?thesis using None by (intro exI [of _ "Suc k"]) (auto simp: less_Suc_eq_0_disj)
  qed (use Cons in auto)
qed simp

lemma find_first_None: "find_first i xs = None \<longleftrightarrow> (\<forall>k < length xs. xs ! k = None)"
proof (induction xs arbitrary: i)
  case (Cons x xs)
  then show ?case by (cases x) (auto simp: less_Suc_eq_0_disj)
qed simp

lemma plist_interval_write [simp]:
  "plist off (write_pinterval p iv (update_pcapabilities p f h)) qs \<longleftrightarrow> plist off h qs"
proof -
  have "plinked off (write_pinterval p iv (update_pcapabilities p f h)) = plinked off h"
    by (intro ext) (simp add: plinked_def)
  then show ?thesis by (simp add: plist_def)
qed

lemma add_after_existing_ok:
  assumes ok: "plm_ok off (m, h) (xs @ mm_ptr ex # ys)"
    and q: "addable off m (xs @ mm_ptr ex # ys) q" and k: "k < 11"
  shows "\<exists>h'. add_after_existing q k ex (m, h) = Inr (m\<lparr>plm_qhs := (plm_qhs m)[k := Some q]\<rparr>, h')
    \<and> (\<forall>x. qhp_interval (h' x) = qhp_interval (h x))
    \<and> plm_ok off (m\<lparr>plm_qhs := (plm_qhs m)[k := Some q]\<rparr>, h') (xs @ mm_ptr ex # mm_ptr q # ys)"
proof -
  let ?p = "mm_ptr ex" and ?q = "mm_ptr q"
  have l: "plist off h (xs @ ?p # ys)" using ok by (simp add: plm_ok_def)
  then have d: "distinct (xs @ ?p # ys)" by (simp add: plist_def)
  have "\<exists>h'. add_after_existing q k ex (m, h) = Inr (m\<lparr>plm_qhs := (plm_qhs m)[k := Some q]\<rparr>, h')
    \<and> (\<forall>x. qhp_interval (h' x) = qhp_interval (h x)) \<and> spliced off ?p ?q h h'"
    using q d plist_next_hd(1) [OF l]
    by (auto simp: add_after_existing_def addable_def Let_def spliced_def split: list.splits)
  then obtain h' where h': "add_after_existing q k ex (m, h)
      = Inr (m\<lparr>plm_qhs := (plm_qhs m)[k := Some q]\<rparr>, h')"
      "\<forall>x. qhp_interval (h' x) = qhp_interval (h x)" "spliced off ?p ?q h h'" by blast
  have "plist off h' (xs @ ?p # ?q # ys)"
    using plist_spliced [OF l _ h'(3)] q by (simp add: addable_def)
  then have "plm_ok off (m\<lparr>plm_qhs := (plm_qhs m)[k := Some q]\<rparr>, h') (xs @ ?p # ?q # ys)"
    using ok q k unfolding plm_ok_def addable_def
    by (auto simp: nth_list_update hd_append split: option.splits if_splits)
  with h' show ?thesis by blast
qed

text \<open>A new interval, inserted behind the queue head that the search finds.\<close>

lemma add_new_interval_behind:
  assumes ok: "plm_ok off (m, h) (xs @ mm_ptr pr # ys)"
    and q: "addable off m (xs @ mm_ptr pr # ys) q" and iv: "interval_ok iv"
    and k: "k = power_of iv" and pr: "find_first 0 (take k (plm_qhs m)) = Some (j, pr)"
  defines "m' \<equiv> m\<lparr>plm_list := slot_loop (\<lambda>i. i AND push_bit j 1 = 0) k
      (PeriodicFrameListElement_new Qh (off (mm_ptr q))) (2 ^ k) (plm_list m),
    plm_qhs := (plm_qhs m)[k := Some q]\<rparr>"
  shows "\<exists>h'. add_new_interval q iv k (m, h) = Inr (m', h')
    \<and> (\<forall>x. qhp_interval (h' x) = qhp_interval (h x))
    \<and> plm_ok off (m', h') (xs @ mm_ptr pr # mm_ptr q # ys)"
proof -
  let ?p = "mm_ptr pr" and ?q = "mm_ptr q"
  have l: "plist off h (xs @ ?p # ys)" and al: "\<forall>x \<in> set (xs @ ?p # ys). aligned32 (off x)"
    using ok by (simp_all add: plm_ok_def)
  then have d: "distinct (xs @ ?p # ys)" by (simp add: plist_def)
  have step: "frames iv = Inr (of_nat (2 ^ k))" "unat (of_nat (2 ^ k) :: u11) = 2 ^ k"
    using frames_eq [OF iv] unat_frames [of iv] k by simp_all
  have "\<exists>h'. add_new_interval q iv k (m, h) = Inr (m', h')
    \<and> (\<forall>x. qhp_interval (h' x) = qhp_interval (h x)) \<and> spliced off ?p ?q h h'"
  proof (cases ys)
    case Nil
    then show ?thesis
      using q d plist_next_hd [OF l] step
      by (simp add: add_new_interval_def addable_def Let_def spliced_def pr next_qh_of_def m'_def)
  next
    case (Cons n zs)
    then show ?thesis
      using q d plist_next_hd [OF l] step al
      by (simp add: add_new_interval_def addable_def Let_def spliced_def pr next_qh_of_def m'_def)
  qed
  then obtain h' where h': "add_new_interval q iv k (m, h) = Inr (m', h')"
      "\<forall>x. qhp_interval (h' x) = qhp_interval (h x)" "spliced off ?p ?q h h'" by blast
  have "plist off h' (xs @ ?p # ?q # ys)"
    using plist_spliced [OF l _ h'(3)] q by (simp add: addable_def)
  then have "plm_ok off (m', h') (xs @ ?p # ?q # ys)"
    using ok q interval_ok_power [OF iv] k unfolding plm_ok_def addable_def m'_def
    by (auto simp: nth_list_update hd_append split: option.splits if_splits)
  with h' show ?thesis by blast
qed

text \<open>A new interval that is shorter than all the others, inserted as the new head.\<close>

lemma add_new_interval_front:
  assumes ok: "plm_ok off (m, h) qs" and q: "addable off m qs q" and iv: "interval_ok iv"
    and k: "k = power_of iv" and none: "find_first 0 (take k (plm_qhs m)) = None"
  defines "m' \<equiv> m\<lparr>plm_list := slot_loop (\<lambda>_. True) k
      (PeriodicFrameListElement_new Qh (off (mm_ptr q))) 0 (plm_list m),
    plm_first_qh := Some q, plm_qhs := (plm_qhs m)[k := Some q]\<rparr>"
  shows "\<exists>h'. add_new_interval q iv k (m, h) = Inr (m', h')
    \<and> (\<forall>x. qhp_interval (h' x) = qhp_interval (h x)) \<and> plm_ok off (m', h') (mm_ptr q # qs)"
proof -
  let ?q = "mm_ptr q"
  have l: "plist off h qs" using ok by (simp add: plm_ok_def)
  have first: "(plm_first_qh m = None \<and> qs = []) \<or> (\<exists>f zs. plm_first_qh m = Some f \<and> qs = mm_ptr f # zs
      \<and> get_addr_offset (phys_addr f) (plm_ctrl_ds_segment m) = Inr (off (mm_ptr f)))"
    using ok by (cases qs) (auto simp: plm_ok_def split: option.splits)
  have "\<exists>h'. add_new_interval q iv k (m, h) = Inr (m', h')
    \<and> (\<forall>x. qhp_interval (h' x) = qhp_interval (h x)) \<and> fronted off qs ?q h h'"
    using first
  proof (elim disjE exE conjE)
    fix f zs assume "plm_first_qh m = Some f" "qs = mm_ptr f # zs"
      "get_addr_offset (phys_addr f) (plm_ctrl_ds_segment m) = Inr (off (mm_ptr f))"
    then show ?thesis
      using q frames_eq [OF iv]
      by (auto simp: add_new_interval_def addable_def Let_def fronted_def none next_qh_of_def m'_def)
  qed (use q frames_eq [OF iv] in \<open>simp add: add_new_interval_def addable_def Let_def fronted_def
      none next_qh_of_def m'_def\<close>)
  then obtain h' where h': "add_new_interval q iv k (m, h) = Inr (m', h')"
      "\<forall>x. qhp_interval (h' x) = qhp_interval (h x)" "fronted off qs ?q h h'" by blast
  have "plist off h' (?q # qs)"
    using plist_fronted [OF l _ h'(3)] q by (simp add: addable_def)
  then have "plm_ok off (m', h') (?q # qs)"
    using ok q interval_ok_power [OF iv] k unfolding plm_ok_def addable_def m'_def
    by (auto simp: nth_list_update split: if_splits)
  with h' show ?thesis by blast
qed

text \<open>The heap after the writes at the start of \<open>add_qh\<close>.\<close>

abbreviation prepared :: "mapped_mem \<Rightarrow> normalized_interval \<Rightarrow> periodic_heap \<Rightarrow> periodic_heap" where
  "prepared q iv h \<equiv> write_pinterval (mm_ptr q) iv (update_pcapabilities (mm_ptr q)
     (EndpointCapabilities_with_split_completion_mask (s_mask iv)) h)"

lemma plm_ok_prepared [simp]: "plm_ok off (m, prepared q iv h) qs \<longleftrightarrow> plm_ok off (m, h) qs"
  unfolding plm_ok_def by (simp cong: option.case_cong)

lemma add_qh_existing:
  assumes "plm_ok off (m, h) (xs @ mm_ptr ex # ys)" "addable off m (xs @ mm_ptr ex # ys) q"
    and "interval_ok iv" "plm_qhs m ! power_of iv = Some ex"
  defines "m' \<equiv> m\<lparr>plm_qhs := (plm_qhs m)[power_of iv := Some q]\<rparr>"
  shows "\<exists>h'. add_qh q iv (m, h) = Inr (m', h')
    \<and> (\<forall>x. qhp_interval (h' x) = (if x = mm_ptr q then iv else qhp_interval (h x)))
    \<and> plm_ok off (m', h') (xs @ mm_ptr ex # mm_ptr q # ys)"
proof -
  have k: "power_of iv < 11" using interval_ok_power [OF assms(3)] by simp
  have "length (plm_qhs m) = 11" using assms(1) by (simp add: plm_ok_def)
  with k show ?thesis
    using add_after_existing_ok [of off m "prepared q iv h" xs ex ys q "power_of iv"] assms(1-4)
    by (auto simp: add_qh_def Let_def index_list_def m'_def)
qed

lemma add_qh_new:
  assumes "plm_ok off (m, h) qs" "interval_ok iv" "plm_qhs m ! power_of iv = None"
  shows "add_qh q iv (m, h) = add_new_interval q iv (power_of iv) (m, prepared q iv h)"
proof -
  have "power_of iv < 11" using interval_ok_power [OF assms(2)] by simp
  moreover have "length (plm_qhs m) = 11" using assms(1) by (simp add: plm_ok_def)
  ultimately show ?thesis using assms(3) by (simp add: add_qh_def Let_def index_list_def)
qed

lemma add_qh_behind:
  assumes "plm_ok off (m, h) (xs @ mm_ptr pr # ys)" "addable off m (xs @ mm_ptr pr # ys) q"
    and "interval_ok iv" "plm_qhs m ! power_of iv = None"
    and "find_first 0 (take (power_of iv) (plm_qhs m)) = Some (j, pr)"
  defines "m' \<equiv> m\<lparr>plm_list := slot_loop (\<lambda>i. i AND push_bit j 1 = 0) (power_of iv)
      (PeriodicFrameListElement_new Qh (off (mm_ptr q))) (2 ^ power_of iv) (plm_list m),
    plm_qhs := (plm_qhs m)[power_of iv := Some q]\<rparr>"
  shows "\<exists>h'. add_qh q iv (m, h) = Inr (m', h')
    \<and> (\<forall>x. qhp_interval (h' x) = (if x = mm_ptr q then iv else qhp_interval (h x)))
    \<and> plm_ok off (m', h') (xs @ mm_ptr pr # mm_ptr q # ys)"
  using add_new_interval_behind [of off m "prepared q iv h" xs pr ys q iv "power_of iv" j] assms(1-5)
    add_qh_new [OF assms(1,3,4), of q]
  by (auto simp: m'_def)

lemma add_qh_front:
  assumes "plm_ok off (m, h) qs" "addable off m qs q" "interval_ok iv" "plm_qhs m ! power_of iv = None"
    and "find_first 0 (take (power_of iv) (plm_qhs m)) = None"
  defines "m' \<equiv> m\<lparr>plm_list := slot_loop (\<lambda>_. True) (power_of iv)
      (PeriodicFrameListElement_new Qh (off (mm_ptr q))) 0 (plm_list m),
    plm_first_qh := Some q, plm_qhs := (plm_qhs m)[power_of iv := Some q]\<rparr>"
  shows "\<exists>h'. add_qh q iv (m, h) = Inr (m', h')
    \<and> (\<forall>x. qhp_interval (h' x) = (if x = mm_ptr q then iv else qhp_interval (h x)))
    \<and> plm_ok off (m', h') (mm_ptr q # qs)"
  using add_new_interval_front [of off m "prepared q iv h" qs q iv "power_of iv"] assms(1-5)
    add_qh_new [OF assms(1,3,4), of q]
  by (auto simp: m'_def)

lemma plm_ok_member:
  assumes "plm_ok off (m, h) qs" "k < 11" "plm_qhs m ! k = Some q"
  obtains xs ys where "qs = xs @ mm_ptr q # ys"
proof -
  have "mm_ptr q \<in> set qs" using assms unfolding plm_ok_def by (metis fst_conv)
  then show ?thesis using that by (meson split_list)
qed

lemma found_member:
  assumes "plm_ok off (m, h) qs" "k < 11" "find_first 0 (take k (plm_qhs m)) = Some (j, pr)"
  shows "j < k \<and> plm_qhs m ! j = Some pr"
  using find_first_Some [OF assms(3)] assms(1,2) by (auto simp: plm_ok_def)

lemma add_qh_inserts:
  assumes "plm_ok off (m, h) qs" "addable off m qs q" "interval_ok iv"
  shows "\<exists>s xs ys. add_qh q iv (m, h) = Inr s \<and> qs = xs @ ys \<and> plm_ok off s (xs @ mm_ptr q # ys)"
proof -
  let ?k = "power_of iv"
  have k: "?k < 11" using interval_ok_power [OF assms(3)] by simp
  consider (existing) ex where "plm_qhs m ! ?k = Some ex"
    | (front) "plm_qhs m ! ?k = None" "find_first 0 (take ?k (plm_qhs m)) = None"
    | (behind) j pr where "plm_qhs m ! ?k = None" "find_first 0 (take ?k (plm_qhs m)) = Some (j, pr)"
    by (cases "plm_qhs m ! ?k"; cases "find_first 0 (take ?k (plm_qhs m))") auto
  then show ?thesis
  proof cases
    case existing
    then obtain xs ys where qs: "qs = xs @ mm_ptr ex # ys" by (rule plm_ok_member [OF assms(1) k])
    show ?thesis
      using add_qh_existing [of off m h xs ex ys q iv] assms existing qs
      by (metis append.assoc append_Cons append_Nil)
  next
    case front
    then show ?thesis using add_qh_front [OF assms] by (metis append_Nil)
  next
    case behind
    then have "j < 11" "plm_qhs m ! j = Some pr" using found_member [OF assms(1) k] k by auto
    then obtain xs ys where qs: "qs = xs @ mm_ptr pr # ys" by (rule plm_ok_member [OF assms(1)])
    show ?thesis
      using add_qh_behind [of off m h xs pr ys q iv j] assms behind qs
      by (metis append.assoc append_Cons append_Nil)
  qed
qed

text \<open>C25: Adding a queue head to the periodic list never panics for an interval in range, and keeps the
  list well formed: forward pointers, backward pointers and the controller's links agree, the ends are
  closed, \<open>first_qh\<close> is the head and every entry of the interval table is on the list; the
  queue heads that were there keep their order.\<close>

theorem add_qh_keeps_list:
  assumes "plm_ok off (m, h) qs" "addable off m qs q" "interval_ok iv"
  shows "\<exists>s xs ys. add_qh q iv (m, h) = Inr s \<and> qs = xs @ ys \<and> plm_ok off s (xs @ mm_ptr q # ys)"
  using assms by (rule add_qh_inserts)

definition example_pheap :: periodic_heap where
  "example_pheap = (\<lambda>_. \<lparr>qhp_qh = Qh_new 0 0, qhp_prev = None, qhp_next = None,
     qhp_interval = \<lparr>micro_frames_power = 0\<rparr>\<rparr>)"

definition example_plm :: periodic_list_manager where
  "example_plm = PeriodicListManager_new PeriodicFrameList_EMPTY LOWER_4_G"

definition example_pmem :: "u64 \<Rightarrow> mapped_mem" where
  "example_pmem p = \<lparr>phys_addr = p, mm_ptr = p\<rparr>"

lemma example_pmem_simps [simp]:
  "mm_ptr (example_pmem p) = p" "phys_addr (example_pmem p) = p"
  by (simp_all add: example_pmem_def)

lemma plm_ok_empty:
  "plm_ok off (PeriodicListManager_new PeriodicFrameList_EMPTY seg, h) []"
  by (simp add: plm_ok_def plist_def PeriodicListManager_new_def PeriodicFrameList_EMPTY_def)

theorem add_qh_keeps_list_witness:
  "\<exists>s. add_qh (example_pmem 0x80) \<lparr>micro_frames_power = 6\<rparr> (example_plm, example_pheap) = Inr s
     \<and> plm_ok ucast s [0x80]"
  using add_qh_keeps_list [of ucast example_plm example_pheap "[]" "example_pmem 0x80"
      "\<lparr>micro_frames_power = 6\<rparr>"]
    plm_ok_empty [of ucast LOWER_4_G example_pheap]
  by (auto simp: example_plm_def addable_def PeriodicListManager_new_def get_addr_offset_def
      LOWER_4_G_def aligned32_def interval_ok_def)

subsection \<open>What the controller meets in a frame\<close>

definition element_ptr :: "periodic_frame_list_element \<Rightarrow> u32 option" where
  "element_ptr e =
     (if PeriodicFrameListElement_t e then None
      else Some (push_bit 5 (ucast (PeriodicFrameListElement_addr_upper_bits e))))"

primrec walk :: "(u32 \<Rightarrow> vptr) \<Rightarrow> periodic_heap \<Rightarrow> nat \<Rightarrow> u32 option \<Rightarrow> vptr list" where
  "walk at h 0 l = []"
| "walk at h (Suc n) l =
     (case l of
        None \<Rightarrow> []
      | Some x \<Rightarrow> at x # walk at h n (QhHorizontalLinkPtr_ptr (plink h (at x))))"

text \<open>The queue heads executed in the frames with index \<open>i\<close>, at most \<open>n\<close> of them.\<close>

definition frame_visits ::
    "(u32 \<Rightarrow> vptr) \<Rightarrow> periodic_list_manager \<times> periodic_heap \<Rightarrow> nat \<Rightarrow> nat \<Rightarrow> vptr list" where
  "frame_visits at s n i = walk at (snd s) n (element_ptr (plm_list (fst s) ! i))"

lemma element_ptr_simps [simp]:
  "element_ptr PeriodicFrameListElement_NONE = None"
  "aligned32 p \<Longrightarrow> element_ptr (PeriodicFrameListElement_new t p) = Some p"
  by (simp_all add: element_ptr_def PeriodicFrameListElement_NONE_def PeriodicFrameListElement_new_def
      bitfield_defs bitfield ucast_u27_push_drop aligned32_push_drop)

lemma walk_plist:
  assumes "plist off h (xs @ p # ys)" "\<forall>x \<in> set (p # ys). aligned32 (off x) \<and> at (off x) = x"
    and "length ys < n"
  shows "walk at h n (Some (off p)) = p # ys"
  using assms
proof (induction ys arbitrary: xs p n)
  case Nil
  then show ?case using plist_next_hd(2) [OF Nil.prems(1)] by (cases n) (simp_all, cases "n - 1", auto)
next
  case (Cons y ys)
  then obtain k where k: "n = Suc k" by (cases n) auto
  have "walk at h k (Some (off y)) = y # ys"
    using Cons.prems k by (intro Cons.IH [of "xs @ [p]"]) auto
  then show ?case using plist_next_hd(2) [OF Cons.prems(1)] Cons.prems(2) k by simp
qed

text \<open>
  The frame list as it is when queue heads were added with intervals that never grow: a frame
  starts at the head of the list when its index is a multiple of some interval in use, and is
  empty otherwise.
\<close>

definition frame_used :: "mapped_mem option list \<Rightarrow> nat \<Rightarrow> bool" where
  "frame_used qhs i \<longleftrightarrow> (\<exists>k < 11. qhs ! k \<noteq> None \<and> 2 ^ k dvd i)"

definition served :: "(vptr \<Rightarrow> u32) \<Rightarrow> periodic_list_manager \<times> periodic_heap \<Rightarrow> vptr list \<Rightarrow> bool" where
  "served off s qs \<longleftrightarrow>
     (\<forall>x \<in> set qs. interval_ok (qhp_interval (snd s x))
        \<and> plm_qhs (fst s) ! power_of (qhp_interval (snd s x)) \<noteq> None)
     \<and> (\<forall>i < 1024. plm_list (fst s) ! i =
          (if frame_used (plm_qhs (fst s)) i then PeriodicFrameListElement_new Qh (off (hd qs))
           else PeriodicFrameListElement_NONE))"

lemma add_qh_served:
  assumes ok: "plm_ok off (m, h) qs" "addable off m qs q" "interval_ok iv"
    and sv: "served off (m, h) qs" and low: "\<forall>j < power_of iv. plm_qhs m ! j = None"
  shows "\<exists>m' h' qs'. add_qh q iv (m, h) = Inr (m', h') \<and> plm_ok off (m', h') qs' \<and> served off (m', h') qs'
    \<and> set qs' = insert (mm_ptr q) (set qs) \<and> plm_ctrl_ds_segment m' = plm_ctrl_ds_segment m
    \<and> plm_qhs m' = (plm_qhs m)[power_of iv := Some q]
    \<and> (\<forall>x. qhp_interval (h' x) = (if x = mm_ptr q then iv else qhp_interval (h x)))"
proof -
  let ?k = "power_of iv"
  have k: "?k < 11" using interval_ok_power [OF ok(3)] by simp
  have len: "length (plm_qhs m) = 11" "length (plm_list m) = 1024" using ok(1) by (auto simp: plm_ok_def)
  have mem: "interval_ok (if x = mm_ptr q then iv else qhp_interval (h x)) \<and>
      (plm_qhs m)[?k := Some q] ! power_of (if x = mm_ptr q then iv else qhp_interval (h x)) \<noteq> None"
    if "x \<in> insert (mm_ptr q) (set qs)" for x
    using that sv ok(3) k len by (auto simp: served_def nth_list_update split: if_splits)
  show ?thesis
  proof (cases "plm_qhs m ! ?k")
    case (Some ex)
    then obtain xs ys where qs: "qs = xs @ mm_ptr ex # ys" by (rule plm_ok_member [OF ok(1) k])
    let ?m = "m\<lparr>plm_qhs := (plm_qhs m)[?k := Some q]\<rparr>"
    obtain h' where h': "add_qh q iv (m, h) = Inr (?m, h')"
        "\<forall>x. qhp_interval (h' x) = (if x = mm_ptr q then iv else qhp_interval (h x))"
        "plm_ok off (?m, h') (xs @ mm_ptr ex # mm_ptr q # ys)"
      using add_qh_existing [of off m h xs ex ys q iv] ok Some qs by auto
    have upd: "(plm_qhs m)[?k := Some q] ! j \<noteq> None \<longleftrightarrow> plm_qhs m ! j \<noteq> None" if "j < 11" for j
      using that len Some by (cases "j = ?k") auto
    have "frame_used ((plm_qhs m)[?k := Some q]) = frame_used (plm_qhs m)"
      unfolding frame_used_def fun_eq_iff using upd by blast
    moreover have "set (xs @ mm_ptr ex # mm_ptr q # ys) = insert (mm_ptr q) (set qs)"
      by (auto simp: qs)
    moreover have "hd (xs @ mm_ptr ex # mm_ptr q # ys) = hd qs" by (simp add: qs hd_append)
    ultimately have "served off (?m, h') (xs @ mm_ptr ex # mm_ptr q # ys)"
      using sv mem h'(2) unfolding served_def by simp
    with h' show ?thesis
      by (intro exI [of _ ?m] exI [of _ h'] exI [of _ "xs @ mm_ptr ex # mm_ptr q # ys"]) (auto simp: qs)
  next
    case None
    have none: "find_first 0 (take ?k (plm_qhs m)) = None"
      using low len k by (simp add: find_first_None)
    let ?m = "m\<lparr>plm_list := slot_loop (\<lambda>_. True) ?k
      (PeriodicFrameListElement_new Qh (off (mm_ptr q))) 0 (plm_list m),
      plm_first_qh := Some q, plm_qhs := (plm_qhs m)[?k := Some q]\<rparr>"
    obtain h' where h': "add_qh q iv (m, h) = Inr (?m, h')"
        "\<forall>x. qhp_interval (h' x) = (if x = mm_ptr q then iv else qhp_interval (h x))"
        "plm_ok off (?m, h') (mm_ptr q # qs)"
      using add_qh_front [OF ok None none] by auto
    have multiple: "2 ^ ?k dvd i" if "j < 11" "plm_qhs m ! j \<noteq> None" "2 ^ j dvd i" for i j :: nat
    proof -
      have "?k \<le> j" using that(2) low by (meson not_le)
      then show ?thesis using that(3) by (meson dvd_trans le_imp_power_dvd)
    qed
    have "frame_used (plm_qhs ?m) i \<longleftrightarrow> 2 ^ ?k dvd i" for i
      using multiple len k by (auto simp: frame_used_def nth_list_update split: if_splits)
    moreover have "frame_used (plm_qhs m) i \<Longrightarrow> 2 ^ ?k dvd i" for i
      using multiple by (auto simp: frame_used_def)
    ultimately have "plm_list ?m ! i = (if frame_used (plm_qhs ?m) i then PeriodicFrameListElement_new Qh (off (mm_ptr q)) else PeriodicFrameListElement_NONE)"
      if "i < 1024" for i
      using that sv len by (auto simp: slot_loop_nth served_def)
    then have "served off (?m, h') (mm_ptr q # qs)"
      using mem h'(2) unfolding served_def by simp
    with h' show ?thesis
      by (intro exI [of _ ?m] exI [of _ h'] exI [of _ "mm_ptr q # qs"]) auto
  qed
qed

lemma served_visits:
  assumes "plm_ok off s qs" "served off s qs" "x \<in> set qs" "\<forall>y \<in> set qs. at (off y) = y"
    and "i < 1024" "2 ^ power_of (qhp_interval (snd s x)) dvd i" "length qs \<le> n"
  shows "frame_visits at s n i = qs"
proof -
  have "frame_used (plm_qhs (fst s)) i"
    using assms(2,3,6) interval_ok_power [of "qhp_interval (snd s x)"]
    by (auto simp: served_def frame_used_def intro!: exI [of _ "power_of (qhp_interval (snd s x))"])
  then have e: "plm_list (fst s) ! i = PeriodicFrameListElement_new Qh (off (hd qs))"
    using assms(2,5) by (simp add: served_def)
  obtain p ys where qs: "qs = p # ys" using assms(3) by (cases qs) auto
  have "plist off (snd s) ([] @ p # ys)" "\<forall>x \<in> set qs. aligned32 (off x)"
    using assms(1) by (simp_all add: plm_ok_def qs)
  then show ?thesis
    using e walk_plist [of off "snd s" "[]" p ys at n] assms(4,7) by (simp add: frame_visits_def qs)
qed

text \<open>A sequence of insertions.\<close>

primrec add_all :: "(mapped_mem \<times> normalized_interval) list \<Rightarrow> periodic_list_manager \<times> periodic_heap
    \<Rightarrow> (periodic_list_manager \<times> periodic_heap) outcome" where
  "add_all [] s = Inr s"
| "add_all (x # xs) s = obind (add_qh (fst x) (snd x) s) (add_all xs)"

definition request_ok :: "(vptr \<Rightarrow> u32) \<Rightarrow> ctrl_ds_segment \<Rightarrow> mapped_mem \<times> normalized_interval \<Rightarrow> bool" where
  "request_ok off seg x \<longleftrightarrow> interval_ok (snd x) \<and> aligned32 (off (mm_ptr (fst x)))
     \<and> get_addr_offset (phys_addr (fst x)) seg = Inr (off (mm_ptr (fst x)))"

lemma add_all_served:
  assumes "plm_ok off (m, h) qs" "served off (m, h) qs" "list_all (request_ok off (plm_ctrl_ds_segment m)) xs"
    and "distinct (map (\<lambda>x. mm_ptr (fst x)) xs)" "\<forall>x \<in> set xs. mm_ptr (fst x) \<notin> set qs"
    and "sorted_wrt (\<lambda>a b. power_of (snd b) \<le> power_of (snd a)) xs"
    and "\<forall>x \<in> set xs. \<forall>j < power_of (snd x). plm_qhs m ! j = None"
  shows "\<exists>m' h' qs'. add_all xs (m, h) = Inr (m', h') \<and> plm_ok off (m', h') qs' \<and> served off (m', h') qs'
    \<and> set qs' = mm_ptr ` fst ` set xs \<union> set qs
    \<and> (\<forall>x \<in> set xs. qhp_interval (h' (mm_ptr (fst x))) = snd x)
    \<and> (\<forall>y. y \<notin> mm_ptr ` fst ` set xs \<longrightarrow> qhp_interval (h' y) = qhp_interval (h y))"
  using assms
proof (induction xs arbitrary: m h qs)
  case (Cons x xs)
  let ?q = "fst x" and ?iv = "snd x"
  have q: "interval_ok ?iv" "addable off m qs ?q"
    using Cons.prems by (auto simp: request_ok_def addable_def)
  obtain m1 h1 qs1 where s1: "add_qh ?q ?iv (m, h) = Inr (m1, h1)" "plm_ok off (m1, h1) qs1"
      "served off (m1, h1) qs1" "set qs1 = insert (mm_ptr ?q) (set qs)"
      "plm_ctrl_ds_segment m1 = plm_ctrl_ds_segment m" "plm_qhs m1 = (plm_qhs m)[power_of ?iv := Some ?q]"
      "\<forall>x. qhp_interval (h1 x) = (if x = mm_ptr ?q then ?iv else qhp_interval (h x))"
    using add_qh_served [OF Cons.prems(1) q(2,1) Cons.prems(2)] Cons.prems(7) by auto
  have low: "\<forall>y \<in> set xs. \<forall>j < power_of (snd y). plm_qhs m1 ! j = None"
    using Cons.prems(6,7) s1(6) by (auto simp: nth_list_update dest: less_le_trans)
  have rest: "list_all (request_ok off (plm_ctrl_ds_segment m1)) xs" "distinct (map (\<lambda>x. mm_ptr (fst x)) xs)"
      "\<forall>y \<in> set xs. mm_ptr (fst y) \<notin> set qs1"
      "sorted_wrt (\<lambda>a b. power_of (snd b) \<le> power_of (snd a)) xs"
  proof -
    have "mm_ptr (fst y) \<noteq> mm_ptr ?q" if "y \<in> set xs" for y
    proof -
      have "mm_ptr ?q \<notin> (\<lambda>x. mm_ptr (fst x)) ` set xs" using Cons.prems(4) by simp
      then show ?thesis using that by (metis (mono_tags, lifting) image_eqI)
    qed
    then show "\<forall>y \<in> set xs. mm_ptr (fst y) \<notin> set qs1" using Cons.prems(5) s1(4) by simp
  qed (use Cons.prems(3,4,6) s1(5) in simp_all)
  obtain m2 h2 qs2 where s2: "add_all xs (m1, h1) = Inr (m2, h2)" "plm_ok off (m2, h2) qs2"
      "served off (m2, h2) qs2" "set qs2 = mm_ptr ` fst ` set xs \<union> set qs1"
      "\<forall>y \<in> set xs. qhp_interval (h2 (mm_ptr (fst y))) = snd y"
      "\<forall>y. y \<notin> mm_ptr ` fst ` set xs \<longrightarrow> qhp_interval (h2 y) = qhp_interval (h1 y)"
    using Cons.IH [OF s1(2,3) rest low] by blast
  have "mm_ptr ?q \<notin> mm_ptr ` fst ` set xs" using Cons.prems(4) by force
  then have "qhp_interval (h2 (mm_ptr ?q)) = ?iv" using s2(6) s1(7) by simp
  moreover have "set qs2 = mm_ptr ` fst ` set (x # xs) \<union> set qs" using s2(4) s1(4) by auto
  moreover have "\<forall>y. y \<notin> mm_ptr ` fst ` set (x # xs) \<longrightarrow> qhp_interval (h2 y) = qhp_interval (h y)"
    using s2(6) s1(7) by simp
  ultimately show ?case using s1(1) s2 by (intro exI [of _ m2] exI [of _ h2] exI [of _ qs2]) auto
qed auto



text \<open>C27: The other order goes wrong.  A queue head whose interval is longer than one already present is
  linked behind the fastest one, and then written into the frame list itself at the multiples of
  its interval, over the entry that leads to the faster one: from the first such frame on, the faster
  queue head is not executed in it (here for every interval below 1024 frames).\<close>

theorem slower_insertion_hides_faster:
  assumes ok: "plm_ok off (m, h) qs" "addable off m qs q" "interval_ok iv"
    and new: "plm_qhs m ! power_of iv = None" "find_first 0 (take (power_of iv) (plm_qhs m)) = Some (j, pr)"
    and "power_of iv < 10" "at (off (mm_ptr q)) = mm_ptr q" "\<forall>y \<in> set qs. at (off y) = y" "length qs < n"
  shows "\<exists>s. add_qh q iv (m, h) = Inr s \<and> mm_ptr pr \<in> set qs
    \<and> (\<forall>i < 1024. 0 < i \<longrightarrow> 2 ^ power_of iv dvd i \<longrightarrow> mm_ptr pr \<notin> set (frame_visits at s n i))"
proof -
  let ?k = "power_of iv"
  have j: "j < ?k" "plm_qhs m ! j = Some pr" using found_member [OF ok(1) _ new(2)] assms(6) by auto
  then obtain xs ys where qs: "qs = xs @ mm_ptr pr # ys"
    using plm_ok_member [OF ok(1), of j pr] assms(6) by auto
  let ?e = "PeriodicFrameListElement_new Qh (off (mm_ptr q))"
  let ?m = "m\<lparr>plm_list := slot_loop (\<lambda>i. i AND push_bit j 1 = 0) ?k ?e (2 ^ ?k) (plm_list m),
    plm_qhs := (plm_qhs m)[?k := Some q]\<rparr>"
  obtain h' where h': "add_qh q iv (m, h) = Inr (?m, h')" "plm_ok off (?m, h') (xs @ mm_ptr pr # mm_ptr q # ys)"
    using add_qh_behind [of off m h xs pr ys q iv j] ok new qs by auto
  have slot: "plm_list ?m ! i = ?e" if "i < 1024" "0 < i" "2 ^ ?k dvd i" for i
  proof -
    have "2 ^ Suc j dvd i" using that(3) j(1) by (meson Suc_leI dvd_trans le_imp_power_dvd)
    then have "\<not> bit i j" by (auto simp: bit_iff_odd elim!: dvdE)
    then have "i AND push_bit j 1 = 0"
      by (intro bit_eqI) (auto simp: bit_simps)
    moreover have "2 ^ ?k \<le> i" using that by (simp add: dvd_imp_le)
    ultimately show ?thesis
      using that ok(1) by (simp add: slot_loop_nth plm_ok_def)
  qed
  have l: "plist off h' ((xs @ [mm_ptr pr]) @ mm_ptr q # ys)" using h'(2) by (simp add: plm_ok_def)
  have "walk at h' n (Some (off (mm_ptr q))) = mm_ptr q # ys"
    using h'(2) assms(7-9) qs by (intro walk_plist [OF l]) (auto simp: plm_ok_def)
  moreover have "mm_ptr pr \<notin> set (mm_ptr q # ys)" using l by (auto simp: plist_def)
  moreover have "aligned32 (off (mm_ptr q))" using ok(2) by (simp add: addable_def)
  ultimately have "mm_ptr pr \<notin> set (frame_visits at (?m, h') n i)" if "i < 1024" "0 < i" "2 ^ ?k dvd i" for i
    using slot [OF that] by (simp add: frame_visits_def)
  with h'(1) show ?thesis by (intro exI [of _ "(?m, h')"]) (auto simp: qs)
qed

theorem slower_insertion_hides_faster_witness:
  "\<exists>s1 s2. add_qh (example_pmem 0x80) \<lparr>micro_frames_power = 4\<rparr> (example_plm, example_pheap) = Inr s1
     \<and> add_qh (example_pmem 0x100) \<lparr>micro_frames_power = 6\<rparr> s1 = Inr s2
     \<and> 0x80 \<notin> set (frame_visits ucast s2 2 8)"
proof -
  let ?iv = "\<lparr>micro_frames_power = 4\<rparr> :: normalized_interval" and ?iv' = "\<lparr>micro_frames_power = 6\<rparr> :: normalized_interval"
  have k: "power_of ?iv = 1" "power_of ?iv' = 3" by (simp_all add: frames_power_def)
  have p: "interval_ok ?iv" "interval_ok ?iv'" by (simp_all add: interval_ok_def)
  have ok: "plm_ok ucast (example_plm, example_pheap) []"
    unfolding example_plm_def by (rule plm_ok_empty)
  have q: "addable ucast example_plm [] (example_pmem 0x80)"
    by (simp add: addable_def example_plm_def PeriodicListManager_new_def get_addr_offset_def
        LOWER_4_G_def aligned32_def)
  have qhs: "plm_qhs example_plm = replicate 11 None"
    by (simp add: example_plm_def PeriodicListManager_new_def)
  have n: "plm_qhs example_plm ! power_of ?iv = None" by (simp only: qhs k) simp
  have f: "find_first 0 (take (power_of ?iv) (plm_qhs example_plm)) = None"
    by (simp only: qhs k) simp
  obtain m h where s: "add_qh (example_pmem 0x80) ?iv (example_plm, example_pheap) = Inr (m, h)"
      "plm_ok ucast (m, h) [0x80]" "plm_qhs m = (replicate 11 None)[1 := Some (example_pmem 0x80)]"
      "plm_ctrl_ds_segment m = LOWER_4_G"
    using add_qh_front [OF ok q p(1) n f] k qhs by (auto simp: example_plm_def PeriodicListManager_new_def)
  have q': "addable ucast m [0x80] (example_pmem 0x100)"
    by (simp add: addable_def s(4) get_addr_offset_def LOWER_4_G_def aligned32_def)
  have n': "plm_qhs m ! power_of ?iv' = None" by (simp only: s(3) k) simp
  have f': "find_first 0 (take (power_of ?iv') (plm_qhs m)) = Some (1, example_pmem 0x80)"
    by (simp only: s(3) k) (simp add: numeral_eq_Suc)
  have "\<exists>s. add_qh (example_pmem 0x100) ?iv' (m, h) = Inr s \<and> mm_ptr (example_pmem 0x80) \<in> set [0x80]
    \<and> (\<forall>i < 1024. 0 < i \<longrightarrow> 2 ^ power_of ?iv' dvd i \<longrightarrow>
         mm_ptr (example_pmem 0x80) \<notin> set (frame_visits ucast s 2 i))"
    by (rule slower_insertion_hides_faster [OF s(2) q' p(2) n' f']) (simp_all add: frames_power_def)
  then obtain s2 where "add_qh (example_pmem 0x100) ?iv' (m, h) = Inr s2"
      "\<forall>i < 1024. 0 < i \<longrightarrow> 2 ^ power_of ?iv' dvd i \<longrightarrow> 0x80 \<notin> set (frame_visits ucast s2 2 i)"
    by auto
  moreover from this(2) [rule_format, of 8] have "0x80 \<notin> set (frame_visits ucast s2 2 8)"
    by (simp add: frames_power_def)
  ultimately show ?thesis using s(1) by blast
qed

lemma pheap_capabilities [simp]:
  "endpoint_capabilities (qhp_qh (write_plink p l h x)) = endpoint_capabilities (qhp_qh (h x))"
  "endpoint_capabilities (qhp_qh (write_pprev p q h x)) = endpoint_capabilities (qhp_qh (h x))"
  "endpoint_capabilities (qhp_qh (write_pnext p q h x)) = endpoint_capabilities (qhp_qh (h x))"
  "endpoint_capabilities (qhp_qh (write_pinterval p iv h x)) = endpoint_capabilities (qhp_qh (h x))"
  by (simp_all add: write_plink_def write_pprev_def write_pnext_def write_pinterval_def)

lemma add_qh_capabilities:
  assumes "add_qh q iv (m, h) = Inr (m', h')"
  shows "endpoint_capabilities (qhp_qh (h' x)) = endpoint_capabilities (qhp_qh (prepared q iv h x))"
proof -
  have "endpoint_capabilities (qhp_qh (h' x)) = endpoint_capabilities (qhp_qh (g x))"
    if "add_after_existing q k ex (m, g) = Inr (m', h')" for k ex g
    using that by (auto simp: add_after_existing_def Let_def obind_eq_Inr_iff split: option.splits)
  moreover have "endpoint_capabilities (qhp_qh (h' x)) = endpoint_capabilities (qhp_qh (g x))"
    if "add_new_interval q iv k (m, g) = Inr (m', h')" for k g
    using that by (auto simp: add_new_interval_def Let_def obind_eq_Inr_iff split: option.splits)
  ultimately show ?thesis
    using assms by (auto simp: add_qh_def Let_def obind_eq_Inr_iff split: option.splits)
qed

text \<open>The start mask of an interrupt queue head is computed but written into the split completion
  mask: after \<open>add_qh\<close>, the interrupt schedule mask of the queue head is what it was before, whatever
  the interval.\<close>

theorem s_mask_goes_to_split_mask:
  assumes "add_qh q iv (m, h) = Inr (m', h')"
  shows "EndpointCapabilities_split_completion_mask (endpoint_capabilities (qhp_qh (h' (mm_ptr q)))) = s_mask iv
   \<and> EndpointCapabilities_interrupt_schedule_mask (endpoint_capabilities (qhp_qh (h' (mm_ptr q))))
       = EndpointCapabilities_interrupt_schedule_mask (endpoint_capabilities (qhp_qh (h (mm_ptr q))))"
  using add_qh_capabilities [OF assms]
  by (simp add: update_pcapabilities_def bitfield_defs bitfield)

theorem s_mask_goes_to_split_mask_witness:
  "\<exists>m' h'. add_qh (example_pmem 0x80) \<lparr>micro_frames_power = 1\<rparr> (example_plm, example_pheap) = Inr (m', h')
     \<and> EndpointCapabilities_split_completion_mask (endpoint_capabilities (qhp_qh (h' 0x80))) = 0b01010101
     \<and> EndpointCapabilities_interrupt_schedule_mask (endpoint_capabilities (qhp_qh (h' 0x80))) = 0"
proof -
  let ?iv = "\<lparr>micro_frames_power = 1\<rparr> :: normalized_interval"
  have n: "plm_qhs example_plm ! power_of ?iv = None" "find_first 0 (take (power_of ?iv) (plm_qhs example_plm)) = None"
    by (simp_all add: example_plm_def PeriodicListManager_new_def power_of_eq)
  have "plm_ok ucast (example_plm, example_pheap) []"
    unfolding example_plm_def by (rule plm_ok_empty)
  moreover have "addable ucast example_plm [] (example_pmem 0x80)"
    by (simp add: addable_def example_plm_def PeriodicListManager_new_def get_addr_offset_def
        LOWER_4_G_def aligned32_def)
  moreover have "interval_ok ?iv" by (simp add: interval_ok_def)
  ultimately obtain m' h' where s: "add_qh (example_pmem 0x80) ?iv (example_plm, example_pheap) = Inr (m', h')"
    using add_qh_front [OF _ _ _ n] by blast
  then show ?thesis
    using s_mask_goes_to_split_mask [OF s]
    by (simp add: s_mask_def example_pheap_def Qh_new_def bitfield_defs bitfield)
qed

end
