(* ===== verification/Descriptors.thy ===== *)
theory Descriptors
  imports Setup_Packets
begin

text \<open>
  The descriptors a device sends (\<^verbatim>\<open>common_descriptor.rs\<close>, \<^verbatim>\<open>configuration_descriptor.rs\<close>,
  \<^verbatim>\<open>interface_descriptor.rs\<close>, \<^verbatim>\<open>endpoint_descriptor.rs\<close>, \<^verbatim>\<open>device_descriptor.rs\<close>,
  \<^verbatim>\<open>hub_descriptor.rs\<close>, \<^verbatim>\<open>port_status_data.rs\<close>) and their parsers (\<^verbatim>\<open>device_info.rs\<close>).

  A \<^verbatim>\<open>repr(C)\<close> struct of byte-aligned fields is a record, read from a byte string of exactly its
  size.  The two nested loops of \<^verbatim>\<open>ConfigurationInfo::from_descriptor\<close> advance by lengths the
  device chose, so they are \<^theory_text>\<open>partial_function (option)\<close>: \<open>None\<close> is the loop that never
  ends, \<open>Some (Inl e)\<close> a panic.
\<close>

subsection \<open>Layouts\<close>

record common_descriptor =
  cd_b_length :: u8
  cd_b_descriptor_type :: u8

record configuration_descriptor =
  cfg_b_length :: u8
  cfg_b_descriptor_type :: u8
  cfg_w_total_length :: u16
  cfg_b_num_interfaces :: u8
  cfg_b_configuration_value :: u8
  cfg_i_configuration :: u8
  cfg_bm_attributes :: u8
  cfg_b_max_power :: u8

record interface_descriptor =
  if_b_length :: u8
  if_b_descriptor_type :: u8
  if_b_interface_number :: u8
  if_b_alternate_setting :: u8
  if_b_num_endpoints :: u8
  if_b_interface_class :: u8
  if_b_interface_sub_class :: u8
  if_b_interface_protocol :: u8
  if_i_interface :: u8

record endpoint_descriptor =
  ep_b_length :: u8
  ep_b_descriptor_type :: u8
  ep_b_endpoint_address :: u8
  ep_bm_attributes :: u8
  ep_w_max_packet_size :: u16
  ep_b_interval :: u8

record device_descriptor =
  dd_b_length :: u8
  dd_b_descriptor_type :: u8
  dd_bcd_usb :: bytes
  dd_b_device_class :: u8
  dd_b_device_sub_class :: u8
  dd_b_device_protocol :: u8
  dd_b_max_packet_size :: u8
  dd_id_vendor :: u16
  dd_id_product :: u16
  dd_bcd_device :: u16
  dd_i_manufacturer :: u8
  dd_i_product :: u8
  dd_i_serial_number :: u8
  dd_b_num_configurations :: u8

text \<open>\<^verbatim>\<open>ref_from_bytes\<close> and \<^verbatim>\<open>read_from_bytes\<close> succeed on a slice of exactly the size of the struct.\<close>

fun CommonDescriptor_from_bytes :: "bytes \<Rightarrow> common_descriptor option" where
  "CommonDescriptor_from_bytes [l, t] = Some \<lparr>cd_b_length = l, cd_b_descriptor_type = t\<rparr>"
| "CommonDescriptor_from_bytes _ = None"

fun ConfigurationDescriptor_from_bytes :: "bytes \<Rightarrow> configuration_descriptor option" where
  "ConfigurationDescriptor_from_bytes [l, t, w0, w1, n, v, i, a, p] =
     Some \<lparr>cfg_b_length = l, cfg_b_descriptor_type = t, cfg_w_total_length = u16_from_le_bytes w0 w1,
       cfg_b_num_interfaces = n, cfg_b_configuration_value = v, cfg_i_configuration = i,
       cfg_bm_attributes = a, cfg_b_max_power = p\<rparr>"
| "ConfigurationDescriptor_from_bytes _ = None"

fun InterfaceDescriptor_from_bytes :: "bytes \<Rightarrow> interface_descriptor option" where
  "InterfaceDescriptor_from_bytes [l, t, n, a, e, c, s, p, i] =
     Some \<lparr>if_b_length = l, if_b_descriptor_type = t, if_b_interface_number = n,
       if_b_alternate_setting = a, if_b_num_endpoints = e, if_b_interface_class = c,
       if_b_interface_sub_class = s, if_b_interface_protocol = p, if_i_interface = i\<rparr>"
| "InterfaceDescriptor_from_bytes _ = None"

fun EndpointDescriptor_from_bytes :: "bytes \<Rightarrow> endpoint_descriptor option" where
  "EndpointDescriptor_from_bytes [l, t, a, m, s0, s1, i] =
     Some \<lparr>ep_b_length = l, ep_b_descriptor_type = t, ep_b_endpoint_address = a,
       ep_bm_attributes = m, ep_w_max_packet_size = u16_from_le_bytes s0 s1, ep_b_interval = i\<rparr>"
| "EndpointDescriptor_from_bytes _ = None"

fun DeviceDescriptor_from_bytes :: "bytes \<Rightarrow> device_descriptor option" where
  "DeviceDescriptor_from_bytes [l, t, u0, u1, c, s, p, m, v0, v1, p0, p1, d0, d1, im, ip, is, n] =
     Some \<lparr>dd_b_length = l, dd_b_descriptor_type = t, dd_bcd_usb = [u0, u1], dd_b_device_class = c,
       dd_b_device_sub_class = s, dd_b_device_protocol = p, dd_b_max_packet_size = m,
       dd_id_vendor = u16_from_le_bytes v0 v1, dd_id_product = u16_from_le_bytes p0 p1,
       dd_bcd_device = u16_from_le_bytes d0 d1, dd_i_manufacturer = im, dd_i_product = ip,
       dd_i_serial_number = is, dd_b_num_configurations = n\<rparr>"
| "DeviceDescriptor_from_bytes _ = None"

subsection \<open>Fields of endpoint descriptors\<close>

type_synonym endpoint_address = u8

definition EndpointAddress_endpoint_number :: "endpoint_address \<Rightarrow> u4" where [bitfield_defs]:
  "EndpointAddress_endpoint_number = bits_get 0"

definition EndpointAddress_with_endpoint_number :: "u4 \<Rightarrow> endpoint_address \<Rightarrow> endpoint_address" where [bitfield_defs]:
  "EndpointAddress_with_endpoint_number = bits_set 0"

definition EndpointAddress_direction :: "endpoint_address \<Rightarrow> bool" where [bitfield_defs]:
  "EndpointAddress_direction = flag_get 7"

definition EndpointAddress_with_direction :: "bool \<Rightarrow> endpoint_address \<Rightarrow> endpoint_address" where [bitfield_defs]:
  "EndpointAddress_with_direction = flag_set 7"

type_synonym endpoint_attributes = u8

definition EndpointAttributes_transfer_type :: "endpoint_attributes \<Rightarrow> u2" where [bitfield_defs]:
  "EndpointAttributes_transfer_type = bits_get 0"

definition EndpointAttributes_with_transfer_type :: "u2 \<Rightarrow> endpoint_attributes \<Rightarrow> endpoint_attributes" where [bitfield_defs]:
  "EndpointAttributes_with_transfer_type = bits_set 0"

definition EndpointAttributes_synchronization_type :: "endpoint_attributes \<Rightarrow> u2" where [bitfield_defs]:
  "EndpointAttributes_synchronization_type = bits_get 2"

definition EndpointAttributes_with_synchronization_type :: "u2 \<Rightarrow> endpoint_attributes \<Rightarrow> endpoint_attributes" where [bitfield_defs]:
  "EndpointAttributes_with_synchronization_type = bits_set 2"

definition EndpointAttributes_usage_type :: "endpoint_attributes \<Rightarrow> u2" where [bitfield_defs]:
  "EndpointAttributes_usage_type = bits_get 4"

definition EndpointAttributes_with_usage_type :: "u2 \<Rightarrow> endpoint_attributes \<Rightarrow> endpoint_attributes" where [bitfield_defs]:
  "EndpointAttributes_with_usage_type = bits_set 4"

type_synonym endpoint_max_packet_size = u16

definition EndpointMaxPacketSize_max_packet_size :: "endpoint_max_packet_size \<Rightarrow> u11" where [bitfield_defs]:
  "EndpointMaxPacketSize_max_packet_size = bits_get 0"

definition EndpointMaxPacketSize_with_max_packet_size :: "u11 \<Rightarrow> endpoint_max_packet_size \<Rightarrow> endpoint_max_packet_size" where [bitfield_defs]:
  "EndpointMaxPacketSize_with_max_packet_size = bits_set 0"

definition EndpointMaxPacketSize_additional_transaction_opportunities_per_microframe :: "endpoint_max_packet_size \<Rightarrow> u2" where [bitfield_defs]:
  "EndpointMaxPacketSize_additional_transaction_opportunities_per_microframe = bits_get 11"

definition EndpointMaxPacketSize_with_additional_transaction_opportunities_per_microframe :: "u2 \<Rightarrow> endpoint_max_packet_size \<Rightarrow> endpoint_max_packet_size" where [bitfield_defs]:
  "EndpointMaxPacketSize_with_additional_transaction_opportunities_per_microframe = bits_set 11"

datatype TransferType =
    TransferType_Control | TransferType_Isochronous | TransferType_Bulk | TransferType_Interrupt

text \<open>\<^verbatim>\<open>try_from(value).unwrap()\<close> of a two-bit value cannot fail: all four values are named.\<close>

definition TransferType_from_u2 :: "u2 \<Rightarrow> TransferType" where
  "TransferType_from_u2 v =
     (if v = 0 then TransferType_Control else if v = 1 then TransferType_Isochronous
      else if v = 2 then TransferType_Bulk else TransferType_Interrupt)"

fun u2_from_TransferType :: "TransferType \<Rightarrow> u2" where
  "u2_from_TransferType TransferType_Control = 0"
| "u2_from_TransferType TransferType_Isochronous = 1"
| "u2_from_TransferType TransferType_Bulk = 2"
| "u2_from_TransferType TransferType_Interrupt = 3"

subsection \<open>Device and configuration information\<close>

record usb_version =
  minor :: u8
  major :: u8

record endpoint_info =
  ei_endpoint_address :: endpoint_address
  ei_attributes :: endpoint_attributes
  ei_max_packet_size :: endpoint_max_packet_size
  ei_interval :: u8

record interface_info =
  ii_interface_number :: u8
  ii_alternate_setting :: u8
  ii_class :: u8
  ii_sub_class :: u8
  ii_protocol :: u8
  ii_name :: "string option"
  ii_endpoints :: "endpoint_info list"

record configuration_info =
  ci_number :: u8
  ci_name :: "string option"
  ci_attributes :: u8
  ci_max_power :: u8
  ci_interfaces :: "interface_info list"

record device_info =
  di_usb_version :: usb_version
  di_device_class :: u8
  di_device_sub_class :: u8
  di_device_protocol :: u8
  di_max_packet_size :: u8
  di_vendor_id :: u16
  di_product_id :: u16
  di_bcd_device :: u16
  di_manufacturer :: "string option"
  di_product :: "string option"
  di_serial_number :: "string option"
  di_configurations :: "configuration_info list"

text \<open>\<^verbatim>\<open>transmute!(bcd_usb)\<close> reads the two bytes as the fields of \<^verbatim>\<open>UsbVersion\<close> in order.\<close>

definition DeviceInfo_from_descriptor :: "device_descriptor \<Rightarrow> configuration_info list \<Rightarrow> device_info" where
  "DeviceInfo_from_descriptor d configurations =
     \<lparr>di_usb_version = \<lparr>minor = dd_bcd_usb d ! 0, major = dd_bcd_usb d ! 1\<rparr>,
      di_device_class = dd_b_device_class d,
      di_device_sub_class = dd_b_device_sub_class d,
      di_device_protocol = dd_b_device_protocol d,
      di_max_packet_size = dd_b_max_packet_size d,
      di_vendor_id = dd_id_vendor d,
      di_product_id = dd_id_product d,
      di_bcd_device = dd_bcd_device d,
      di_manufacturer = None,
      di_product = None,
      di_serial_number = None,
      di_configurations = configurations\<rparr>"

subsection \<open>The parser of configuration descriptors\<close>

definition common_at :: "bytes \<Rightarrow> nat \<Rightarrow> common_descriptor outcome" where
  "common_at d position =
     obind (slice_range d position 2) (\<lambda>s. unwrap_opt (CommonDescriptor_from_bytes s))"

definition interface_at :: "bytes \<Rightarrow> nat \<Rightarrow> interface_descriptor outcome" where
  "interface_at d position =
     obind (slice_range d position 9) (\<lambda>s. unwrap_opt (InterfaceDescriptor_from_bytes s))"

definition endpoint_at :: "bytes \<Rightarrow> nat \<Rightarrow> endpoint_descriptor outcome" where
  "endpoint_at d position =
     obind (slice_range d position 7) (\<lambda>s. unwrap_opt (EndpointDescriptor_from_bytes s))"

definition EndpointInfo_of :: "endpoint_descriptor \<Rightarrow> endpoint_info" where
  "EndpointInfo_of e =
     \<lparr>ei_endpoint_address = ep_b_endpoint_address e, ei_attributes = ep_bm_attributes e,
      ei_max_packet_size = ep_w_max_packet_size e, ei_interval = ep_b_interval e\<rparr>"

definition InterfaceInfo_of :: "interface_descriptor \<Rightarrow> endpoint_info list \<Rightarrow> interface_info" where
  "InterfaceInfo_of i endpoints =
     \<lparr>ii_interface_number = if_b_interface_number i, ii_alternate_setting = if_b_alternate_setting i,
      ii_class = if_b_interface_class i, ii_sub_class = if_b_interface_sub_class i,
      ii_protocol = if_b_interface_protocol i, ii_name = None, ii_endpoints = endpoints\<rparr>"

text \<open>The inner loop, over the endpoints of one interface.\<close>

partial_function (option) endpoint_loop ::
    "bytes \<Rightarrow> nat \<Rightarrow> nat \<Rightarrow> nat \<Rightarrow> endpoint_info list
      \<Rightarrow> (nat \<times> endpoint_info list) outcome option" where
  "endpoint_loop d n position endpoint_index endpoints =
     (if endpoint_index < n
      then case common_at d position of
             Inl e \<Rightarrow> Some (Inl e)
           | Inr descriptor \<Rightarrow>
               if cd_b_descriptor_type descriptor = u8_from_DescriptorType DescriptorType_Endpoint
               then case endpoint_at d position of
                      Inl e \<Rightarrow> Some (Inl e)
                    | Inr ed \<Rightarrow>
                        endpoint_loop d n (position + unat (cd_b_length descriptor))
                          (endpoint_index + 1) (endpoints @ [EndpointInfo_of ed])
               else endpoint_loop d n (position + unat (cd_b_length descriptor)) endpoint_index endpoints
      else Some (Inr (position, endpoints)))"

text \<open>The outer loop, over the interfaces of the configuration.\<close>

partial_function (option) interface_loop ::
    "bytes \<Rightarrow> nat \<Rightarrow> nat \<Rightarrow> nat \<Rightarrow> interface_info list \<Rightarrow> interface_info list outcome option" where
  "interface_loop d n position interface_index interfaces =
     (if interface_index < n
      then case common_at d position of
             Inl e \<Rightarrow> Some (Inl e)
           | Inr descriptor \<Rightarrow>
               if cd_b_descriptor_type descriptor = u8_from_DescriptorType DescriptorType_Interface
               then case interface_at d position of
                      Inl e \<Rightarrow> Some (Inl e)
                    | Inr idesc \<Rightarrow>
                        Option.bind
                          (endpoint_loop d (unat (if_b_num_endpoints idesc))
                             (position + unat (cd_b_length descriptor)) 0 [])
                          (\<lambda>r. case r of
                                 Inl e \<Rightarrow> Some (Inl e)
                               | Inr (position', endpoints) \<Rightarrow>
                                   interface_loop d n position' (interface_index + 1)
                                     (interfaces @ [InterfaceInfo_of idesc endpoints]))
               else interface_loop d n (position + unat (cd_b_length descriptor))
                      interface_index interfaces
      else Some (Inr interfaces))"

definition ConfigurationInfo_from_descriptor :: "bytes \<Rightarrow> configuration_info outcome option" where
  "ConfigurationInfo_from_descriptor d =
     (case obind (slice_range d 0 9) (\<lambda>s. unwrap_opt (ConfigurationDescriptor_from_bytes s)) of
        Inl e \<Rightarrow> Some (Inl e)
      | Inr cfg \<Rightarrow>
          Option.bind (interface_loop d (unat (cfg_b_num_interfaces cfg)) 9 0 [])
            (\<lambda>r. case r of
                   Inl e \<Rightarrow> Some (Inl e)
                 | Inr interfaces \<Rightarrow>
                     Some (Inr \<lparr>ci_number = cfg_b_configuration_value cfg, ci_name = None,
                       ci_attributes = cfg_bm_attributes cfg, ci_max_power = cfg_b_max_power cfg,
                       ci_interfaces = interfaces\<rparr>)))"

subsection \<open>Hub descriptors\<close>

record hub_descriptor_fixed_size_fields =
  hd_b_desc_len :: u8
  hd_b_descriptor_type :: u8
  hd_b_nbr_ports :: u8
  hd_w_hub_characteristics :: u16
  hd_b_pwr_on_2_pwr_good :: u8
  hd_b_hub_contr_current :: u8

record hub_descriptor =
  fixed_size_fields :: hub_descriptor_fixed_size_fields
  device_removable :: bytes

fun HubDescriptorFixedSizeFields_from_bytes :: "bytes \<Rightarrow> hub_descriptor_fixed_size_fields option" where
  "HubDescriptorFixedSizeFields_from_bytes [l, t, n, c0, c1, p, c] =
     Some \<lparr>hd_b_desc_len = l, hd_b_descriptor_type = t, hd_b_nbr_ports = n,
       hd_w_hub_characteristics = u16_from_le_bytes c0 c1, hd_b_pwr_on_2_pwr_good = p,
       hd_b_hub_contr_current = c\<rparr>"
| "HubDescriptorFixedSizeFields_from_bytes _ = None"

text \<open>\<^verbatim>\<open>size_of::<HubDescriptor>()\<close>.\<close>

definition size_of_HubDescriptor :: nat where
  "size_of_HubDescriptor = 7 + 32"

text \<open>\<^verbatim>\<open>(usize::from(b_nbr_ports) + 1).div_ceil(8)\<close>; the slice \<^verbatim>\<open>device_removable[..n]\<close> of the
  32-byte array panics beyond 32.\<close>

definition HubDescriptor_from_bytes :: "bytes \<Rightarrow> hub_descriptor outcome" where
  "HubDescriptor_from_bytes bytes =
     obind (slice_range bytes 0 7) (\<lambda>s.
     obind (unwrap_opt (HubDescriptorFixedSizeFields_from_bytes s)) (\<lambda>fixed.
     let bytes_to_copy = (unat (hd_b_nbr_ports fixed) + 1 + 7) div 8
     in if bytes_to_copy > 32 then Inl IndexOutOfBounds
        else obind (slice_range bytes 7 bytes_to_copy) (\<lambda>src.
             Inr \<lparr>fixed_size_fields = fixed,
                  device_removable = src @ replicate (32 - bytes_to_copy) 0\<rparr>)))"

type_synonym hub_characteristics = u16

definition HubCharacteristics_logical_power_switching_mode :: "hub_characteristics \<Rightarrow> u2" where [bitfield_defs]:
  "HubCharacteristics_logical_power_switching_mode = bits_get 0"

definition HubCharacteristics_with_logical_power_switching_mode :: "u2 \<Rightarrow> hub_characteristics \<Rightarrow> hub_characteristics" where [bitfield_defs]:
  "HubCharacteristics_with_logical_power_switching_mode = bits_set 0"

definition HubCharacteristics_is_part_of_a_compound_device :: "hub_characteristics \<Rightarrow> bool" where [bitfield_defs]:
  "HubCharacteristics_is_part_of_a_compound_device = flag_get 2"

definition HubCharacteristics_with_is_part_of_a_compound_device :: "bool \<Rightarrow> hub_characteristics \<Rightarrow> hub_characteristics" where [bitfield_defs]:
  "HubCharacteristics_with_is_part_of_a_compound_device = flag_set 2"

definition HubCharacteristics_over_current_protection_mode :: "hub_characteristics \<Rightarrow> u2" where [bitfield_defs]:
  "HubCharacteristics_over_current_protection_mode = bits_get 3"

definition HubCharacteristics_with_over_current_protection_mode :: "u2 \<Rightarrow> hub_characteristics \<Rightarrow> hub_characteristics" where [bitfield_defs]:
  "HubCharacteristics_with_over_current_protection_mode = bits_set 3"

definition HubCharacteristics_tt_think_time :: "hub_characteristics \<Rightarrow> u2" where [bitfield_defs]:
  "HubCharacteristics_tt_think_time = bits_get 5"

definition HubCharacteristics_with_tt_think_time :: "u2 \<Rightarrow> hub_characteristics \<Rightarrow> hub_characteristics" where [bitfield_defs]:
  "HubCharacteristics_with_tt_think_time = bits_set 5"

definition HubCharacteristics_port_indicators_supported :: "hub_characteristics \<Rightarrow> bool" where [bitfield_defs]:
  "HubCharacteristics_port_indicators_supported = flag_get 7"

definition HubCharacteristics_with_port_indicators_supported :: "bool \<Rightarrow> hub_characteristics \<Rightarrow> hub_characteristics" where [bitfield_defs]:
  "HubCharacteristics_with_port_indicators_supported = flag_set 7"

datatype LogicalPowerSwitchingMode = GangedPowerSwitching | IndividualPortPowerSwitching | NoPowerSwitching

definition from_hub_characteristic_bits :: "u2 \<Rightarrow> LogicalPowerSwitchingMode" where
  "from_hub_characteristic_bits b =
     (if b = 0 then GangedPowerSwitching else if b = 1 then IndividualPortPowerSwitching
      else NoPowerSwitching)"

subsection \<open>Hub port status\<close>

record port_status_data =
  w_port_status :: u16
  w_port_change :: u16

text \<open>\<^verbatim>\<open>transmute!\<close> of four bytes.\<close>

definition PortStatusData_from_bytes :: "u8 \<Rightarrow> u8 \<Rightarrow> u8 \<Rightarrow> u8 \<Rightarrow> port_status_data" where
  "PortStatusData_from_bytes s0 s1 c0 c1 =
     \<lparr>w_port_status = u16_from_le_bytes s0 s1, w_port_change = u16_from_le_bytes c0 c1\<rparr>"

type_synonym port_status = u16

definition PortStatus_current_connect_status :: "port_status \<Rightarrow> bool" where [bitfield_defs]:
  "PortStatus_current_connect_status = flag_get 0"

definition PortStatus_with_current_connect_status :: "bool \<Rightarrow> port_status \<Rightarrow> port_status" where [bitfield_defs]:
  "PortStatus_with_current_connect_status = flag_set 0"

definition PortStatus_port_enable :: "port_status \<Rightarrow> bool" where [bitfield_defs]:
  "PortStatus_port_enable = flag_get 1"

definition PortStatus_with_port_enable :: "bool \<Rightarrow> port_status \<Rightarrow> port_status" where [bitfield_defs]:
  "PortStatus_with_port_enable = flag_set 1"

definition PortStatus_suspend :: "port_status \<Rightarrow> bool" where [bitfield_defs]:
  "PortStatus_suspend = flag_get 2"

definition PortStatus_with_suspend :: "bool \<Rightarrow> port_status \<Rightarrow> port_status" where [bitfield_defs]:
  "PortStatus_with_suspend = flag_set 2"

definition PortStatus_over_current :: "port_status \<Rightarrow> bool" where [bitfield_defs]:
  "PortStatus_over_current = flag_get 3"

definition PortStatus_with_over_current :: "bool \<Rightarrow> port_status \<Rightarrow> port_status" where [bitfield_defs]:
  "PortStatus_with_over_current = flag_set 3"

definition PortStatus_reset :: "port_status \<Rightarrow> bool" where [bitfield_defs]:
  "PortStatus_reset = flag_get 4"

definition PortStatus_with_reset :: "bool \<Rightarrow> port_status \<Rightarrow> port_status" where [bitfield_defs]:
  "PortStatus_with_reset = flag_set 4"

definition PortStatus_port_power :: "port_status \<Rightarrow> bool" where [bitfield_defs]:
  "PortStatus_port_power = flag_get 8"

definition PortStatus_with_port_power :: "bool \<Rightarrow> port_status \<Rightarrow> port_status" where [bitfield_defs]:
  "PortStatus_with_port_power = flag_set 8"

definition PortStatus_low_speed_device_attached :: "port_status \<Rightarrow> bool" where [bitfield_defs]:
  "PortStatus_low_speed_device_attached = flag_get 9"

definition PortStatus_with_low_speed_device_attached :: "bool \<Rightarrow> port_status \<Rightarrow> port_status" where [bitfield_defs]:
  "PortStatus_with_low_speed_device_attached = flag_set 9"

definition PortStatus_high_speed_device_attached :: "port_status \<Rightarrow> bool" where [bitfield_defs]:
  "PortStatus_high_speed_device_attached = flag_get 10"

definition PortStatus_with_high_speed_device_attached :: "bool \<Rightarrow> port_status \<Rightarrow> port_status" where [bitfield_defs]:
  "PortStatus_with_high_speed_device_attached = flag_set 10"

definition PortStatus_port_test_mode :: "port_status \<Rightarrow> bool" where [bitfield_defs]:
  "PortStatus_port_test_mode = flag_get 11"

definition PortStatus_with_port_test_mode :: "bool \<Rightarrow> port_status \<Rightarrow> port_status" where [bitfield_defs]:
  "PortStatus_with_port_test_mode = flag_set 11"

definition PortStatus_port_indicator_control :: "port_status \<Rightarrow> bool" where [bitfield_defs]:
  "PortStatus_port_indicator_control = flag_get 12"

definition PortStatus_with_port_indicator_control :: "bool \<Rightarrow> port_status \<Rightarrow> port_status" where [bitfield_defs]:
  "PortStatus_with_port_indicator_control = flag_set 12"

type_synonym port_change = u16

definition PortChange_connect_status_change :: "port_change \<Rightarrow> bool" where [bitfield_defs]:
  "PortChange_connect_status_change = flag_get 0"

definition PortChange_with_connect_status_change :: "bool \<Rightarrow> port_change \<Rightarrow> port_change" where [bitfield_defs]:
  "PortChange_with_connect_status_change = flag_set 0"

definition PortChange_port_enable_change :: "port_change \<Rightarrow> bool" where [bitfield_defs]:
  "PortChange_port_enable_change = flag_get 1"

definition PortChange_with_port_enable_change :: "bool \<Rightarrow> port_change \<Rightarrow> port_change" where [bitfield_defs]:
  "PortChange_with_port_enable_change = flag_set 1"

definition PortChange_port_suspend_change :: "port_change \<Rightarrow> bool" where [bitfield_defs]:
  "PortChange_port_suspend_change = flag_get 2"

definition PortChange_with_port_suspend_change :: "bool \<Rightarrow> port_change \<Rightarrow> port_change" where [bitfield_defs]:
  "PortChange_with_port_suspend_change = flag_set 2"

definition PortChange_over_current_indicator_change :: "port_change \<Rightarrow> bool" where [bitfield_defs]:
  "PortChange_over_current_indicator_change = flag_get 3"

definition PortChange_with_over_current_indicator_change :: "bool \<Rightarrow> port_change \<Rightarrow> port_change" where [bitfield_defs]:
  "PortChange_with_over_current_indicator_change = flag_set 3"

definition PortChange_port_reset_change :: "port_change \<Rightarrow> bool" where [bitfield_defs]:
  "PortChange_port_reset_change = flag_get 4"

definition PortChange_with_port_reset_change :: "bool \<Rightarrow> port_change \<Rightarrow> port_change" where [bitfield_defs]:
  "PortChange_with_port_reset_change = flag_set 4"

datatype DeviceSpeed = DeviceSpeed_Low | DeviceSpeed_Full | DeviceSpeed_High

definition attached_device_speed :: "port_status \<Rightarrow> DeviceSpeed option" where
  "attached_device_speed s =
     (if PortStatus_port_enable s
      then Some (case (PortStatus_low_speed_device_attached s, PortStatus_high_speed_device_attached s) of
                   (True, _) \<Rightarrow> DeviceSpeed_Low
                 | (False, False) \<Rightarrow> DeviceSpeed_Full
                 | (False, True) \<Rightarrow> DeviceSpeed_High)
      else None)"

subsection \<open>The wire format of a configuration\<close>

text \<open>
  What a conforming device sends for a configuration: descriptors that start with their own length
  and their type, where an interface descriptor is followed by its endpoints, and descriptors
  of other kinds (class-specific ones, for instance) may stand before each of them.  A descriptor
  may be longer than the part the parser knows (\<open>trailing\<close>).
\<close>

definition descriptor_length :: "bytes \<Rightarrow> u8" where
  "descriptor_length body = of_nat (length body + 2)"

definition raw_descriptor :: "u8 \<Rightarrow> bytes \<Rightarrow> bytes" where
  "raw_descriptor t body = descriptor_length body # t # body"

definition raw_descriptors :: "(u8 \<times> bytes) list \<Rightarrow> bytes" where
  "raw_descriptors ds = concat (map (\<lambda>(t, body). raw_descriptor t body) ds)"

record endpoint_source =
  es_skipped :: "(u8 \<times> bytes) list"
  es_info :: endpoint_info
  es_trailing :: bytes

record interface_source =
  is_skipped :: "(u8 \<times> bytes) list"
  is_info :: interface_info
  is_string_index :: u8
  is_trailing :: bytes
  is_endpoints :: "endpoint_source list"

definition endpoint_body :: "endpoint_source \<Rightarrow> bytes" where
  "endpoint_body e =
     [ei_endpoint_address (es_info e), ei_attributes (es_info e)]
       @ u16_to_le_bytes (ei_max_packet_size (es_info e)) @ [ei_interval (es_info e)]
       @ es_trailing e"

definition interface_body :: "interface_source \<Rightarrow> bytes" where
  "interface_body i =
     [ii_interface_number (is_info i), ii_alternate_setting (is_info i),
      of_nat (length (is_endpoints i)), ii_class (is_info i), ii_sub_class (is_info i),
      ii_protocol (is_info i), is_string_index i] @ is_trailing i"

definition encode_endpoint :: "endpoint_source \<Rightarrow> bytes" where
  "encode_endpoint e = raw_descriptors (es_skipped e) @ raw_descriptor 5 (endpoint_body e)"

definition encode_interface :: "interface_source \<Rightarrow> bytes" where
  "encode_interface i =
     raw_descriptors (is_skipped i) @ raw_descriptor 4 (interface_body i)
       @ concat (map encode_endpoint (is_endpoints i))"

definition encode_configuration :: "u16 \<Rightarrow> u8 \<Rightarrow> configuration_info \<Rightarrow> interface_source list \<Rightarrow> bytes" where
  "encode_configuration len string_index c is =
     [9, 2] @ u16_to_le_bytes len
       @ [of_nat (length is), ci_number c, string_index, ci_attributes c, ci_max_power c]
       @ concat (map encode_interface is)"

definition skipped_ok :: "u8 \<Rightarrow> (u8 \<times> bytes) list \<Rightarrow> bool" where
  "skipped_ok t ds \<longleftrightarrow> (\<forall>(t', body) \<in> set ds. t' \<noteq> t \<and> length body + 2 < 256)"

definition endpoint_source_ok :: "endpoint_source \<Rightarrow> bool" where
  "endpoint_source_ok e \<longleftrightarrow> skipped_ok 5 (es_skipped e) \<and> length (es_trailing e) < 249"

definition interface_source_ok :: "interface_source \<Rightarrow> bool" where
  "interface_source_ok i \<longleftrightarrow>
     skipped_ok 4 (is_skipped i) \<and> length (is_trailing i) < 247 \<and> length (is_endpoints i) < 256
     \<and> list_all endpoint_source_ok (is_endpoints i)"

definition parsed_interface :: "interface_source \<Rightarrow> interface_info" where
  "parsed_interface i = (is_info i)\<lparr>ii_name := None, ii_endpoints := map es_info (is_endpoints i)\<rparr>"

lemma unat_of_nat_u8 [simp]: "n < 256 \<Longrightarrow> unat (of_nat n :: u8) = n"
  by (simp add: unat_of_nat take_bit_nat_eq_self)

lemma unat_descriptor_length [simp]:
  "length body < 254 \<Longrightarrow> unat (descriptor_length body) = length body + 2"
  unfolding descriptor_length_def by (rule unat_of_nat_u8) simp

lemma length_raw_descriptor [simp]: "length (raw_descriptor t body) = length body + 2"
  by (simp add: raw_descriptor_def)

lemma raw_descriptors_Cons [simp]:
  "raw_descriptors [] = []"
  "raw_descriptors ((t, body) # ds) = raw_descriptor t body @ raw_descriptors ds"
  by (simp_all add: raw_descriptors_def)

lemma skipped_ok_simps [simp]:
  "skipped_ok t []"
  "skipped_ok t ((t', body) # ds) \<longleftrightarrow> t' \<noteq> t \<and> length body + 2 < 256 \<and> skipped_ok t ds"
  by (simp_all add: skipped_ok_def)

lemma common_at_raw [simp]:
  "common_at (pre @ raw_descriptor t body @ post) (length pre) =
     Inr \<lparr>cd_b_length = descriptor_length body, cd_b_descriptor_type = t\<rparr>"
  by (simp add: common_at_def slice_range_def raw_descriptor_def)

lemma endpoint_at_raw:
  "endpoint_at (pre @ raw_descriptor t (endpoint_body e) @ post) (length pre) =
     Inr \<lparr>ep_b_length = descriptor_length (endpoint_body e), ep_b_descriptor_type = t,
       ep_b_endpoint_address = ei_endpoint_address (es_info e),
       ep_bm_attributes = ei_attributes (es_info e),
       ep_w_max_packet_size = ei_max_packet_size (es_info e),
       ep_b_interval = ei_interval (es_info e)\<rparr>"
  by (simp add: endpoint_at_def slice_range_def raw_descriptor_def endpoint_body_def
      u16_to_le_bytes_def)

lemma interface_at_raw:
  "interface_at (pre @ raw_descriptor t (interface_body i) @ post) (length pre) =
     Inr \<lparr>if_b_length = descriptor_length (interface_body i), if_b_descriptor_type = t,
       if_b_interface_number = ii_interface_number (is_info i),
       if_b_alternate_setting = ii_alternate_setting (is_info i),
       if_b_num_endpoints = of_nat (length (is_endpoints i)),
       if_b_interface_class = ii_class (is_info i),
       if_b_interface_sub_class = ii_sub_class (is_info i),
       if_b_interface_protocol = ii_protocol (is_info i), if_i_interface = is_string_index i\<rparr>"
  by (simp add: interface_at_def slice_range_def raw_descriptor_def interface_body_def)

lemma EndpointInfo_of_record [simp]:
  "EndpointInfo_of \<lparr>ep_b_length = l, ep_b_descriptor_type = t,
     ep_b_endpoint_address = ei_endpoint_address e, ep_bm_attributes = ei_attributes e,
     ep_w_max_packet_size = ei_max_packet_size e, ep_b_interval = ei_interval e\<rparr> = e"
  by (simp add: EndpointInfo_of_def)

text \<open>Descriptors of other kinds are stepped over.\<close>

lemma endpoint_loop_skips:
  assumes "skipped_ok 5 ds" "i < n"
  shows "endpoint_loop (pre @ raw_descriptors ds @ post) n (length pre) i acc
    = endpoint_loop (pre @ raw_descriptors ds @ post) n (length (pre @ raw_descriptors ds)) i acc"
  using assms(1)
proof (induction ds arbitrary: pre)
  case Nil
  then show ?case by simp
next
  case (Cons a ds)
  obtain t body where a: "a = (t, body)" by force
  show ?case
    using Cons.prems Cons.IH [of "pre @ raw_descriptor t body"] \<open>i < n\<close>
    by (subst endpoint_loop.simps) (simp add: a add_ac)
qed

lemma interface_loop_skips:
  assumes "skipped_ok 4 ds" "i < n"
  shows "interface_loop (pre @ raw_descriptors ds @ post) n (length pre) i acc
    = interface_loop (pre @ raw_descriptors ds @ post) n (length (pre @ raw_descriptors ds)) i acc"
  using assms(1)
proof (induction ds arbitrary: pre)
  case Nil
  then show ?case by simp
next
  case (Cons a ds)
  obtain t body where a: "a = (t, body)" by force
  show ?case
    using Cons.prems Cons.IH [of "pre @ raw_descriptor t body"] \<open>i < n\<close>
    by (subst interface_loop.simps) (simp add: a add_ac)
qed

lemma unfold_endpoint_body_length:
  "endpoint_source_ok e \<Longrightarrow> length (endpoint_body e) < 254"
  by (simp add: endpoint_source_ok_def endpoint_body_def u16_to_le_bytes_def)

lemma unfold_interface_body_length:
  "interface_source_ok i \<Longrightarrow> length (interface_body i) < 254"
  by (simp add: interface_source_ok_def interface_body_def)

lemma endpoint_loop_one:
  assumes "endpoint_source_ok e" "i < n"
  shows "endpoint_loop (pre @ encode_endpoint e @ post) n (length pre) i acc
    = endpoint_loop (pre @ encode_endpoint e @ post) n (length (pre @ encode_endpoint e))
        (i + 1) (acc @ [es_info e])"
proof -
  let ?pre = "pre @ raw_descriptors (es_skipped e)"
  let ?d = "pre @ raw_descriptors (es_skipped e) @ raw_descriptor 5 (endpoint_body e) @ post"
  have "endpoint_loop ?d n (length pre) i acc = endpoint_loop ?d n (length ?pre) i acc"
    using assms by (intro endpoint_loop_skips) (simp_all add: endpoint_source_ok_def)
  also have "\<dots> = endpoint_loop ?d n (length (?pre @ raw_descriptor 5 (endpoint_body e)))
      (i + 1) (acc @ [es_info e])"
    using assms common_at_raw [of ?pre 5 "endpoint_body e" post]
      endpoint_at_raw [of ?pre 5 e post] unfold_endpoint_body_length [OF assms(1)]
    by (subst endpoint_loop.simps) (simp add: add_ac)
  finally show ?thesis by (simp add: encode_endpoint_def)
qed

lemma endpoint_loop_parses:
  assumes "list_all endpoint_source_ok es" "n = i + length es"
  shows "endpoint_loop (pre @ concat (map encode_endpoint es) @ post) n (length pre) i acc
    = Some (Inr (length (pre @ concat (map encode_endpoint es)), acc @ map es_info es))"
  using assms
proof (induction es arbitrary: pre i acc)
  case Nil
  then show ?case by (subst endpoint_loop.simps) simp
next
  case (Cons e es)
  show ?case
    using Cons.prems Cons.IH [of "i + 1" "pre @ encode_endpoint e" "acc @ [es_info e]"]
      endpoint_loop_one [of e i n pre "concat (map encode_endpoint es) @ post" acc]
    by (simp add: add_ac)
qed

lemma parsed_interface_record [simp]:
  "InterfaceInfo_of \<lparr>if_b_length = l, if_b_descriptor_type = t,
     if_b_interface_number = ii_interface_number (is_info i),
     if_b_alternate_setting = ii_alternate_setting (is_info i),
     if_b_num_endpoints = k, if_b_interface_class = ii_class (is_info i),
     if_b_interface_sub_class = ii_sub_class (is_info i),
     if_b_interface_protocol = ii_protocol (is_info i), if_i_interface = s\<rparr>
     (map es_info (is_endpoints i)) = parsed_interface i"
  by (simp add: InterfaceInfo_of_def parsed_interface_def)

lemma interface_loop_one:
  assumes "interface_source_ok i" "k < n"
  shows "interface_loop (pre @ encode_interface i @ post) n (length pre) k acc
    = interface_loop (pre @ encode_interface i @ post) n (length (pre @ encode_interface i))
        (k + 1) (acc @ [parsed_interface i])"
proof -
  let ?pre = "pre @ raw_descriptors (is_skipped i)"
  let ?es = "concat (map encode_endpoint (is_endpoints i))"
  let ?d = "pre @ raw_descriptors (is_skipped i) @ raw_descriptor 4 (interface_body i) @ ?es @ post"
  have eps: "endpoint_loop ?d (length (is_endpoints i))
      (length (?pre @ raw_descriptor 4 (interface_body i))) 0 []
    = Some (Inr (length (?pre @ raw_descriptor 4 (interface_body i) @ ?es),
        map es_info (is_endpoints i)))"
    using assms endpoint_loop_parses [of "is_endpoints i" "length (is_endpoints i)" 0
        "?pre @ raw_descriptor 4 (interface_body i)" post "[]"]
    by (simp add: interface_source_ok_def)
  have "interface_loop ?d n (length pre) k acc = interface_loop ?d n (length ?pre) k acc"
    using assms by (intro interface_loop_skips) (simp_all add: interface_source_ok_def)
  also have "\<dots> = interface_loop ?d n (length (?pre @ raw_descriptor 4 (interface_body i) @ ?es))
      (k + 1) (acc @ [parsed_interface i])"
    using assms eps common_at_raw [of ?pre 4 "interface_body i" "?es @ post"]
      interface_at_raw [of ?pre 4 i "?es @ post"] unfold_interface_body_length [OF assms(1)]
    by (subst interface_loop.simps) (simp add: interface_source_ok_def add_ac)
  finally show ?thesis by (simp add: encode_interface_def)
qed

lemma interface_loop_parses:
  assumes "list_all interface_source_ok is" "n = k + length is"
  shows "interface_loop (pre @ concat (map encode_interface is) @ post) n (length pre) k acc
    = Some (Inr (acc @ map parsed_interface is))"
  using assms
proof (induction "is" arbitrary: pre k acc)
  case Nil
  then show ?case by (subst interface_loop.simps) simp
next
  case (Cons i "is")
  show ?case
    using Cons.prems Cons.IH [of "k + 1" "pre @ encode_interface i" "acc @ [parsed_interface i]"]
      interface_loop_one [of i k n pre "concat (map encode_interface is) @ post" acc]
    by (simp add: add_ac)
qed

lemma encoded_configuration_parses:
  assumes "list_all interface_source_ok is" "length is < 256"
  shows "ConfigurationInfo_from_descriptor (encode_configuration len s c is @ rest)
    = Some (Inr (c\<lparr>ci_name := None, ci_interfaces := map parsed_interface is\<rparr>))"
proof -
  let ?hdr = "[9, 2] @ u16_to_le_bytes len @
    [of_nat (length is), ci_number c, s, ci_attributes c, ci_max_power c]"
  have d: "encode_configuration len s c is @ rest = ?hdr @ concat (map encode_interface is) @ rest"
    by (simp add: encode_configuration_def)
  have len: "length ?hdr = 9" by (simp add: u16_to_le_bytes_def)
  have "interface_loop (?hdr @ concat (map encode_interface is) @ rest) (length is) 9 0 []
      = Some (Inr (map parsed_interface is))"
    using interface_loop_parses [of "is" "length is" 0 ?hdr rest "[]"] assms(1) len by simp
  with assms(2) show ?thesis
    by (simp add: ConfigurationInfo_from_descriptor_def d slice_range_def u16_to_le_bytes_def)
qed

text \<open>C22: Whatever a conforming device sends as a configuration - interfaces with their endpoints,
  in any number up to 255, with descriptors of other kinds before each of them, descriptors longer
  than the known part, and further bytes after the end - \<open>ConfigurationInfo::from_descriptor\<close> returns
  exactly the configuration's numbers and the interfaces and endpoints in order.\<close>

theorem configuration_roundtrip:
  assumes "list_all interface_source_ok is" "length is < 256"
  shows "ConfigurationInfo_from_descriptor (encode_configuration len s c is @ rest)
    = Some (Inr (c\<lparr>ci_name := None, ci_interfaces := map parsed_interface is\<rparr>))"
  using assms by (rule encoded_configuration_parses)

definition example_endpoint :: endpoint_source where
  "example_endpoint = \<lparr>es_skipped = [(33, [17, 1, 0, 1, 34, 63, 0])],
     es_info = \<lparr>ei_endpoint_address = 129, ei_attributes = 3, ei_max_packet_size = 8, ei_interval = 10\<rparr>,
     es_trailing = []\<rparr>"

definition example_interface :: interface_source where
  "example_interface = \<lparr>is_skipped = [(11, [0, 1, 3, 0, 0, 0])],
     is_info = \<lparr>ii_interface_number = 0, ii_alternate_setting = 0, ii_class = 3, ii_sub_class = 1,
       ii_protocol = 1, ii_name = None, ii_endpoints = []\<rparr>,
     is_string_index = 0, is_trailing = [], is_endpoints = [example_endpoint]\<rparr>"

definition example_configuration :: configuration_info where
  "example_configuration = \<lparr>ci_number = 1, ci_name = None, ci_attributes = 160, ci_max_power = 49,
     ci_interfaces = []\<rparr>"

lemma example_interface_ok: "interface_source_ok example_interface"
  by (simp add: example_interface_def example_endpoint_def interface_source_ok_def
      endpoint_source_ok_def)

theorem configuration_roundtrip_witness:
  "ConfigurationInfo_from_descriptor
     (encode_configuration 42 0 example_configuration [example_interface] @ [0, 0])
    = Some (Inr \<lparr>ci_number = 1, ci_name = None, ci_attributes = 160, ci_max_power = 49,
        ci_interfaces = [\<lparr>ii_interface_number = 0, ii_alternate_setting = 0, ii_class = 3,
          ii_sub_class = 1, ii_protocol = 1, ii_name = None,
          ii_endpoints = [\<lparr>ei_endpoint_address = 129, ei_attributes = 3,
            ei_max_packet_size = 8, ei_interval = 10\<rparr>]\<rparr>]\<rparr>)"
  using configuration_roundtrip [of "[example_interface]" 42 0 example_configuration "[0, 0]"]
  by (simp add: example_interface_def example_endpoint_def example_configuration_def
      interface_source_ok_def endpoint_source_ok_def parsed_interface_def)

subsection \<open>Termination of the parser\<close>

text \<open>
  The positions the parser can visit: the end of the header, and from each position the one its
  length byte points to.
\<close>

inductive descriptor_at :: "bytes \<Rightarrow> nat \<Rightarrow> bool" for d where
  at_start: "descriptor_at d 9"
| at_next: "descriptor_at d p \<Longrightarrow> p + 2 \<le> length d \<Longrightarrow> descriptor_at d (p + unat (d ! p))"

lemma common_at_Inr_iff:
  "common_at d p = Inr c \<longleftrightarrow>
     p + 2 \<le> length d \<and> c = \<lparr>cd_b_length = d ! p, cd_b_descriptor_type = d ! (p + 1)\<rparr>"
proof (cases "p + 2 \<le> length d")
  case True
  then have "take 2 (drop p d) = [d ! p, d ! (p + 1)]"
    by (simp add: take_Suc_conv_app_nth numeral_2_eq_2)
  with True show ?thesis by (auto simp: common_at_def slice_range_def)
qed (simp add: common_at_def slice_range_def)

lemma endpoint_loop_returns:
  assumes nz: "\<And>p. descriptor_at d p \<Longrightarrow> p + 2 \<le> length d \<Longrightarrow> d ! p \<noteq> 0"
    and "descriptor_at d p"
  shows "\<exists>r. endpoint_loop d n p i acc = Some r
    \<and> (\<forall>q eps. r = Inr (q, eps) \<longrightarrow> p \<le> q \<and> descriptor_at d q)"
  using assms(2)
proof (induction "length d - p" arbitrary: p i acc rule: less_induct)
  case less
  show ?case
  proof (cases "i < n \<and> p + 2 \<le> length d")
    case False
    then show ?thesis
      using less.prems by (subst endpoint_loop.simps) (auto simp: common_at_def slice_range_def)
  next
    case True
    let ?q = "p + unat (d ! p)"
    have "0 < unat (d ! p)" using less.prems True nz [of p] by (simp add: unat_gt_0)
    with True less.prems have step: "descriptor_at d ?q" "length d - ?q < length d - p"
      by (auto intro: descriptor_at.at_next)
    have "\<And>i acc. \<exists>r. endpoint_loop d n ?q i acc = Some r
        \<and> (\<forall>q eps. r = Inr (q, eps) \<longrightarrow> p \<le> q \<and> descriptor_at d q)"
      using less.hyps [OF step(2,1)] by (meson add_leD1)
    then show ?thesis
      using True common_at_Inr_iff [of d p]
      by (subst endpoint_loop.simps) (auto split: sum.split)
  qed
qed

lemma interface_loop_returns:
  assumes nz: "\<And>p. descriptor_at d p \<Longrightarrow> p + 2 \<le> length d \<Longrightarrow> d ! p \<noteq> 0"
    and "descriptor_at d p"
  shows "\<exists>r. interface_loop d n p i acc = Some r"
  using assms(2)
proof (induction "length d - p" arbitrary: p i acc rule: less_induct)
  case less
  show ?case
  proof (cases "i < n \<and> p + 2 \<le> length d")
    case False
    then show ?thesis
      by (subst interface_loop.simps) (auto simp: common_at_def slice_range_def)
  next
    case True
    let ?q = "p + unat (d ! p)"
    have step: "descriptor_at d ?q" "p < ?q"
      using less.prems True nz [of p] by (auto intro: descriptor_at.at_next simp: unat_gt_0)
    have IH: "\<exists>r. interface_loop d n q i acc = Some r" if "?q \<le> q" "descriptor_at d q" for q i acc
    proof -
      have "length d - q < length d - p" using that(1) step(2) True by linarith
      then show ?thesis using less.hyps that(2) by blast
    qed
    show ?thesis
    proof (cases "\<exists>idesc. d ! (p + 1) = 4 \<and> interface_at d p = Inr idesc")
      case False
      then show ?thesis
        using True common_at_Inr_iff [of d p] IH [OF order_refl step(1)]
        by (subst interface_loop.simps) (auto split: sum.split)
    next
      case T: True
      then obtain idesc where idesc: "d ! (p + 1) = 4" "interface_at d p = Inr idesc" by blast
      obtain r where r: "endpoint_loop d (unat (if_b_num_endpoints idesc)) ?q 0 [] = Some r"
          "\<And>q eps. r = Inr (q, eps) \<Longrightarrow> ?q \<le> q \<and> descriptor_at d q"
        using endpoint_loop_returns [OF nz step(1)] by blast
      show ?thesis
        using True common_at_Inr_iff [of d p] idesc r IH
        by (subst interface_loop.simps) (auto split: sum.split)
    qed
  qed
qed

text \<open>The parser always returns (a value or a panic) on every byte string in which no descriptor it
  can visit has length zero.\<close>

theorem configuration_parser_terminates:
  assumes "\<And>p. descriptor_at d p \<Longrightarrow> p + 2 \<le> length d \<Longrightarrow> d ! p \<noteq> 0"
  shows "\<exists>r. ConfigurationInfo_from_descriptor d = Some r"
proof -
  have loop: "\<exists>r. interface_loop d n 9 0 [] = Some r" for n
    using assms by (intro interface_loop_returns descriptor_at.at_start)
  show ?thesis
  proof (cases "obind (slice_range d 0 9) (\<lambda>s. unwrap_opt (ConfigurationDescriptor_from_bytes s))")
    case (Inr cfg)
    then show ?thesis
      using loop [of "unat (cfg_b_num_interfaces cfg)"]
      by (auto simp: ConfigurationInfo_from_descriptor_def split: sum.split)
  qed (simp add: ConfigurationInfo_from_descriptor_def)
qed

definition example_bytes :: bytes where
  "example_bytes = [9, 2, 18, 0, 1, 1, 0, 128, 50, 9, 4, 0, 0, 0, 3, 1, 2, 0]"

theorem configuration_parser_terminates_witness:
  "\<exists>r. ConfigurationInfo_from_descriptor example_bytes = Some r"
proof (rule configuration_parser_terminates)
  fix p assume "descriptor_at example_bytes p" "p + 2 \<le> length example_bytes"
  moreover have "q = 9 \<or> 18 \<le> q" if "descriptor_at example_bytes q" for q
    using that by induction (auto simp: example_bytes_def)
  ultimately show "example_bytes ! p \<noteq> 0"
    by (force simp: example_bytes_def)
qed

text \<open>A descriptor of length zero that is not an interface stops the outer loop from advancing.\<close>

lemma interface_loop_stuck:
  assumes "p + 2 \<le> length d" "d ! p = 0" "d ! (p + 1) \<noteq> 4" "i < n"
  shows "interface_loop d n p i acc = None"
proof -
  have c: "common_at d p = Inr \<lparr>cd_b_length = 0, cd_b_descriptor_type = d ! (p + 1)\<rparr>"
    using assms by (simp add: common_at_Inr_iff)
  have "\<not> (d' = d \<and> n' = n \<and> p' = p \<and> i' = i)" if "interface_loop d' n' p' i' acc' = Some r"
    for d' n' p' i' acc' r
  proof (rule interface_loop.raw_induct [where P = "\<lambda>d' n' p' i' acc' r.
        \<not> (d' = d \<and> n' = n \<and> p' = p \<and> i' = i)", OF _ that], goal_cases)
    case (1 f d' n' p' i' acc' r)
    have "f d n p i acc' = Some r" if "d' = d \<and> n' = n \<and> p' = p \<and> i' = i"
      using that 1(2) assms c by simp
    with 1(1) show ?case by blast
  qed
  then show ?thesis by (metis not_None_eq)
qed

text \<open>C24: The hypothesis is needed: a device whose first descriptor behind the configuration header has
  length zero and is not an interface makes the parser loop forever.\<close>

theorem zero_length_descriptor_hangs:
  assumes "11 \<le> length d" "d ! 4 \<noteq> 0" "d ! 9 = 0" "d ! 10 \<noteq> 4"
  shows "ConfigurationInfo_from_descriptor d = None"
proof -
  obtain a0 a1 a2 a3 a4 a5 a6 a7 a8 d' where
    d: "d = [a0, a1, a2, a3, a4, a5, a6, a7, a8] @ d'"
    using assms(1) by (auto simp: numeral_eq_Suc Suc_le_length_iff)
  have "interface_loop d (unat a4) 9 0 [] = None"
    using assms d by (intro interface_loop_stuck) (auto simp: unat_gt_0)
  with d show ?thesis
    by (simp add: ConfigurationInfo_from_descriptor_def slice_range_def)
qed

theorem zero_length_descriptor_hangs_witness:
  "ConfigurationInfo_from_descriptor [9, 2, 18, 0, 1, 1, 0, 128, 50, 0, 0] = None"
  by (rule zero_length_descriptor_hangs) simp_all

subsection \<open>What a parsed configuration says\<close>

lemma bind_outcome_iff:
  "Option.bind x (case_sum (\<lambda>e. Some (Inl e)) g) = Some (Inr z) \<longleftrightarrow>
     (\<exists>y. x = Some (Inr y) \<and> g y = Some (Inr z))"
  by (cases x) (auto split: sum.split)

lemma endpoint_loop_count:
  assumes "endpoint_loop d n p i acc = Some (Inr (q, eps))" "i \<le> n"
  shows "length eps = length acc + (n - i)"
proof -
  have "i \<le> n \<longrightarrow> (\<forall>q eps. r = Inr (q, eps) \<longrightarrow> length eps = length acc + (n - i))"
    if "endpoint_loop d n p i acc = Some r" for r
  proof (rule endpoint_loop.raw_induct [where P = "\<lambda>d n p i acc r.
        i \<le> n \<longrightarrow> (\<forall>q eps. r = Inr (q, eps) \<longrightarrow> length eps = length acc + (n - i))",
        OF _ that], goal_cases)
    case (1 f d n p i acc r)
    then show ?case by (fastforce split: if_splits sum.splits)
  qed
  with assms show ?thesis by blast
qed

text \<open>An interface the parser reports stands in the byte string.\<close>

definition interface_from :: "bytes \<Rightarrow> interface_info \<Rightarrow> bool" where
  "interface_from d ii \<longleftrightarrow>
     (\<exists>p idesc. interface_at d p = Inr idesc \<and> d ! (p + 1) = 4
       \<and> ii = InterfaceInfo_of idesc (ii_endpoints ii)
       \<and> length (ii_endpoints ii) = unat (if_b_num_endpoints idesc))"

lemma interface_loop_sound:
  assumes "interface_loop d n p i acc = Some (Inr is)" "i \<le> n"
  shows "length is = length acc + (n - i) \<and> (\<forall>ii \<in> set is. ii \<in> set acc \<or> interface_from d ii)"
proof -
  let ?P = "\<lambda>d n i acc is. length is = length acc + (n - i)
    \<and> (\<forall>ii \<in> set is. ii \<in> set acc \<or> interface_from d ii)"
  have "i \<le> n \<longrightarrow> (\<forall>is. r = Inr is \<longrightarrow> ?P d n i acc is)"
    if "interface_loop d n p i acc = Some r" for r
  proof (rule interface_loop.raw_induct [where P = "\<lambda>d n p i acc r.
        i \<le> n \<longrightarrow> (\<forall>is. r = Inr is \<longrightarrow> ?P d n i acc is)", OF _ that], goal_cases)
    case (1 f d n p i acc r)
    show ?case
    proof (cases "i < n")
      case False
      with 1(2) show ?thesis by auto
    next
      case True
      show ?thesis
      proof (intro impI allI)
        fix "is" assume r: "r = Inr is"
        obtain c where c: "common_at d p = Inr c" using 1(2) True r by (auto split: sum.splits)
        show "?P d n i acc is"
        proof (cases "cd_b_descriptor_type c = 4")
          case False
          then show ?thesis using 1 True c r by auto
        next
          case T: True
          obtain idesc where idesc: "interface_at d p = Inr idesc"
            using 1(2) True T c r by (auto split: sum.splits)
          obtain q eps where eps: "endpoint_loop d (unat (if_b_num_endpoints idesc))
                (p + unat (cd_b_length c)) 0 [] = Some (Inr (q, eps))"
              "f d n q (i + 1) (acc @ [InterfaceInfo_of idesc eps]) = Some (Inr is)"
            using 1(2) True T c r idesc by (auto simp: bind_outcome_iff)
          have "interface_from d (InterfaceInfo_of idesc eps)"
            using idesc T c endpoint_loop_count [OF eps(1)]
            by (auto simp: interface_from_def common_at_Inr_iff InterfaceInfo_of_def)
          then show ?thesis using 1(1) [OF eps(2)] True by auto
        qed
      qed
    qed
  qed
  with assms show ?thesis by blast
qed

text \<open>A configuration the parser returns has exactly the number of interfaces its header
  announces, each of them is an interface descriptor of the byte string, and has as many
  endpoints as that descriptor announces.\<close>

theorem parsed_configuration_sound:
  assumes "ConfigurationInfo_from_descriptor d = Some (Inr c)"
  shows "length (ci_interfaces c) = unat (d ! 4) \<and> (\<forall>ii \<in> set (ci_interfaces c). interface_from d ii)"
proof -
  obtain cfg where cfg: "slice_range d 0 9 = Inr (take 9 d)"
      "ConfigurationDescriptor_from_bytes (take 9 d) = Some cfg"
    and loop: "interface_loop d (unat (cfg_b_num_interfaces cfg)) 9 0 [] = Some (Inr (ci_interfaces c))"
    using assms
    by (auto simp: ConfigurationInfo_from_descriptor_def bind_outcome_iff slice_range_def
        unwrap_opt_def split: if_splits option.splits)
  have "cfg_b_num_interfaces cfg = take 9 d ! 4"
    using cfg(2) by (cases "take 9 d" rule: ConfigurationDescriptor_from_bytes.cases) auto
  with interface_loop_sound [OF loop] show ?thesis by simp
qed

theorem parsed_configuration_sound_witness:
  "length (map parsed_interface [example_interface]) = 1
    \<and> interface_from (encode_configuration 42 0 example_configuration [example_interface])
        (parsed_interface example_interface)"
proof -
  let ?d = "encode_configuration 42 0 example_configuration [example_interface]"
  have "ConfigurationInfo_from_descriptor ?d =
      Some (Inr (example_configuration\<lparr>ci_name := None,
        ci_interfaces := map parsed_interface [example_interface]\<rparr>))"
    using encoded_configuration_parses [of "[example_interface]" 42 0 example_configuration "[]"]
      example_interface_ok by simp
  from parsed_configuration_sound [OF this] show ?thesis
    by (simp add: encode_configuration_def u16_to_le_bytes_def)
qed

subsection \<open>Hubs\<close>

text \<open>The hub descriptor parser succeeds exactly when the device sent the fixed fields and one
  bit per port and one more, rounded up to bytes; the copied bytes always fit the array.\<close>

theorem hub_descriptor_parses:
  "(\<exists>h. HubDescriptor_from_bytes b = Inr h) \<longleftrightarrow>
     7 \<le> length b \<and> 7 + (unat (b ! 2) + 8) div 8 \<le> length b"
proof (cases "7 \<le> length b")
  case True
  then obtain a0 a1 a2 a3 a4 a5 a6 r where b: "b = [a0, a1, a2, a3, a4, a5, a6] @ r"
    by (auto simp: numeral_eq_Suc Suc_le_length_iff)
  have "unat a2 < 256" using unsigned_less [of a2] by simp
  then have "(unat a2 + 8) div 8 \<le> 32" by simp
  with b show ?thesis
    by (simp add: HubDescriptor_from_bytes_def slice_range_def Let_def add.commute)
qed (simp add: HubDescriptor_from_bytes_def slice_range_def)

end
