(* ===== verification/Interrupt_Endpoint.thy ===== *)
theory Interrupt_Endpoint
  imports Control_Endpoint Periodic_List Descriptors
begin

text \<open>
  Interrupt IN endpoints (\<^verbatim>\<open>interrupt_endpoint.rs\<close>, \<^verbatim>\<open>interrupt_endpoint_shared.rs\<close>): \<^verbatim>\<open>watch\<close> puts a
  queue head on the periodic schedule and gives it a ring of transfer descriptors, \<^verbatim>\<open>peek\<close> waits for the
  next packet and \<^verbatim>\<open>advance\<close> hands its descriptor back to the controller.

  The descriptors are one array, a list.  \<^verbatim>\<open>watch\<close> is cut at its \<^verbatim>\<open>await\<close>: \<open>watch_start\<close> ends with the
  request to the runner, \<open>watch_finish\<close> follows the callback.  A callback sender is a number.
  A \<^verbatim>\<open>Duration\<close> is its number of microseconds.
\<close>

record add_interrupt_qh_req =
  aiq_qh :: mapped_mem
  aiq_interval :: normalized_interval
  aiq_callback :: nat

record 'w interrupt_endpoint_shared =
  ies_req_signal :: "(add_interrupt_qh_req, 'w) signal_state"
  ies_int_signal :: "(unit, 'w) signal_state"

definition InterruptEndpointSharedState_default :: "'w interrupt_endpoint_shared" where
  "InterruptEndpointSharedState_default =
     \<lparr>ies_req_signal = Signal_default, ies_int_signal = Signal_default\<rparr>"

record interrupt_endpoint =
  ie_device_address :: u7
  ie_info :: endpoint_info
  ie_ctrl_ds_segment :: ctrl_ds_segment

record watch_resources =
  wr_qh :: mapped_mem
  wr_qtds :: mapped_slice
  wr_buffer :: mapped_slice

record watched_interrupt_endpoint =
  wie_qtds :: "qtd list"
  wie_buffer :: mapped_slice
  wie_completed_packets_index :: nat
  wie_completed_packets :: nat
  wie_info :: endpoint_info

definition endpoint_number_of :: "interrupt_endpoint \<Rightarrow> u4" where
  "endpoint_number_of ep = EndpointAddress_endpoint_number (ei_endpoint_address (ie_info ep))"

definition max_packet_size_of :: "endpoint_info \<Rightarrow> u11" where
  "max_packet_size_of info = EndpointMaxPacketSize_max_packet_size (ei_max_packet_size info)"

text \<open>\<^verbatim>\<open>2_u16.pow(u32::from(interval - 1))\<close>.\<close>

definition interval_pow :: "endpoint_info \<Rightarrow> u16 outcome" where
  "interval_pow info =
     obind (checked_sub (ei_interval info) 1) (\<lambda>e.
     if 2 ^ unat e < (2 :: nat) ^ 16 then Inr (2 ^ unat e) else Inl ArithmeticOverflow)"

definition InterruptEndpoint_interval :: "interrupt_endpoint \<Rightarrow> nat outcome" where
  "InterruptEndpoint_interval ep =
     obind (interval_pow (ie_info ep)) (\<lambda>n_microframes. Inr (125 * unat n_microframes))"

subsection \<open>Watching\<close>

definition interrupt_qh :: "interrupt_endpoint \<Rightarrow> qh" where
  "interrupt_qh ep =
     (let characteristics =
            EndpointCharacteristics_with_nak_count_reload 0
             (EndpointCharacteristics_with_endpoint_control_flag False
              (EndpointCharacteristics_with_max_packet_len (max_packet_size_of (ie_info ep))
               (EndpointCharacteristics_with_head_of_reclamation_list_flag False
                (EndpointCharacteristics_with_data_toggle_control False
                 (EndpointCharacteristics_with_endpoint_speed (u2_from_EndpointSpeed EndpointSpeed_High)
                  (EndpointCharacteristics_with_endpoint_number (endpoint_number_of ep)
                   (EndpointCharacteristics_with_inactive_on_next_transaction False
                    (EndpointCharacteristics_with_device_addr (ie_device_address ep) 0))))))));
          capabilities =
            EndpointCapabilities_with_high_bandwidth_pipe_multiplier 1
             (EndpointCapabilities_with_port_number 0
              (EndpointCapabilities_with_hub_addr 0
               (EndpointCapabilities_with_split_completion_mask 0
                (EndpointCapabilities_with_interrupt_schedule_mask 1 0))));
          q = Qh_new characteristics capabilities
      in q\<lparr>transfer_token := TransferToken_with_halted True (transfer_token q)\<rparr>)"

definition watch_start ::
    "interrupt_endpoint \<Rightarrow> watch_resources \<Rightarrow> nat \<Rightarrow> periodic_heap \<times> 'w interrupt_endpoint_shared
      \<Rightarrow> ((periodic_heap \<times> 'w interrupt_endpoint_shared) \<times> 'w list) outcome" where
  "watch_start ep r tx = (\<lambda>(h, sh).
     let n_qtds = mm_len (wr_qtds r)
     in if n_qtds = 0 then Inl (ExplicitPanic ''minimum 1 QTD required'')
        else if mm_len (wr_buffer r) \<noteq> n_qtds * unat (max_packet_size_of (ie_info ep))
        then Inl (ExplicitPanic (''buffer len doesn'' @ CHR 0x27 # ''t match QTDs len''))
        else
          let p = mm_ptr (wr_qh r);
              h' = h(p := (h p)\<lparr>qhp_qh := interrupt_qh ep\<rparr>)
          in obind (interval_pow (ie_info ep)) (\<lambda>n.
             obind (from_micro_frames_interval n) (\<lambda>interval.
             case Signal_signal \<lparr>aiq_qh = wr_qh r, aiq_interval = interval, aiq_callback = tx\<rparr>
                    (ies_req_signal sh) of (sig, woken) \<Rightarrow>
               Inr ((h', sh\<lparr>ies_req_signal := sig\<rparr>), woken))))"

text \<open>One poll of \<^verbatim>\<open>rx.await.unwrap()\<close>.\<close>

definition watch_resume ::
    "('w, 'a) atomic_waker \<Rightarrow> 'w \<Rightarrow> (unit, 'a) oneshot_shared \<Rightarrow> unit outcome option \<times> (unit, 'a) oneshot_shared" where
  "watch_resume aw cx sh =
     (case OneshotReceiver_poll aw cx sh of
        (None, sh') \<Rightarrow> (None, sh')
      | (Some (Inr v), sh') \<Rightarrow> (Some (Inr v), sh')
      | (Some (Inl e), sh') \<Rightarrow> (Some (Inl UnwrapFailed), sh'))"

definition interrupt_token :: "endpoint_info \<Rightarrow> transfer_token" where
  "interrupt_token info =
     TransferToken_with_interrupt_on_complete True
       (TransferToken_new_active InToken (ucast (max_packet_size_of info)))"

definition watch_qtd :: "interrupt_endpoint \<Rightarrow> watch_resources \<Rightarrow> nat \<Rightarrow> qtd outcome" where
  "watch_qtd ep r i =
     obind (BufferPtrs_new_contiguous (phys_addr (wr_buffer r)) (ucast (max_packet_size_of (ie_info ep)))) (\<lambda>bp.
     obind (Qtd_new (interrupt_token (ie_info ep)) bp) (\<lambda>qtd.
     let next_qtd_offset = (if i + 1 < mm_len (wr_qtds r) then i + 1 else 0)
     in obind (checked_add (phys_addr (wr_qtds r)) (of_nat (size_of_Qtd * next_qtd_offset))) (\<lambda>next_addr.
        obind (get_addr_offset next_addr (ie_ctrl_ds_segment ep)) (\<lambda>off.
        Inr (qtd\<lparr>next_qtd_ptr := NextQtdPointer_new_valid off,
                 alternate_next_qtd_ptr := AlternateQtdLinkPtr_new_valid off\<rparr>)))))"

text \<open>The loop \<^verbatim>\<open>for i in 0..n_qtds\<close>; \<open>k\<close> iterations are left.\<close>

primrec watch_loop :: "interrupt_endpoint \<Rightarrow> watch_resources \<Rightarrow> nat \<Rightarrow> nat \<Rightarrow> qtd list \<Rightarrow> qtd list outcome" where
  "watch_loop ep r 0 i qtds = Inr qtds"
| "watch_loop ep r (Suc k) i qtds =
     obind (watch_qtd ep r i) (\<lambda>qtd. watch_loop ep r k (i + 1) (qtds[i := qtd]))"

definition watch_finish ::
    "interrupt_endpoint \<Rightarrow> watch_resources \<Rightarrow> qtd list \<times> periodic_heap
      \<Rightarrow> (watched_interrupt_endpoint \<times> periodic_heap) outcome" where
  "watch_finish ep r = (\<lambda>(qtds, h).
     obind (watch_loop ep r (mm_len (wr_qtds r)) 0 qtds) (\<lambda>qtds'.
     obind (get_addr_offset (phys_addr (wr_qtds r)) (ie_ctrl_ds_segment ep)) (\<lambda>off.
     let p = mm_ptr (wr_qh r);
         h1 = h(p := (h p)\<lparr>qhp_qh := (qhp_qh (h p))\<lparr>next_qtd_pointer := NextQtdPointer_new_valid off\<rparr>\<rparr>);
         h2 = h1(p := (h1 p)\<lparr>qhp_qh := (qhp_qh (h1 p))\<lparr>transfer_token := 0\<rparr>\<rparr>)
     in Inr (\<lparr>wie_qtds = qtds', wie_buffer = wr_buffer r, wie_completed_packets_index = 0,
              wie_completed_packets = 0, wie_info = ie_info ep\<rparr>, h2))))"

subsection \<open>Packets\<close>

text \<open>One poll of \<open>peek\<close>: the range of the buffer it presents, or pending.  \<open>active k\<close> is the \<open>k\<close>-th
  read of the active flag of the current descriptor.\<close>

definition peek_slice :: "watched_interrupt_endpoint \<Rightarrow> nat \<times> nat" where
  "peek_slice e =
     (let packet_size = unat (max_packet_size_of (wie_info e))
      in (wie_completed_packets_index e * packet_size, packet_size))"

function peek_poll ::
    "('w \<Rightarrow> 'w \<Rightarrow> bool) \<Rightarrow> 'w \<Rightarrow> (nat \<Rightarrow> bool) \<Rightarrow> nat
      \<Rightarrow> watched_interrupt_endpoint \<times> (unit, 'w) signal_state
      \<Rightarrow> (nat \<times> nat) option \<times> (watched_interrupt_endpoint \<times> (unit, 'w) signal_state) \<times> 'w list" where
  "peek_poll will_wake cx active k (e, st) =
     (if wie_completed_packets e \<ge> 1 then (Some (peek_slice e), (e, st), [])
      else if \<not> active k
      then (let e' = e\<lparr>wie_completed_packets := wie_completed_packets e + 1\<rparr>
            in (Some (peek_slice e'), (e', st), []))
      else case Signal_poll_wait will_wake cx st of
             (Some _, st', _) \<Rightarrow> peek_poll will_wake cx active (k + 1) (e, st')
           | (None, st', ws) \<Rightarrow> (None, (e, st'), ws))"
  by pat_completeness auto
termination
  by (relation "measure (\<lambda>(_, _, _, _, _, st). if signal_content st = None then 0 else 1)")
    (auto dest!: sym [of _ "Signal_poll_wait _ _ _"] poll_wait_content)

declare peek_poll.simps [simp del]

definition advance :: "watched_interrupt_endpoint \<Rightarrow> watched_interrupt_endpoint outcome" where
  "advance e =
     (let packet_size = max_packet_size_of (wie_info e);
          i = wie_completed_packets_index e
      in obind (index_list (wie_qtds e) i) (\<lambda>qtd.
         obind (checked_add (phys_addr (wie_buffer e)) (ucast packet_size * of_nat i)) (\<lambda>addr.
         obind (BufferPtrs_new_contiguous addr (ucast packet_size)) (\<lambda>bp.
         let qtd1 = qtd\<lparr>buffer_pointer_page_0 :=
                       QtdBufferPagePointerPage0_with_current_offset (bp_offset bp) (buffer_pointer_page_0 qtd)\<rparr>;
             qtd2 = qtd1\<lparr>qtd_token := interrupt_token (wie_info e)\<rparr>;
             i' = (if i + 1 = length (wie_qtds e) then 0 else i + 1)
         in if wie_completed_packets e = 0 then Inl ArithmeticOverflow
            else Inr (e\<lparr>wie_qtds := (wie_qtds e)[i := qtd2], wie_completed_packets_index := i',
                        wie_completed_packets := wie_completed_packets e - 1\<rparr>)))))"

subsection \<open>Intervals\<close>

text \<open>The polling interval of a high-speed interrupt endpoint is \<open>125 \<mu>s * 2 ^ (bInterval - 1)\<close> for a
  \<open>bInterval\<close> from 1 to 16, and every other value the device may have sent panics.\<close>

theorem interrupt_interval_value:
  "InterruptEndpoint_interval ep =
     (let i = unat (ei_interval (ie_info ep))
      in if 1 \<le> i \<and> i \<le> 16 then Inr (125 * 2 ^ (i - 1)) else Inl ArithmeticOverflow)"
proof -
  define b where "b = ei_interval (ie_info ep)"
  show ?thesis
  proof (cases "b = 0")
    case True
    then show ?thesis
      by (simp add: InterruptEndpoint_interval_def interval_pow_def checked_sub_def b_def)
  next
    case False
    then have "1 \<le> b" by (simp add: word_le_nat_alt unat_gt_0 Suc_le_eq)
    then have u: "unat (b - 1) = unat b - 1" "1 \<le> unat b" by (simp_all add: unat_sub word_le_nat_alt)
    have less: "(2 :: nat) ^ (unat b - 1) < 2 ^ 16 \<longleftrightarrow> unat b \<le> 16"
      using u(2) by (simp add: power_strict_increasing_iff [of "2 :: nat" "unat b - 1" 16, simplified]) arith
    have "unat ((2 :: u16) ^ (unat b - 1)) = 2 ^ (unat b - 1)" if "unat b \<le> 16"
    proof -
      have "unat (of_nat (2 ^ (unat b - 1)) :: u16) = 2 ^ (unat b - 1)"
        using that less by (simp only: unat_of_nat) (simp add: take_bit_nat_eq_self)
      then show ?thesis by simp
    qed
    with False \<open>1 \<le> b\<close> u less show ?thesis
      by (auto simp: InterruptEndpoint_interval_def interval_pow_def checked_sub_def b_def Let_def)
  qed
qed

subsection \<open>The ring of descriptors\<close>

definition qtd_offset :: "watch_resources \<Rightarrow> nat \<Rightarrow> u32" where
  "qtd_offset r i = ucast (phys_addr (wr_qtds r) + of_nat (size_of_Qtd * i))"

text \<open>The descriptor array lies in the segment, the packet fits the page window of the buffer.\<close>

definition watch_resources_ok :: "interrupt_endpoint \<Rightarrow> watch_resources \<Rightarrow> bool" where
  "watch_resources_ok ep r \<longleftrightarrow>
     0 < mm_len (wr_qtds r)
     \<and> unat (phys_addr (wr_qtds r)) + size_of_Qtd * mm_len (wr_qtds r) < 2 ^ 64
     \<and> list_all (\<lambda>i. get_addr_offset (phys_addr (wr_qtds r) + of_nat (size_of_Qtd * i)) (ie_ctrl_ds_segment ep)
          = Inr (qtd_offset r i)) [0..<mm_len (wr_qtds r)]
     \<and> window_ok (phys_addr (wr_buffer r)) (unat (max_packet_size_of (ie_info ep)))"

definition watched_qtd :: "interrupt_endpoint \<Rightarrow> watch_resources \<Rightarrow> nat \<Rightarrow> qtd \<Rightarrow> bool" where
  "watched_qtd ep r i q \<longleftrightarrow>
     qtd_is (interrupt_token (ie_info ep)) (phys_addr (wr_buffer r)) (unat (max_packet_size_of (ie_info ep)))
       (NextQtdPointer_new_valid (qtd_offset r ((i + 1) mod mm_len (wr_qtds r))))
       (AlternateQtdLinkPtr_new_valid (qtd_offset r ((i + 1) mod mm_len (wr_qtds r)))) q"

lemma watch_qtd_ok:
  assumes ok: "watch_resources_ok ep r" and i: "i < mm_len (wr_qtds r)"
  shows "\<exists>q. watch_qtd ep r i = Inr q \<and> watched_qtd ep r i q"
proof -
  let ?n = "mm_len (wr_qtds r)" and ?s = "max_packet_size_of (ie_info ep)"
  let ?j = "if i + 1 < ?n then i + 1 else 0"
  have j: "?j = (i + 1) mod ?n" "?j < ?n" using i ring_index(1) [OF i] by auto
  have win: "window_ok (phys_addr (wr_buffer r)) (unat ?s)" using ok by (simp add: watch_resources_ok_def)
  obtain bp q where q: "BufferPtrs_new_contiguous (phys_addr (wr_buffer r)) (ucast ?s) = Inr bp"
      "Qtd_new (interrupt_token (ie_info ep)) bp = Inr q"
      "qtd_is (interrupt_token (ie_info ep)) (phys_addr (wr_buffer r)) (unat ?s)
         NextQtdPointer_INVALID AlternateQtdLinkPtr_INVALID q"
    using Qtd_new_window [OF win, of "ucast ?s" "interrupt_token (ie_info ep)"] by (auto simp: of_nat_unat)
  have "size_of_Qtd * ?j \<le> size_of_Qtd * ?n" using j(2) by (intro mult_le_mono2) simp
  moreover have "unat (phys_addr (wr_qtds r)) + size_of_Qtd * ?n < 2 ^ 64"
    using ok unfolding watch_resources_ok_def by blast
  ultimately have small: "unat (phys_addr (wr_qtds r)) + size_of_Qtd * ?j < 2 ^ 64"
    by linarith
  then have "unat (of_nat (size_of_Qtd * ?j) :: u64) = size_of_Qtd * ?j"
    by (simp only: unat_of_nat) (simp add: take_bit_nat_eq_self)
  with small have add: "checked_add (phys_addr (wr_qtds r)) (of_nat (size_of_Qtd * ?j))
      = Inr (phys_addr (wr_qtds r) + of_nat (size_of_Qtd * ?j))"
    by (simp only: checked_add_def) simp
  have off: "get_addr_offset (phys_addr (wr_qtds r) + of_nat (size_of_Qtd * ?j)) (ie_ctrl_ds_segment ep)
      = Inr (qtd_offset r ?j)"
    using ok j(2) unfolding watch_resources_ok_def list_all_iff by (metis atLeastLessThan_iff set_upt zero_le)
  show ?thesis
    using q add off j(1) unfolding watch_qtd_def Let_def
    by (simp del: of_nat_mult add: watched_qtd_def qtd_is_def)
qed

lemma watch_loop_ok:
  assumes "watch_resources_ok ep r" "i + k = mm_len (wr_qtds r)" "length qtds = mm_len (wr_qtds r)"
  shows "\<exists>qtds'. watch_loop ep r k i qtds = Inr qtds' \<and> length qtds' = length qtds
    \<and> (\<forall>j < i. qtds' ! j = qtds ! j) \<and> (\<forall>j. i \<le> j \<and> j < i + k \<longrightarrow> watched_qtd ep r j (qtds' ! j))"
  using assms(2,3)
proof (induction k arbitrary: i qtds)
  case (Suc k)
  obtain q where q: "watch_qtd ep r i = Inr q" "watched_qtd ep r i q"
    using watch_qtd_ok [OF assms(1), of i] Suc.prems by auto
  obtain qtds' where qtds': "watch_loop ep r k (i + 1) (qtds[i := q]) = Inr qtds'" "length qtds' = length qtds"
      "\<forall>j < i + 1. qtds' ! j = qtds[i := q] ! j"
      "\<forall>j. i + 1 \<le> j \<and> j < i + 1 + k \<longrightarrow> watched_qtd ep r j (qtds' ! j)"
    using Suc.IH [of "i + 1" "qtds[i := q]"] Suc.prems by auto
  have "watched_qtd ep r j (qtds' ! j)" if "i \<le> j" "j < i + Suc k" for j
    using that qtds'(3,4) q(2) Suc.prems by (cases "j = i") auto
  with q(1) qtds' show ?case by auto
qed auto

lemma watch_finish_ring:
  assumes "watch_resources_ok ep r" "length qtds = mm_len (wr_qtds r)"
  shows "\<exists>e h'. watch_finish ep r (qtds, h) = Inr (e, h') \<and> length (wie_qtds e) = mm_len (wr_qtds r)
    \<and> next_qtd_pointer (qhp_qh (h' (mm_ptr (wr_qh r)))) = NextQtdPointer_new_valid (qtd_offset r 0)
    \<and> transfer_token (qhp_qh (h' (mm_ptr (wr_qh r)))) = 0
    \<and> (\<forall>i < mm_len (wr_qtds r). watched_qtd ep r i (wie_qtds e ! i))
    \<and> wie_completed_packets_index e = 0 \<and> wie_completed_packets e = 0"
proof -
  obtain qtds' where l: "watch_loop ep r (mm_len (wr_qtds r)) 0 qtds = Inr qtds'" "length qtds' = length qtds"
      "\<forall>j. 0 \<le> j \<and> j < 0 + mm_len (wr_qtds r) \<longrightarrow> watched_qtd ep r j (qtds' ! j)"
    using watch_loop_ok [OF assms(1), of 0 "mm_len (wr_qtds r)" qtds] assms(2) by auto
  have "get_addr_offset (phys_addr (wr_qtds r) + of_nat (size_of_Qtd * 0)) (ie_ctrl_ds_segment ep) = Inr (qtd_offset r 0)"
    using assms(1) unfolding watch_resources_ok_def list_all_iff by (metis atLeastLessThan_iff set_upt zero_le)
  with l assms(2) show ?thesis by (simp add: watch_finish_def Let_def)
qed

text \<open>\<open>watch\<close> leaves the controller a closed ring of descriptors: the queue head points at the first, each
  descriptor's link and short-packet link lead to the next and the last one's back to the first, and each
  asks for one packet and raises an interrupt.  It never panics on resources that fit.\<close>

theorem watch_builds_ring:
  assumes "watch_resources_ok ep r" "length qtds = mm_len (wr_qtds r)"
  shows "\<exists>e h'. watch_finish ep r (qtds, h) = Inr (e, h') \<and> length (wie_qtds e) = mm_len (wr_qtds r)
    \<and> next_qtd_pointer (qhp_qh (h' (mm_ptr (wr_qh r)))) = NextQtdPointer_new_valid (qtd_offset r 0)
    \<and> transfer_token (qhp_qh (h' (mm_ptr (wr_qh r)))) = 0
    \<and> (\<forall>i < mm_len (wr_qtds r). watched_qtd ep r i (wie_qtds e ! i))
    \<and> wie_completed_packets_index e = 0 \<and> wie_completed_packets e = 0"
  using assms by (rule watch_finish_ring)

definition example_info :: endpoint_info where
  "example_info = \<lparr>ei_endpoint_address = 0x81, ei_attributes = 3, ei_max_packet_size = 8, ei_interval = 4\<rparr>"

definition example_iep :: interrupt_endpoint where
  "example_iep = \<lparr>ie_device_address = 1, ie_info = example_info, ie_ctrl_ds_segment = LOWER_4_G\<rparr>"

definition example_watch :: watch_resources where
  "example_watch = \<lparr>wr_qh = example_pmem 0x80, wr_qtds = cast_slice 3 (example_pmem 0x2000),
     wr_buffer = cast_slice 24 (example_pmem 0x3000)\<rparr>"

lemma example_info_size [simp]: "max_packet_size_of example_info = 8"
proof -
  have "max_packet_size_of example_info = ucast (8 :: u16)"
    by (simp only: max_packet_size_of_def example_info_def endpoint_info.simps
        EndpointMaxPacketSize_max_packet_size_def bits_get_def drop_bit_0 id_apply)
  then show ?thesis by simp
qed

lemma example_watch_ok: "watch_resources_ok example_iep example_watch"
  by (simp add: watch_resources_ok_def example_iep_def example_watch_def cast_slice_def window_ok_def
      get_addr_offset_def LOWER_4_G_def size_of_Qtd_def qtd_offset_def upt_rec)

theorem watch_builds_ring_witness:
  "\<exists>e h'. watch_finish example_iep example_watch ([example_qtd, example_qtd, example_qtd], example_pheap) = Inr (e, h')
     \<and> next_target (next_qtd_ptr (wie_qtds e ! 2)) = Some 0x2000"
proof -
  obtain e h' where r: "watch_finish example_iep example_watch ([example_qtd, example_qtd, example_qtd], example_pheap) = Inr (e, h')"
      "\<forall>i < 3. watched_qtd example_iep example_watch i (wie_qtds e ! i)"
    using watch_builds_ring [OF example_watch_ok, of "[example_qtd, example_qtd, example_qtd]" example_pheap]
    by (auto simp: example_watch_def cast_slice_def)
  have "watched_qtd example_iep example_watch 2 (wie_qtds e ! 2)" using r(2) by simp
  then have "next_target (next_qtd_ptr (wie_qtds e ! 2)) = Some 0x2000"
    by (simp add: watched_qtd_def qtd_is_def example_watch_def cast_slice_def qtd_offset_def aligned32_def)
  with r(1) show ?thesis by blast
qed

text \<open>All descriptors of the ring receive into the first packet slot of the buffer, while \<open>peek\<close> presents
  slot \<open>i\<close> for descriptor \<open>i\<close>: until it has been recycled once, every descriptor but the first fills
  memory that \<open>peek\<close> does not look at.\<close>

theorem watch_fills_first_slot_only:
  assumes "watch_resources_ok ep r" "length qtds = mm_len (wr_qtds r)"
    and "0 < i" "i < mm_len (wr_qtds r)" "0 < unat (max_packet_size_of (ie_info ep))"
    and "mm_len (wr_qtds r) * unat (max_packet_size_of (ie_info ep)) < 2 ^ 64"
  shows "\<exists>e h'. watch_finish ep r (qtds, h) = Inr (e, h')
    \<and> qtd_byte_addr (wie_qtds e ! i) 0 = phys_addr (wr_buffer r)
    \<and> qtd_byte_addr (wie_qtds e ! i) 0
        \<noteq> phys_addr (wie_buffer e) + of_nat (fst (peek_slice (e\<lparr>wie_completed_packets_index := i\<rparr>)))"
proof -
  let ?s = "unat (max_packet_size_of (ie_info ep))"
  obtain e h' where e: "watch_finish ep r (qtds, h) = Inr (e, h')"
      "\<forall>i < mm_len (wr_qtds r). watched_qtd ep r i (wie_qtds e ! i)"
    using watch_finish_ring [OF assms(1,2)] by blast
  have "wie_buffer e = wr_buffer r" "wie_info e = ie_info ep"
    using e(1) by (auto simp: watch_finish_def Let_def obind_eq_Inr_iff)
  moreover have "qtd_byte_addr (wie_qtds e ! i) 0 = phys_addr (wr_buffer r)"
    using e(2) assms(4,5) by (auto simp: watched_qtd_def qtd_is_def)
  moreover have "of_nat (i * ?s) \<noteq> (0 :: u64)"
  proof
    assume "of_nat (i * ?s) = (0 :: u64)"
    then have "unat (of_nat (i * ?s) :: u64) = 0" by (simp only: unat_0)
    moreover have "i * ?s < 2 ^ 64" using assms(4,6) mult_le_mono1 [of i "mm_len (wr_qtds r)" ?s] by linarith
    then have "unat (of_nat (i * ?s) :: u64) = i * ?s"
      by (simp only: unat_of_nat) (simp add: take_bit_nat_eq_self)
    ultimately have "i * ?s = 0" by (simp only:)
    with assms(3,5) show False by simp
  qed
  ultimately show ?thesis using e(1) by (simp add: peek_slice_def Let_def)
qed

theorem watch_fills_first_slot_only_witness:
  "\<exists>e h'. watch_finish example_iep example_watch ([example_qtd, example_qtd, example_qtd], example_pheap) = Inr (e, h')
     \<and> qtd_byte_addr (wie_qtds e ! 1) 0 = 0x3000"
proof -
  have "ie_info example_iep = example_info" by (simp add: example_iep_def)
  then show ?thesis
    using watch_fills_first_slot_only [OF example_watch_ok, of "[example_qtd, example_qtd, example_qtd]" 1 example_pheap]
    by (auto simp: example_watch_def cast_slice_def)
qed

subsection \<open>Packets in turn\<close>

text \<open>\<open>peek\<close> cannot miss a packet: when it is ready it presents the slot of the current descriptor and
  leaves at least one packet to advance over; when it is pending, the state is unchanged, the
  descriptor was read as active and the interrupt signal holds a waker of this task.\<close>

theorem peek_misses_nothing:
  "case peek_poll will_wake cx active k (e, st) of
     (Some sl, (e', st'), ws) \<Rightarrow>
       sl = peek_slice e \<and> 1 \<le> wie_completed_packets e'
       \<and> e' = e\<lparr>wie_completed_packets := max 1 (wie_completed_packets e)\<rparr>
       \<and> (1 \<le> wie_completed_packets e \<or> (\<exists>j \<ge> k. \<not> active j))
   | (None, (e', st'), ws) \<Rightarrow>
       e' = e \<and> (\<exists>j \<ge> k. active j)
       \<and> (\<exists>w. (w = cx \<or> will_wake w cx) \<and> Signal_signal () st' = (SigSignaled (), [w]))"
proof (induction will_wake cx active k "(e, st)" arbitrary: st rule: peek_poll.induct)
  case (1 will_wake cx active k st)
  show ?case
  proof (cases "wie_completed_packets e \<ge> 1 \<or> \<not> active k")
    case True
    then show ?thesis
      by (subst peek_poll.simps) (auto simp: peek_slice_def max_def Let_def not_le)
  next
    case False
    obtain r st' ws where p: "Signal_poll_wait will_wake cx st = (r, st', ws)"
      using prod_cases3 by blast
    show ?thesis
    proof (cases r)
      case None
      then have "\<exists>w. (w = cx \<or> will_wake w cx) \<and> Signal_signal () st' = (SigSignaled (), [w])"
        using p by (cases st) (auto split: if_splits)
      with False None p show ?thesis by (subst peek_poll.simps) auto
    next
      case (Some u)
      then have eq: "peek_poll will_wake cx active k (e, st) = peek_poll will_wake cx active (k + 1) (e, st')"
        using False p by (subst peek_poll.simps) simp
      have "case peek_poll will_wake cx active (k + 1) (e, st') of
         (Some sl, (e', st'), ws) \<Rightarrow>
           sl = peek_slice e \<and> 1 \<le> wie_completed_packets e'
           \<and> e' = e\<lparr>wie_completed_packets := max 1 (wie_completed_packets e)\<rparr>
           \<and> (1 \<le> wie_completed_packets e \<or> (\<exists>j \<ge> k + 1. \<not> active j))
       | (None, (e', st'), ws) \<Rightarrow>
           e' = e \<and> (\<exists>j \<ge> k + 1. active j)
           \<and> (\<exists>w. (w = cx \<or> will_wake w cx) \<and> Signal_signal () st' = (SigSignaled (), [w]))"
        using "1.hyps" False p Some by auto
      then show ?thesis
        unfolding eq by (auto split: prod.splits option.splits) (meson Suc_leD)+
    qed
  qed
qed

lemma qtd_page_0_update:
  "qtd_page (q\<lparr>buffer_pointer_page_0 := QtdBufferPagePointerPage0_with_current_offset o' (buffer_pointer_page_0 q)\<rparr>) 0
     = qtd_page q 0"
  by (simp add: qtd_page_def bitfield_defs bitfield)

text \<open>After a packet, \<open>advance\<close> goes round the ring: it returns the current descriptor to the controller
  (active, one packet, its links and all other descriptors untouched), moves to the next index modulo the
  number of descriptors and takes one packet off the count.  When the packet slot lies in the page the
  descriptor already points to, the recycled descriptor receives into exactly the slot that \<open>peek\<close>
  presents for it.\<close>

theorem advance_recycles:
  assumes "wie_completed_packets_index e < length (wie_qtds e)" "1 \<le> wie_completed_packets e"
    and "unat (phys_addr (wie_buffer e)) + fst (peek_slice e) < 2 ^ 64"
    and "window_ok (phys_addr (wie_buffer e) + of_nat (fst (peek_slice e))) (snd (peek_slice e))"
  shows "\<exists>e'. advance e = Inr e'
    \<and> wie_completed_packets_index e' = (wie_completed_packets_index e + 1) mod length (wie_qtds e)
    \<and> wie_completed_packets e' = wie_completed_packets e - 1 \<and> length (wie_qtds e') = length (wie_qtds e)
    \<and> wie_buffer e' = wie_buffer e \<and> wie_info e' = wie_info e
    \<and> (\<forall>j. j \<noteq> wie_completed_packets_index e \<longrightarrow> wie_qtds e' ! j = wie_qtds e ! j)
    \<and> (let q = wie_qtds e ! wie_completed_packets_index e; q' = wie_qtds e' ! wie_completed_packets_index e;
           slot = phys_addr (wie_buffer e) + of_nat (fst (peek_slice e))
       in qtd_token q' = interrupt_token (wie_info e) \<and> next_qtd_ptr q' = next_qtd_ptr q
          \<and> alternate_next_qtd_ptr q' = alternate_next_qtd_ptr q \<and> qtd_page q' 0 = qtd_page q 0
          \<and> (qtd_page q 0 = slot - slot mod 0x1000 \<longrightarrow>
               (\<forall>k. unat (slot mod 0x1000) + k < 0x1000 \<longrightarrow> qtd_byte_addr q' k = slot + of_nat k)))"
proof -
  let ?i = "wie_completed_packets_index e" and ?s = "max_packet_size_of (wie_info e)"
  define slot where "slot = phys_addr (wie_buffer e) + of_nat (fst (peek_slice e))"
  have off: "of_nat (fst (peek_slice e)) = (ucast ?s * of_nat ?i :: u64)"
    by (simp add: peek_slice_def Let_def of_nat_unat mult.commute)
  have "fst (peek_slice e) < 2 ^ 64" using assms(3) by linarith
  then have "unat (of_nat (fst (peek_slice e)) :: u64) = fst (peek_slice e)"
    by (simp only: unat_of_nat) (simp add: take_bit_nat_eq_self)
  then have add: "checked_add (phys_addr (wie_buffer e)) (ucast ?s * of_nat ?i) = Inr slot"
    using assms(3) unfolding off [symmetric] checked_add_def slot_def by simp
  have win: "window_ok slot (unat ?s)" using assms(4) by (simp add: slot_def peek_slice_def Let_def)
  then obtain bp where bp: "BufferPtrs_new_contiguous slot (ucast ?s) = Inr bp"
    using Qtd_new_window [OF win, of "ucast ?s"] by (auto simp: of_nat_unat)
  have o: "unat (bp_offset bp) = unat (slot mod 0x1000)"
  proof -
    have "unat (slot mod 0x1000) < 4096" by (simp add: unat_mod_distrib)
    moreover have "bp_offset bp = of_nat (unat (slot mod 0x1000))" using bp by (simp add: new_contiguous_Inr_iff)
    ultimately show ?thesis by (simp only: unat_of_nat) (simp add: take_bit_nat_eq_self)
  qed
  let ?q = "wie_qtds e ! ?i"
  define q' where "q' = ?q\<lparr>buffer_pointer_page_0 :=
      QtdBufferPagePointerPage0_with_current_offset (bp_offset bp) (buffer_pointer_page_0 ?q),
    qtd_token := interrupt_token (wie_info e)\<rparr>"
  let ?e = "e\<lparr>wie_qtds := (wie_qtds e)[?i := q'], wie_completed_packets_index := (?i + 1) mod length (wie_qtds e),
    wie_completed_packets := wie_completed_packets e - 1\<rparr>"
  have "advance e = Inr ?e"
    using assms(1,2) add bp ring_index(2) [OF assms(1)]
    by (simp add: advance_def Let_def index_list_def q'_def)
  moreover have page: "qtd_page q' 0 = qtd_page ?q 0"
    using qtd_page_0_update [of "bp_offset bp" ?q] by (simp add: q'_def qtd_page_def)
  moreover have "qtd_byte_addr q' k = slot + of_nat k"
    if "qtd_page ?q 0 = slot - slot mod 0x1000" "unat (slot mod 0x1000) + k < 0x1000" for k
  proof -
    have "QtdBufferPagePointerPage0_current_offset (buffer_pointer_page_0 q') = bp_offset bp"
      by (simp add: q'_def bitfield_defs bitfield)
    then have "qtd_byte_addr q' k = slot - slot mod 0x1000 + of_nat (unat (slot mod 0x1000) + k)"
      using that o page by (simp add: qtd_byte_addr_def Let_def del: of_nat_add)
    then show ?thesis by (simp add: of_nat_unat)
  qed
  ultimately show ?thesis
    using assms(1) by (intro exI [of _ ?e]) (simp add: Let_def slot_def [symmetric], simp add: q'_def)
qed

definition example_watched :: watched_interrupt_endpoint where
  "example_watched = \<lparr>wie_qtds = [example_qtd, example_qtd], wie_buffer = cast_slice 16 (example_pmem 0),
     wie_completed_packets_index = 1, wie_completed_packets = 1, wie_info = example_info\<rparr>"

theorem advance_recycles_witness:
  "\<exists>e'. advance example_watched = Inr e' \<and> wie_completed_packets_index e' = 0 \<and> wie_completed_packets e' = 0
     \<and> qtd_byte_addr (wie_qtds e' ! 1) 3 = 11"
proof -
  have s: "peek_slice example_watched = (8, 8)"
    by (simp add: peek_slice_def example_watched_def)
  have p: "phys_addr (wie_buffer example_watched) = 0"
    by (simp add: example_watched_def cast_slice_def)
  have q: "qtd_page (wie_qtds example_watched ! 1) 0 = 0"
    by (simp add: example_watched_def qtd_page_def example_qtd_def bitfield_defs bitfield)
  show ?thesis
    using advance_recycles [of example_watched] s p q
    by (auto simp: window_ok_def example_watched_def [THEN arg_cong, of wie_qtds]
        example_watched_def [THEN arg_cong, of wie_completed_packets_index]
        example_watched_def [THEN arg_cong, of wie_completed_packets] Let_def)
qed

end
