(* ===== verification/Device.thy ===== *)
theory Device
  imports Interrupt_Endpoint Setup_Packets
begin

text \<open>
  Devices behind a root port (\<^verbatim>\<open>device.rs\<close>, \<^verbatim>\<open>device_shared.rs\<close>): loading endpoint 0, reading the
  descriptors, and selecting a configuration.

  A control transfer is the part of \<^verbatim>\<open>control_endpoint.rs\<close> before its \<^verbatim>\<open>await\<close>, then what the controller
  and the device do until the status descriptor is inactive, the argument \<open>hw\<close>, then the part
  behind the \<^verbatim>\<open>await\<close>.  \<open>io_mem\<close> is the memory both sides use; \<open>io_transfers\<close> numbers the transfers, so that
  \<open>hw\<close> may answer the same request differently.  \<open>conforming\<close> states what an EHCI controller does with a
  well-formed chain whose device answers a request with \<open>dev\<close>.

  An \<^verbatim>\<open>Arc\<close> is the number of the shared state it points to.  A function that may loop forever
  returns an option, with \<open>None\<close> for not returning.
\<close>

subsection \<open>Shared state\<close>

record add_endpoint_req =
  aer_endpoint_shared :: nat

record 'w device_shared =
  ds_req_signal :: "(add_endpoint_req, 'w) signal_state"
  ds_usb_int_signal :: "(unit, 'w) signal_state"

definition DeviceSharedState_default :: "'w device_shared" where
  "DeviceSharedState_default =
     \<lparr>ds_req_signal = Signal_default, ds_usb_int_signal = Signal_default\<rparr>"

subsection \<open>The device\<close>

record device =
  dev_address :: u7
  dev_shared :: nat
  dev_ctrl_ds_segment :: ctrl_ds_segment
  dev_ep0 :: control_endpoint
  dev_ep0_shared :: nat

definition Device_new :: "nat \<Rightarrow> ctrl_ds_segment \<Rightarrow> u7 \<Rightarrow> nat \<Rightarrow> device" where
  "Device_new shared seg address ep0_shared =
     \<lparr>dev_address = address, dev_shared = shared, dev_ctrl_ds_segment = seg,
      dev_ep0 = \<lparr>ce_device_address = address, ce_endpoint_number = 0, ce_ctrl_ds_segment = seg\<rparr>,
      dev_ep0_shared = ep0_shared\<rparr>"

record loaded_device =
  ld_address :: u7
  ld_shared :: nat
  ld_ctrl_ds_segment :: ctrl_ds_segment
  ld_ep0 :: loaded_control_endpoint

definition Device_load ::
    "device \<Rightarrow> mapped_mem \<Rightarrow> async_heap \<times> 'w control_endpoint_shared
      \<Rightarrow> (loaded_device \<times> (async_heap \<times> 'w control_endpoint_shared) \<times> 'w list) outcome" where
  "Device_load d qh_mem s =
     obind (ControlEndpoint_load (dev_ep0 d) qh_mem s) (\<lambda>(ep0, s', woken).
     Inr (\<lparr>ld_address = dev_address d, ld_shared = dev_shared d,
           ld_ctrl_ds_segment = dev_ctrl_ds_segment d, ld_ep0 = ep0\<rparr>, s', woken))"

subsection \<open>Transfers\<close>

record io_mem =
  io_qtds :: qtd_store
  io_heap :: async_heap
  io_bufs :: "vptr \<Rightarrow> bytes"
  io_transfers :: nat

definition write_buf :: "vptr \<Rightarrow> bytes \<Rightarrow> io_mem \<Rightarrow> io_mem" where
  "write_buf p bs m = m\<lparr>io_bufs := (io_bufs m)(p := bs)\<rparr>"

definition await_status :: "(io_mem \<Rightarrow> io_mem) \<Rightarrow> qtd_store \<times> async_heap \<Rightarrow> io_mem \<Rightarrow> io_mem" where
  "await_status hw = (\<lambda>(qs, h) m.
     (hw (m\<lparr>io_qtds := qs, io_heap := h\<rparr>))\<lparr>io_transfers := Suc (io_transfers m)\<rparr>)"

definition transfer_in ::
    "(io_mem \<Rightarrow> io_mem) \<Rightarrow> loaded_control_endpoint \<Rightarrow> mapped_mem \<Rightarrow> mapped_slice list \<Rightarrow> mapped_mem list
      \<Rightarrow> io_mem \<Rightarrow> (u16 \<times> io_mem) outcome" where
  "transfer_in hw ep setup_packet buffers qtds m =
     obind (transfer_in_start ep setup_packet buffers qtds (io_qtds m, io_heap m)) (\<lambda>started.
     let m' = await_status hw started m
     in obind (transfer_in_finish buffers (tl qtds) (io_qtds m') 0) (\<lambda>n. Inr (n, m')))"

definition transfer_no_data ::
    "(io_mem \<Rightarrow> io_mem) \<Rightarrow> loaded_control_endpoint \<Rightarrow> mapped_mem \<Rightarrow> mapped_mem \<times> mapped_mem
      \<Rightarrow> io_mem \<Rightarrow> io_mem outcome" where
  "transfer_no_data hw ep setup_packet qtds m =
     obind (transfer_no_data_start ep setup_packet (fst qtds) (snd qtds) (io_qtds m, io_heap m)) (\<lambda>started.
     Inr (await_status hw started m))"

subsection \<open>Descriptors\<close>

definition MAX_CONFIGURATION_DESCRIPTOR_LEN :: nat where
  "MAX_CONFIGURATION_DESCRIPTOR_LEN = 4096"

record get_info_resources =
  gir_qtds :: "mapped_mem list"
  gir_setup_packet :: mapped_mem
  gir_buffer :: mapped_mem

definition get_descriptor ::
    "(io_mem \<Rightarrow> io_mem) \<Rightarrow> loaded_control_endpoint \<Rightarrow> mapped_mem list \<Rightarrow> mapped_mem \<Rightarrow> mapped_slice
      \<Rightarrow> io_mem \<Rightarrow> (bytes \<times> io_mem) outcome" where
  "get_descriptor hw ep qtds setup_buffer buffer m =
     obind (transfer_in hw ep setup_buffer [buffer] qtds m) (\<lambda>(bytes_transferred, m').
     obind (slice_range (io_bufs m' (mm_ptr buffer)) 0 (unat bytes_transferred)) (\<lambda>d. Inr (d, m')))"

definition get_configuration_descriptor ::
    "(io_mem \<Rightarrow> io_mem) \<Rightarrow> loaded_control_endpoint \<Rightarrow> get_info_resources \<Rightarrow> u8 \<Rightarrow> io_mem
      \<Rightarrow> (bytes \<times> io_mem) outcome" where
  "get_configuration_descriptor hw ep res descriptor_num m =
     get_descriptor hw ep (gir_qtds res) (gir_setup_packet res)
       (cast_slice MAX_CONFIGURATION_DESCRIPTOR_LEN (gir_buffer res))
       (write_buf (mm_ptr (gir_setup_packet res))
          (SetupPacket_bytes (SetupPacket_new_get_configuration_descriptor
             (of_nat MAX_CONFIGURATION_DESCRIPTOR_LEN) descriptor_num)) m)"

text \<open>The loop \<^verbatim>\<open>for n in 0..b_num_configurations\<close>; \<open>k\<close> iterations are left.\<close>

primrec configurations_loop ::
    "(io_mem \<Rightarrow> io_mem) \<Rightarrow> loaded_control_endpoint \<Rightarrow> get_info_resources \<Rightarrow> nat \<Rightarrow> u8
      \<Rightarrow> configuration_info list \<Rightarrow> io_mem \<Rightarrow> (configuration_info list \<times> io_mem) outcome option" where
  "configurations_loop hw ep res 0 n configurations m = Some (Inr (configurations, m))"
| "configurations_loop hw ep res (Suc k) n configurations m =
     (case get_configuration_descriptor hw ep res n m of
        Inl e \<Rightarrow> Some (Inl e)
      | Inr (full_descriptor, m') \<Rightarrow>
          Option.bind (ConfigurationInfo_from_descriptor full_descriptor) (\<lambda>r.
            case r of
              Inl e \<Rightarrow> Some (Inl e)
            | Inr c \<Rightarrow> configurations_loop hw ep res k (n + 1) (configurations @ [c]) m'))"

record device_with_info =
  dwi_address :: u7
  dwi_shared :: nat
  dwi_ctrl_ds_segment :: ctrl_ds_segment
  dwi_ep0 :: loaded_control_endpoint
  dwi_info :: device_info

definition get_info ::
    "(io_mem \<Rightarrow> io_mem) \<Rightarrow> loaded_device \<Rightarrow> get_info_resources \<Rightarrow> io_mem
      \<Rightarrow> (device_with_info \<times> io_mem) outcome option" where
  "get_info hw d res m =
     (case get_descriptor hw (ld_ep0 d) (gir_qtds res) (gir_setup_packet res)
             (cast_slice MAX_CONFIGURATION_DESCRIPTOR_LEN (gir_buffer res))
             (write_buf (mm_ptr (gir_setup_packet res))
                (SetupPacket_bytes (SetupPacket_new_get_device_descriptor 18)) m) of
        Inl e \<Rightarrow> Some (Inl e)
      | Inr (device_descriptor_bytes, m1) \<Rightarrow>
          (case unwrap_opt (DeviceDescriptor_from_bytes device_descriptor_bytes) of
             Inl e \<Rightarrow> Some (Inl e)
           | Inr dd \<Rightarrow>
               Option.bind (configurations_loop hw (ld_ep0 d) res (unat (dd_b_num_configurations dd)) 0 [] m1)
                 (\<lambda>r. case r of
                        Inl e \<Rightarrow> Some (Inl e)
                      | Inr (configurations, m2) \<Rightarrow>
                          Some (Inr (\<lparr>dwi_address = ld_address d, dwi_shared = ld_shared d,
                            dwi_ctrl_ds_segment = ld_ctrl_ds_segment d, dwi_ep0 = ld_ep0 d,
                            dwi_info = DeviceInfo_from_descriptor dd configurations\<rparr>, m2)))))"

subsection \<open>Configurations\<close>

datatype EndpointEnum =
    EpControl
  | EpBulk
  | EpInterrupt interrupt_endpoint nat
  | EpIsochronous

type_synonym dev_interface = "EndpointEnum list"

record device_with_configuration_set =
  dcs_endpoint_0 :: loaded_control_endpoint
  dcs_interfaces :: "dev_interface list"

record hub =
  hub_endpoint_0 :: loaded_control_endpoint
  hub_interrupt_endpoint :: interrupt_endpoint
  hub_interrupt_shared :: nat

datatype ConfiguredDeviceOrHub = ConfDevice device_with_configuration_set | ConfHub hub

record set_configuration_resources =
  scr_qtds :: "mapped_mem \<times> mapped_mem"
  scr_setup_buffer :: mapped_mem

text \<open>What the mapping of the endpoints touches: the shared states of interrupt endpoints, the next free
  number for one, the shared state of the device, and the wakers called.\<close>

record 'w conf_state =
  cs_interrupt :: "nat \<Rightarrow> 'w interrupt_endpoint_shared"
  cs_fresh :: nat
  cs_device :: "'w device_shared"
  cs_woken :: "'w list"

definition configure_endpoint ::
    "device_with_info \<Rightarrow> endpoint_info \<Rightarrow> 'w conf_state \<Rightarrow> EndpointEnum \<times> 'w conf_state" where
  "configure_endpoint d endpoint s =
     (case TransferType_from_u2 (EndpointAttributes_transfer_type (ei_attributes endpoint)) of
        TransferType_Control \<Rightarrow> (EpControl, s)
      | TransferType_Isochronous \<Rightarrow> (EpIsochronous, s)
      | TransferType_Interrupt \<Rightarrow>
          (let shared = cs_fresh s;
               s1 = s\<lparr>cs_interrupt := (cs_interrupt s)(shared := InterruptEndpointSharedState_default),
                      cs_fresh := Suc shared\<rparr>
           in case Signal_signal \<lparr>aer_endpoint_shared = shared\<rparr> (ds_req_signal (cs_device s1)) of (sig, woken) \<Rightarrow>
                (EpInterrupt \<lparr>ie_device_address = dwi_address d, ie_info = endpoint,
                              ie_ctrl_ds_segment = dwi_ctrl_ds_segment d\<rparr> shared,
                 s1\<lparr>cs_device := (cs_device s1)\<lparr>ds_req_signal := sig\<rparr>, cs_woken := cs_woken s1 @ woken\<rparr>))
      | TransferType_Bulk \<Rightarrow> (EpBulk, s))"

primrec map_state :: "('x \<Rightarrow> 's \<Rightarrow> 'y \<times> 's) \<Rightarrow> 'x list \<Rightarrow> 's \<Rightarrow> 'y list \<times> 's" where
  "map_state f [] s = ([], s)"
| "map_state f (x # xs) s =
     (case f x s of (y, s') \<Rightarrow> (case map_state f xs s' of (ys, s'') \<Rightarrow> (y # ys, s'')))"

definition configure_interface ::
    "device_with_info \<Rightarrow> interface_info \<Rightarrow> 'w conf_state \<Rightarrow> dev_interface \<times> 'w conf_state" where
  "configure_interface d i = map_state (configure_endpoint d) (ii_endpoints i)"

definition classify_configured ::
    "device_with_info \<Rightarrow> device_with_configuration_set \<Rightarrow> ConfiguredDeviceOrHub outcome" where
  "classify_configured d c =
     (if di_device_class (dwi_info d) = 0x9
      then (case dcs_interfaces c of
              [] \<Rightarrow> Inl UnwrapFailed
            | i # _ \<Rightarrow>
                (case i of
                   [] \<Rightarrow> Inl UnwrapFailed
                 | EpInterrupt ep shared # _ \<Rightarrow>
                     Inr (ConfHub \<lparr>hub_endpoint_0 = dcs_endpoint_0 c, hub_interrupt_endpoint = ep,
                                   hub_interrupt_shared = shared\<rparr>)
                 | _ # _ \<Rightarrow> Inl (ExplicitPanic ''unexpected hub endpoint type'')))
      else Inr (ConfDevice c))"

definition set_configuration ::
    "(io_mem \<Rightarrow> io_mem) \<Rightarrow> device_with_info \<Rightarrow> nat \<Rightarrow> set_configuration_resources \<Rightarrow> io_mem \<times> 'w conf_state
      \<Rightarrow> (ConfiguredDeviceOrHub \<times> io_mem \<times> 'w conf_state) outcome" where
  "set_configuration hw d configuration_index res = (\<lambda>(m, s).
     obind (index_list (di_configurations (dwi_info d)) configuration_index) (\<lambda>configuration.
     obind (transfer_no_data hw (dwi_ep0 d) (scr_setup_buffer res) (scr_qtds res)
              (write_buf (mm_ptr (scr_setup_buffer res))
                (SetupPacket_bytes (SetupPacket_new_set_configuration (ci_number configuration))) m)) (\<lambda>m'.
     case map_state (configure_interface d) (ci_interfaces configuration) s of (interfaces, s') \<Rightarrow>
       obind (classify_configured d \<lparr>dcs_endpoint_0 = dwi_ep0 d, dcs_interfaces = interfaces\<rparr>) (\<lambda>r.
       Inr (r, m', s')))))"

subsection \<open>A conforming controller and device\<close>

text \<open>
  The chain of an IN transfer into one buffer, as the controller needs it.
\<close>

definition in_chain_ready ::
    "(vptr \<Rightarrow> u32) \<Rightarrow> (u32 \<Rightarrow> vptr) \<Rightarrow> loaded_control_endpoint \<Rightarrow> mapped_mem \<Rightarrow> mapped_slice \<Rightarrow> mapped_mem list
      \<Rightarrow> io_mem \<Rightarrow> bool" where
  "in_chain_ready off at ep sp buffer qtds m \<longleftrightarrow>
     qtd_walk at (io_qtds m) (length qtds) (next_qtd_pointer (qha_qh (io_heap m (lce_qh ep)))) = map mm_ptr qtds
     \<and> transfer_token (qha_qh (io_heap m (lce_qh ep))) = 0
     \<and> qtd_is (TransferToken_new_active SetupToken 8) (phys_addr sp) 8
        (NextQtdPointer_new_valid (off (mm_ptr (qtds ! 1)))) AlternateQtdLinkPtr_INVALID
        (io_qtds m (mm_ptr (hd qtds)))
     \<and> data_qtd_is off (AlternateQtdLinkPtr_new_valid (off (mm_ptr (last qtds))))
          buffer (qtds ! 2) (io_qtds m (mm_ptr (qtds ! 1)))
     \<and> qtd_token (io_qtds m (mm_ptr (last qtds))) = status_token OutToken"

text \<open>
  \<open>dev n r\<close> is the data the device sends in the \<open>n\<close>-th transfer for the request \<open>r\<close>.  When a ready
  chain has been executed and that data fits the buffer, it is at the start of the buffer and the
  data descriptor counts what is left of the buffer.
\<close>

definition conforming ::
    "(nat \<Rightarrow> usb_request \<Rightarrow> bytes) \<Rightarrow> (vptr \<Rightarrow> u32) \<Rightarrow> (u32 \<Rightarrow> vptr) \<Rightarrow> loaded_control_endpoint \<Rightarrow> mapped_mem
      \<Rightarrow> mapped_slice \<Rightarrow> mapped_mem list \<Rightarrow> (io_mem \<Rightarrow> io_mem) \<Rightarrow> bool" where
  "conforming dev off at ep sp buffer qtds hw \<longleftrightarrow>
     (\<forall>m r. in_chain_ready off at ep sp buffer qtds m
        \<and> decode_request (io_bufs m (mm_ptr sp)) = Some r \<and> length (dev (io_transfers m) r) \<le> mm_len buffer
      \<longrightarrow> (\<exists>rest. io_bufs (hw m) (mm_ptr buffer) = dev (io_transfers m) r @ rest)
        \<and> TransferToken_total_bytes_to_transfer (qtd_token (io_qtds (hw m) (mm_ptr (qtds ! 1))))
            = of_nat (mm_len buffer - length (dev (io_transfers m) r)))"

lemma in_finish_single:
  assumes "mm_len b < 2 ^ 15" "n \<le> mm_len b"
    and "TransferToken_total_bytes_to_transfer (qtd_token (qs (mm_ptr q))) = of_nat (mm_len b - n)"
  shows "transfer_in_finish [b] (q # qtds) qs 0 = Inr (of_nat n)"
proof -
  have u: "unat (TransferToken_total_bytes_to_transfer (qtd_token (qs (mm_ptr q)))) = mm_len b - n"
    using assms(1,3) by (simp only: assms(3) unat_of_nat) (simp add: take_bit_nat_eq_self)
  then have r: "received [b] (q # qtds) qs = n" using assms(2) by (simp add: received_def)
  from transfer_in_finish_received [of "[b]" "q # qtds" qs 0, unfolded r] assms(1,2) u show ?thesis
    by (simp del: transfer_in_finish.simps)
qed

lemma transfer_in_answers:
  assumes "transfer_resources_ok off at (lce_ctrl_ds_segment ep) sp [buffer] qtds"
    and "conforming dev off at ep sp buffer qtds hw"
    and "decode_request (io_bufs m (mm_ptr sp)) = Some r" "length (dev (io_transfers m) r) \<le> mm_len buffer"
  shows "\<exists>m' rest. transfer_in hw ep sp [buffer] qtds m = Inr (of_nat (length (dev (io_transfers m) r)), m')
    \<and> io_bufs m' (mm_ptr buffer) = dev (io_transfers m) r @ rest
    \<and> io_transfers m' = Suc (io_transfers m)"
proof -
  let ?d = "dev (io_transfers m) r"
  obtain qs' h' where st: "transfer_in_start ep sp [buffer] qtds (io_qtds m, io_heap m) = Inr (qs', h')"
    and ready: "in_chain_ready off at ep sp buffer qtds (m\<lparr>io_qtds := qs', io_heap := h'\<rparr>)"
    using transfer_in_start_chain [OF assms(1), of "io_qtds m" "io_heap m"]
    by (auto simp: in_chain_ready_def numeral_2_eq_2)
  let ?m = "m\<lparr>io_qtds := qs', io_heap := h'\<rparr>"
  have c: "\<exists>rest. io_bufs (hw ?m) (mm_ptr buffer) = ?d @ rest"
      "TransferToken_total_bytes_to_transfer (qtd_token (io_qtds (hw ?m) (mm_ptr (qtds ! 1))))
         = of_nat (mm_len buffer - length ?d)"
    using assms(2-4) ready unfolding conforming_def
    by (metis (no_types, lifting) io_mem.select_convs(3,4) io_mem.surjective io_mem.update_convs(1,2))+
  obtain s q t where qtds: "qtds = [s, q, t]"
    using assms(1) by (auto simp: transfer_resources_ok_def length_Suc_conv numeral_2_eq_2)
  have len: "mm_len buffer < 2 ^ 15" using assms(1) by (simp add: transfer_resources_ok_def buffer_ok_def)
  have "transfer_in_finish [buffer] (tl qtds) (io_qtds (hw ?m)) 0 = Inr (of_nat (length ?d))"
    using in_finish_single [of buffer "length ?d" "io_qtds (hw ?m)" q] c(2) len assms(4) by (simp add: qtds)
  then show ?thesis
    using c(1) st by (auto simp: transfer_in_def await_status_def)
qed

lemma transfer_in_conforming:
  assumes "transfer_resources_ok off at (lce_ctrl_ds_segment ep) sp [buffer] qtds"
    and "conforming dev off at ep sp buffer qtds hw"
    and "decode_request (io_bufs m (mm_ptr sp)) = Some r" "length (dev (io_transfers m) r) \<le> mm_len buffer"
  shows "\<exists>m'. get_descriptor hw ep qtds sp buffer m = Inr (dev (io_transfers m) r, m')
    \<and> io_transfers m' = Suc (io_transfers m)"
proof -
  have "mm_len buffer < 2 ^ 15" using assms(1) by (simp add: transfer_resources_ok_def buffer_ok_def)
  then have "unat (of_nat (length (dev (io_transfers m) r)) :: u16) = length (dev (io_transfers m) r)"
    using assms(4) by (simp add: unat_of_nat take_bit_nat_eq_self)
  with transfer_in_answers [OF assms] show ?thesis
    by (auto simp: get_descriptor_def slice_range_def)
qed

subsection \<open>Reading the descriptors\<close>

record configuration_source =
  src_len :: u16
  src_string_index :: u8
  src_info :: configuration_info
  src_interfaces :: "interface_source list"

definition encode_source :: "configuration_source \<Rightarrow> bytes" where
  "encode_source c = encode_configuration (src_len c) (src_string_index c) (src_info c) (src_interfaces c)"

definition configuration_source_ok :: "configuration_source \<Rightarrow> bool" where
  "configuration_source_ok c \<longleftrightarrow> list_all interface_source_ok (src_interfaces c) \<and> length (src_interfaces c) < 256
     \<and> length (encode_source c) \<le> MAX_CONFIGURATION_DESCRIPTOR_LEN"

definition source_info :: "configuration_source \<Rightarrow> configuration_info" where
  "source_info c = (src_info c)\<lparr>ci_name := None, ci_interfaces := map parsed_interface (src_interfaces c)\<rparr>"

text \<open>A device with the device descriptor \<open>dd\<close> and the configurations \<open>cs\<close>, from its \<open>n\<close>-th transfer on.\<close>

definition presents ::
    "(nat \<Rightarrow> usb_request \<Rightarrow> bytes) \<Rightarrow> nat \<Rightarrow> device_descriptor \<Rightarrow> configuration_source list \<Rightarrow> bool" where
  "presents dev n dd cs \<longleftrightarrow>
     DeviceDescriptor_from_bytes (dev n (ReqGetDescriptor Standard 1 0 18)) = Some dd
     \<and> unat (dd_b_num_configurations dd) = length cs \<and> list_all configuration_source_ok cs
     \<and> (\<forall>i < length cs. dev (n + Suc i) (ReqGetDescriptor Standard 2 (of_nat i) 4096) = encode_source (cs ! i))"

definition get_info_resources_ok ::
    "(vptr \<Rightarrow> u32) \<Rightarrow> (u32 \<Rightarrow> vptr) \<Rightarrow> ctrl_ds_segment \<Rightarrow> get_info_resources \<Rightarrow> bool" where
  "get_info_resources_ok off at seg res \<longleftrightarrow>
     transfer_resources_ok off at seg (gir_setup_packet res)
       [cast_slice MAX_CONFIGURATION_DESCRIPTOR_LEN (gir_buffer res)] (gir_qtds res)"

abbreviation info_conforming ::
    "(nat \<Rightarrow> usb_request \<Rightarrow> bytes) \<Rightarrow> (vptr \<Rightarrow> u32) \<Rightarrow> (u32 \<Rightarrow> vptr) \<Rightarrow> loaded_control_endpoint
      \<Rightarrow> get_info_resources \<Rightarrow> (io_mem \<Rightarrow> io_mem) \<Rightarrow> bool" where
  "info_conforming dev off at ep res \<equiv> conforming dev off at ep (gir_setup_packet res)
     (cast_slice MAX_CONFIGURATION_DESCRIPTOR_LEN (gir_buffer res)) (gir_qtds res)"

lemma write_buf_simps [simp]:
  "io_bufs (write_buf p bs m) p = bs" "io_transfers (write_buf p bs m) = io_transfers m"
  by (simp_all add: write_buf_def)

lemma mm_len_cast_slice [simp]: "mm_len (cast_slice n b) = n"
  by (simp add: cast_slice_def)

lemma device_descriptor_length: "DeviceDescriptor_from_bytes bs = Some dd \<Longrightarrow> length bs = 18"
  by (cases bs rule: DeviceDescriptor_from_bytes.cases) simp_all

lemma source_parses:
  assumes "configuration_source_ok c"
  shows "ConfigurationInfo_from_descriptor (encode_source c) = Some (Inr (source_info c))"
  using encoded_configuration_parses [of "src_interfaces c" "src_len c" "src_string_index c" "src_info c" "[]"] assms
  by (simp add: configuration_source_ok_def encode_source_def source_info_def)

lemma configurations_loop_reads:
  assumes res: "get_info_resources_ok off at (lce_ctrl_ds_segment ep) res"
    and hw: "info_conforming dev off at ep res hw"
    and p: "presents dev t dd cs"
    and "i + k = length cs" "io_transfers m = t + Suc i"
  shows "\<exists>m'. configurations_loop hw ep res k (of_nat i) acc m
    = Some (Inr (acc @ map source_info (drop i cs), m'))"
  using assms(4,5)
proof (induction k arbitrary: i acc m)
  case 0
  then show ?case by simp
next
  case (Suc k)
  then have i: "i < length cs" by simp
  with p have ok: "configuration_source_ok (cs ! i)"
    and d: "dev (t + Suc i) (ReqGetDescriptor Standard 2 (of_nat i) 4096) = encode_source (cs ! i)"
    by (auto simp: presents_def list_all_length)
  have len: "length (encode_source (cs ! i)) \<le> MAX_CONFIGURATION_DESCRIPTOR_LEN"
    using ok by (simp add: configuration_source_ok_def)
  let ?m = "write_buf (mm_ptr (gir_setup_packet res)) (SetupPacket_bytes
      (SetupPacket_new_get_configuration_descriptor (of_nat MAX_CONFIGURATION_DESCRIPTOR_LEN) (of_nat i))) m"
  obtain m' where m': "get_configuration_descriptor hw ep res (of_nat i) m = Inr (encode_source (cs ! i), m')"
      "io_transfers m' = t + Suc (Suc i)"
    using transfer_in_conforming [OF res [unfolded get_info_resources_ok_def] hw, of ?m
        "ReqGetDescriptor Standard 2 (of_nat i) 4096"] Suc.prems(2) d len
    by (auto simp: get_configuration_descriptor_def MAX_CONFIGURATION_DESCRIPTOR_LEN_def)
  obtain m'' where "configurations_loop hw ep res k (of_nat (Suc i)) (acc @ [source_info (cs ! i)]) m'
      = Some (Inr ((acc @ [source_info (cs ! i)]) @ map source_info (drop (Suc i) cs), m''))"
    using Suc.IH [of "Suc i" m' "acc @ [source_info (cs ! i)]"] Suc.prems m'(2) by auto
  with m' ok i show ?case
    by (auto simp: source_parses Cons_nth_drop_Suc [symmetric] add.commute)
qed

lemma get_info_reads:
  assumes "get_info_resources_ok off at (lce_ctrl_ds_segment (ld_ep0 d)) res"
    and "info_conforming dev off at (ld_ep0 d) res hw"
    and "presents dev (io_transfers m) dd cs"
  shows "\<exists>m'. get_info hw d res m = Some (Inr (\<lparr>dwi_address = ld_address d, dwi_shared = ld_shared d,
      dwi_ctrl_ds_segment = ld_ctrl_ds_segment d, dwi_ep0 = ld_ep0 d,
      dwi_info = DeviceInfo_from_descriptor dd (map source_info cs)\<rparr>, m'))"
proof -
  let ?m = "write_buf (mm_ptr (gir_setup_packet res)) (SetupPacket_bytes (SetupPacket_new_get_device_descriptor 18)) m"
  let ?r = "ReqGetDescriptor Standard 1 0 18"
  have dd: "DeviceDescriptor_from_bytes (dev (io_transfers m) ?r) = Some dd"
    and n: "unat (dd_b_num_configurations dd) = length cs"
    using assms(3) by (simp_all add: presents_def)
  obtain m1 where m1: "get_descriptor hw (ld_ep0 d) (gir_qtds res) (gir_setup_packet res)
      (cast_slice MAX_CONFIGURATION_DESCRIPTOR_LEN (gir_buffer res)) ?m = Inr (dev (io_transfers m) ?r, m1)"
      "io_transfers m1 = io_transfers m + Suc 0"
    using transfer_in_conforming [OF assms(1) [unfolded get_info_resources_ok_def] assms(2), of ?m ?r]
      device_descriptor_length [OF dd]
    by (auto simp: MAX_CONFIGURATION_DESCRIPTOR_LEN_def)
  obtain m2 where "configurations_loop hw (ld_ep0 d) res (length cs) 0 [] m1 = Some (Inr (map source_info cs, m2))"
    using configurations_loop_reads [OF assms, of 0 "length cs" m1 "[]"] m1(2) by auto
  with m1(1) dd n show ?thesis by (simp add: get_info_def)
qed

text \<open>C20: For a controller and a device that conform, \<open>get_info\<close> always returns, and what it returns is the
  device: the fields of its device descriptor and, in order, all its configurations with the
  interfaces and endpoints that the device presents.\<close>

theorem get_info_reads_device:
  assumes "get_info_resources_ok off at (lce_ctrl_ds_segment (ld_ep0 d)) res"
    and "info_conforming dev off at (ld_ep0 d) res hw"
    and "presents dev (io_transfers m) dd cs"
  shows "\<exists>m'. get_info hw d res m = Some (Inr (\<lparr>dwi_address = ld_address d, dwi_shared = ld_shared d,
      dwi_ctrl_ds_segment = ld_ctrl_ds_segment d, dwi_ep0 = ld_ep0 d,
      dwi_info = DeviceInfo_from_descriptor dd (map source_info cs)\<rparr>, m'))"
  using assms by (rule get_info_reads)

definition example_controller :: "(nat \<Rightarrow> usb_request \<Rightarrow> bytes) \<Rightarrow> io_mem \<Rightarrow> io_mem" where
  "example_controller dev m =
     (let d = (case decode_request (io_bufs m 0x400) of None \<Rightarrow> [] | Some r \<Rightarrow> dev (io_transfers m) r)
      in m\<lparr>io_bufs := (io_bufs m)(0x1000 := d @ replicate (4096 - length d) 0),
           io_qtds := (io_qtds m)(0x200 := (io_qtds m 0x200)\<lparr>qtd_token :=
             TransferToken_with_total_bytes_to_transfer
               (TransferToken_total_bytes_to_transfer (qtd_token (io_qtds m 0x200)) - of_nat (length d)) 0\<rparr>)\<rparr>)"

definition example_resources :: get_info_resources where
  "example_resources = \<lparr>gir_qtds = [example_mem 0x100, example_mem 0x200, example_mem 0x300],
     gir_setup_packet = example_mem 0x400, gir_buffer = example_mem 0x1000\<rparr>"

definition example_source :: configuration_source where
  "example_source = \<lparr>src_len = 42, src_string_index = 0, src_info = example_configuration,
     src_interfaces = [example_interface]\<rparr>"

definition example_device_bytes :: bytes where
  "example_device_bytes = [18, 1, 0, 2, 0, 0, 0, 64, 0x27, 0x06, 1, 0, 0, 0, 1, 2, 3, 1]"

definition example_device :: "nat \<Rightarrow> usb_request \<Rightarrow> bytes" where
  "example_device n r =
     (if r = ReqGetDescriptor Standard 1 0 18 then example_device_bytes else encode_source example_source)"

definition example_loaded :: loaded_device where
  "example_loaded = \<lparr>ld_address = 1, ld_shared = 0, ld_ctrl_ds_segment = LOWER_4_G, ld_ep0 = example_ep0\<rparr>"

definition example_io :: io_mem where
  "example_io = \<lparr>io_qtds = \<lambda>_. example_qtd, io_heap = example_heap, io_bufs = \<lambda>_. [], io_transfers = 0\<rparr>"

lemma data_token_total [simp]:
  "TransferToken_total_bytes_to_transfer (data_token n) = of_nat n"
  "TransferToken_total_bytes_to_transfer (TransferToken_with_total_bytes_to_transfer v t) = v"
  by (simp_all add: data_token_def TransferToken_new_active_def bitfield_defs bitfield)

lemma example_controller_conforming:
  assumes "mm_ptr buf = 0x1000" "mm_ptr sp = 0x400" "mm_ptr (qtds ! 1) = 0x200"
  shows "conforming dev off at ep sp buf qtds (example_controller dev)"
  using assms
  by (auto simp: conforming_def example_controller_def in_chain_ready_def data_qtd_is_def qtd_is_def
      Let_def of_nat_diff)

lemma example_info_conforming: "info_conforming dev off at ep example_resources (example_controller dev)"
  by (rule example_controller_conforming) (simp_all add: example_resources_def cast_slice_def example_mem_def)

lemma example_info_resources: "get_info_resources_ok ucast ucast LOWER_4_G example_resources"
  by (simp add: get_info_resources_ok_def transfer_resources_ok_def example_resources_def window_ok_def
      buffer_ok_def cast_slice_def qtd_mem_ok_def aligned32_def get_addr_offset_def LOWER_4_G_def
      MAX_CONFIGURATION_DESCRIPTOR_LEN_def)

lemma example_source_ok: "configuration_source_ok example_source"
  using example_interface_ok
  by (simp add: configuration_source_ok_def example_source_def encode_source_def encode_configuration_def
      example_interface_def example_endpoint_def MAX_CONFIGURATION_DESCRIPTOR_LEN_def encode_interface_def
      encode_endpoint_def u16_to_le_bytes_def raw_descriptors_def raw_descriptor_def endpoint_body_def
      interface_body_def)

theorem get_info_reads_device_witness:
  "\<exists>dwi m'. get_info (example_controller example_device) example_loaded example_resources example_io
      = Some (Inr (dwi, m'))
    \<and> di_vendor_id (dwi_info dwi) = 0x627 \<and> di_configurations (dwi_info dwi) = [source_info example_source]"
proof -
  obtain dd where dd: "DeviceDescriptor_from_bytes example_device_bytes = Some dd"
      "dd_b_num_configurations dd = 1" "dd_id_vendor dd = 0x627"
    by (simp add: example_device_bytes_def u16_from_le_bytes_def)
  then have "presents example_device (io_transfers example_io) dd [example_source]"
    using example_source_ok by (simp add: presents_def example_device_def)
  moreover have "get_info_resources_ok ucast ucast (lce_ctrl_ds_segment (ld_ep0 example_loaded)) example_resources"
    using example_info_resources by (simp add: example_loaded_def example_ep0_def)
  ultimately obtain m' where "get_info (example_controller example_device) example_loaded example_resources example_io
      = Some (Inr (\<lparr>dwi_address = ld_address example_loaded, dwi_shared = ld_shared example_loaded,
          dwi_ctrl_ds_segment = ld_ctrl_ds_segment example_loaded, dwi_ep0 = ld_ep0 example_loaded,
          dwi_info = DeviceInfo_from_descriptor dd (map source_info [example_source])\<rparr>, m'))"
    using get_info_reads_device [OF _ example_info_conforming] by blast
  with dd show ?thesis by (auto simp: DeviceInfo_from_descriptor_def)
qed

subsection \<open>Selecting a configuration\<close>

definition is_interrupt :: "endpoint_info \<Rightarrow> bool" where
  "is_interrupt e \<longleftrightarrow> EndpointAttributes_transfer_type (ei_attributes e) = 3"

text \<open>The kind of an endpoint and, for an interrupt endpoint, the endpoint: all but the shared state.\<close>

fun endpoint_view :: "EndpointEnum \<Rightarrow> TransferType \<times> interrupt_endpoint option" where
  "endpoint_view EpControl = (TransferType_Control, None)"
| "endpoint_view EpBulk = (TransferType_Bulk, None)"
| "endpoint_view (EpInterrupt ep _) = (TransferType_Interrupt, Some ep)"
| "endpoint_view EpIsochronous = (TransferType_Isochronous, None)"

fun endpoint_arc :: "EndpointEnum \<Rightarrow> nat list" where
  "endpoint_arc (EpInterrupt _ a) = [a]"
| "endpoint_arc _ = []"

definition expected_endpoint :: "device_with_info \<Rightarrow> endpoint_info \<Rightarrow> TransferType \<times> interrupt_endpoint option" where
  "expected_endpoint d e =
     (let t = TransferType_from_u2 (EndpointAttributes_transfer_type (ei_attributes e))
      in (t, if t = TransferType_Interrupt
             then Some \<lparr>ie_device_address = dwi_address d, ie_info = e, ie_ctrl_ds_segment = dwi_ctrl_ds_segment d\<rparr>
             else None))"

lemma TransferType_from_u2_interrupt: "TransferType_from_u2 v = TransferType_Interrupt \<longleftrightarrow> v = 3"
proof -
  have "v = 0 \<or> v = 1 \<or> v = 2 \<or> v = 3"
    using unsigned_less [of v, where 'a = nat] by (cases v) (auto simp: less_Suc_eq numeral_eq_Suc)
  then show ?thesis by (auto simp: TransferType_from_u2_def)
qed

lemma configure_endpoint_effect:
  assumes "configure_endpoint d e s = (y, s')"
  shows "endpoint_view y = expected_endpoint d e"
    and "endpoint_arc y = (if is_interrupt e then [cs_fresh s] else [])"
    and "cs_fresh s' = cs_fresh s + (if is_interrupt e then 1 else 0)"
    and "ds_req_signal (cs_device s') = (if is_interrupt e then SigSignaled \<lparr>aer_endpoint_shared = cs_fresh s\<rparr>
           else ds_req_signal (cs_device s))"
proof -
  let ?t = "TransferType_from_u2 (EndpointAttributes_transfer_type (ei_attributes e))"
  have i: "is_interrupt e \<longleftrightarrow> ?t = TransferType_Interrupt"
    by (simp add: is_interrupt_def TransferType_from_u2_interrupt)
  have sig: "fst (Signal_signal v st) = SigSignaled v" for v :: add_endpoint_req and st :: "(add_endpoint_req, 'a) signal_state"
    by (cases st) simp_all
  show "endpoint_view y = expected_endpoint d e"
    and "endpoint_arc y = (if is_interrupt e then [cs_fresh s] else [])"
    and "cs_fresh s' = cs_fresh s + (if is_interrupt e then 1 else 0)"
    and "ds_req_signal (cs_device s') = (if is_interrupt e then SigSignaled \<lparr>aer_endpoint_shared = cs_fresh s\<rparr>
           else ds_req_signal (cs_device s))"
    using assms i sig [of "\<lparr>aer_endpoint_shared = cs_fresh s\<rparr>" "ds_req_signal (cs_device s)"]
    by (auto simp: configure_endpoint_def expected_endpoint_def Let_def split: TransferType.splits prod.splits)
qed

lemma map_state_append:
  "map_state f (xs @ ys) s =
     (case map_state f xs s of (us, s') \<Rightarrow> (case map_state f ys s' of (vs, s'') \<Rightarrow> (us @ vs, s'')))"
  by (induction xs arbitrary: s) (simp_all split: prod.splits)

lemma map_state_nested:
  "map_state (\<lambda>x. map_state f (g x)) xs s = (yss, s') \<Longrightarrow>
     map_state f (concat (map g xs)) s = (concat yss, s') \<and> map length yss = map (length \<circ> g) xs"
proof (induction xs arbitrary: s yss)
  case (Cons x xs)
  have len: "length (fst (map_state f zs t)) = length zs" for zs t
    by (induction zs arbitrary: t) (simp_all split: prod.splits, metis fst_conv)
  from Cons.prems obtain ys t zss where "map_state f (g x) s = (ys, t)"
      "map_state (\<lambda>x. map_state f (g x)) xs t = (zss, s')" "yss = ys # zss"
    by (auto split: prod.splits)
  with Cons.IH [of t zss] len [of "g x" s] show ?case
    by (auto simp: map_state_append)
qed simp

lemma configure_endpoints_effect:
  assumes "map_state (configure_endpoint d) es s = (ys, s')"
  shows "map endpoint_view ys = map (expected_endpoint d) es
    \<and> concat (map endpoint_arc ys) = [cs_fresh s ..< cs_fresh s'] 
    \<and> cs_fresh s' = cs_fresh s + length (filter is_interrupt es)
    \<and> ds_req_signal (cs_device s') = (if filter is_interrupt es = [] then ds_req_signal (cs_device s)
         else SigSignaled \<lparr>aer_endpoint_shared = cs_fresh s' - 1\<rparr>)"
  using assms
proof (induction es arbitrary: s ys)
  case (Cons e es)
  then obtain y t zs where y: "configure_endpoint d e s = (y, t)" "map_state (configure_endpoint d) es t = (zs, s')"
      "ys = y # zs" by (auto split: prod.splits)
  from Cons.IH [OF y(2)] configure_endpoint_effect [OF y(1)] y(3) show ?case
    by (auto simp: upt_conv_Cons Suc_le_eq)
qed simp

definition conf_endpoints :: "configuration_info \<Rightarrow> endpoint_info list" where
  "conf_endpoints c = concat (map ii_endpoints (ci_interfaces c))"

lemma configure_interfaces_effect:
  assumes "map_state (configure_interface d) is s = (iss, s')"
  shows "map (map endpoint_view) iss = map (\<lambda>i. map (expected_endpoint d) (ii_endpoints i)) is"
    and "map_state (configure_endpoint d) (concat (map ii_endpoints is)) s = (concat iss, s')"
proof -
  have "map_state (\<lambda>i. map_state (configure_endpoint d) (ii_endpoints i)) is s = (iss, s')"
    using assms by (simp add: configure_interface_def [abs_def])
  then show "map_state (configure_endpoint d) (concat (map ii_endpoints is)) s = (concat iss, s')"
    by (blast dest: map_state_nested)
  show "map (map endpoint_view) iss = map (\<lambda>i. map (expected_endpoint d) (ii_endpoints i)) is"
    using assms
  proof (induction "is" arbitrary: s iss)
    case (Cons i "is")
    then obtain es t rest where r: "configure_interface d i s = (es, t)"
        "map_state (configure_interface d) is t = (rest, s')" "iss = es # rest"
      by (auto split: prod.splits)
    from configure_endpoints_effect [OF r(1) [unfolded configure_interface_def]] Cons.IH [OF r(2)] r(3)
    show ?case by simp
  qed simp
qed

definition conf_resources_ok ::
    "(vptr \<Rightarrow> u32) \<Rightarrow> (u32 \<Rightarrow> vptr) \<Rightarrow> ctrl_ds_segment \<Rightarrow> set_configuration_resources \<Rightarrow> bool" where
  "conf_resources_ok off at seg res \<longleftrightarrow>
     (case scr_qtds res of (s, t) \<Rightarrow> qtd_mem_ok off seg s \<and> qtd_mem_ok off seg t \<and> mm_ptr s \<noteq> mm_ptr t
        \<and> at (off (mm_ptr s)) = mm_ptr s \<and> at (off (mm_ptr t)) = mm_ptr t)
     \<and> window_ok (phys_addr (scr_setup_buffer res)) 8"

lemma set_configuration_result:
  assumes "i < length (di_configurations (dwi_info d))" "di_device_class (dwi_info d) \<noteq> 9"
    and "conf_resources_ok off at (lce_ctrl_ds_segment (dwi_ep0 d)) res"
    and "c = di_configurations (dwi_info d) ! i"
  shows "\<exists>m1 iss s'. set_configuration hw d i res (m, s)
      = Inr (ConfDevice \<lparr>dcs_endpoint_0 = dwi_ep0 d, dcs_interfaces = iss\<rparr>,
             (hw m1)\<lparr>io_transfers := Suc (io_transfers m)\<rparr>, s')
    \<and> decode_request (io_bufs m1 (mm_ptr (scr_setup_buffer res))) = Some (ReqSetConfiguration (ci_number c))
    \<and> qtd_walk at (io_qtds m1) 2 (next_qtd_pointer (qha_qh (io_heap m1 (lce_qh (dwi_ep0 d)))))
        = [mm_ptr (fst (scr_qtds res)), mm_ptr (snd (scr_qtds res))]
    \<and> map (map endpoint_view) iss = map (\<lambda>x. map (expected_endpoint d) (ii_endpoints x)) (ci_interfaces c)
    \<and> distinct (concat (map endpoint_arc (concat iss)))"
proof -
  let ?m = "write_buf (mm_ptr (scr_setup_buffer res))
      (SetupPacket_bytes (SetupPacket_new_set_configuration (ci_number c))) m"
  obtain qs h where st: "transfer_no_data_start (dwi_ep0 d) (scr_setup_buffer res) (fst (scr_qtds res)) (snd (scr_qtds res))
        (io_qtds ?m, io_heap ?m) = Inr (qs, h)"
      "qtd_walk at qs 2 (next_qtd_pointer (qha_qh (h (lce_qh (dwi_ep0 d)))))
        = [mm_ptr (fst (scr_qtds res)), mm_ptr (snd (scr_qtds res))]"
    using transfer_no_data_start_chain [of "scr_setup_buffer res" off "dwi_ep0 d" "fst (scr_qtds res)"
        "snd (scr_qtds res)" at "io_qtds ?m" "io_heap ?m"] assms(3)
    by (auto simp: conf_resources_ok_def case_prod_beta)
  obtain iss s' where ms: "map_state (configure_interface d) (ci_interfaces c) s = (iss, s')"
    by fastforce
  note e = configure_interfaces_effect [OF ms]
  have "distinct (concat (map endpoint_arc (concat iss)))"
    using configure_endpoints_effect [OF e(2)] by simp
  moreover have "set_configuration hw d i res (m, s)
      = Inr (ConfDevice \<lparr>dcs_endpoint_0 = dwi_ep0 d, dcs_interfaces = iss\<rparr>,
             (hw (?m\<lparr>io_qtds := qs, io_heap := h\<rparr>))\<lparr>io_transfers := Suc (io_transfers m)\<rparr>, s')"
    using st(1) ms assms(1,2,4)
    by (simp add: set_configuration_def transfer_no_data_def await_status_def classify_configured_def
        index_list_def)
  ultimately show ?thesis
    using st(2) e(1) by (intro exI [of _ "?m\<lparr>io_qtds := qs, io_heap := h\<rparr>"] exI [of _ iss] exI [of _ s']) simp
qed

text \<open>C21: \<open>set_configuration\<close> of a device that is not a hub never panics for an index in range: the controller
  gets the two-stage chain whose setup packet selects the configuration by its number (not its
  index), and the result lists, interface by interface and in order, one endpoint of the right kind
  per endpoint descriptor; interrupt endpoints address this device and have pairwise distinct
  shared states.\<close>

theorem set_configuration_configures:
  assumes "i < length (di_configurations (dwi_info d))" "di_device_class (dwi_info d) \<noteq> 9"
    and "conf_resources_ok off at (lce_ctrl_ds_segment (dwi_ep0 d)) res"
    and "c = di_configurations (dwi_info d) ! i"
  shows "\<exists>m1 iss s'. set_configuration hw d i res (m, s)
      = Inr (ConfDevice \<lparr>dcs_endpoint_0 = dwi_ep0 d, dcs_interfaces = iss\<rparr>,
             (hw m1)\<lparr>io_transfers := Suc (io_transfers m)\<rparr>, s')
    \<and> decode_request (io_bufs m1 (mm_ptr (scr_setup_buffer res))) = Some (ReqSetConfiguration (ci_number c))
    \<and> qtd_walk at (io_qtds m1) 2 (next_qtd_pointer (qha_qh (io_heap m1 (lce_qh (dwi_ep0 d)))))
        = [mm_ptr (fst (scr_qtds res)), mm_ptr (snd (scr_qtds res))]
    \<and> map (map endpoint_view) iss = map (\<lambda>x. map (expected_endpoint d) (ii_endpoints x)) (ci_interfaces c)
    \<and> distinct (concat (map endpoint_arc (concat iss)))"
  using assms by (rule set_configuration_result)

definition example_two_endpoints :: configuration_info where
  "example_two_endpoints = example_configuration\<lparr>ci_number := 7, ci_interfaces :=
     [(is_info example_interface)\<lparr>ii_endpoints := [es_info example_endpoint, es_info example_endpoint]\<rparr>]\<rparr>"

definition example_dwi :: device_with_info where
  "example_dwi = \<lparr>dwi_address = 1, dwi_shared = 0, dwi_ctrl_ds_segment = LOWER_4_G, dwi_ep0 = example_ep0,
     dwi_info = \<lparr>di_usb_version = \<lparr>minor = 0, major = 2\<rparr>, di_device_class = 0, di_device_sub_class = 0,
       di_device_protocol = 0, di_max_packet_size = 64, di_vendor_id = 0x627, di_product_id = 1,
       di_bcd_device = 0, di_manufacturer = None, di_product = None, di_serial_number = None,
       di_configurations = [example_two_endpoints]\<rparr>\<rparr>"

definition example_conf_resources :: set_configuration_resources where
  "example_conf_resources = \<lparr>scr_qtds = (example_mem 0x100, example_mem 0x200), scr_setup_buffer = example_mem 0x400\<rparr>"

definition example_conf_state :: "nat conf_state" where
  "example_conf_state = \<lparr>cs_interrupt = \<lambda>_. InterruptEndpointSharedState_default, cs_fresh = 5,
     cs_device = DeviceSharedState_default, cs_woken = []\<rparr>"

lemma example_conf_resources_ok: "conf_resources_ok ucast ucast (lce_ctrl_ds_segment (dwi_ep0 example_dwi)) example_conf_resources"
  by (simp add: conf_resources_ok_def example_conf_resources_def window_ok_def qtd_mem_ok_def aligned32_def
      get_addr_offset_def LOWER_4_G_def example_dwi_def example_ep0_def)

theorem set_configuration_configures_witness:
  "\<exists>m1 iss s'. set_configuration (example_controller example_device) example_dwi 0 example_conf_resources (example_io, example_conf_state)
      = Inr (ConfDevice \<lparr>dcs_endpoint_0 = example_ep0, dcs_interfaces = iss\<rparr>,
             (example_controller example_device m1)\<lparr>io_transfers := 1\<rparr>, s')
    \<and> decode_request (io_bufs m1 0x400) = Some (ReqSetConfiguration 7)
    \<and> length (concat iss) = 2"
proof -
  let ?c = "di_configurations (dwi_info example_dwi) ! 0"
  have c: "?c = example_two_endpoints" by (simp add: example_dwi_def)
  have i: "0 < length (di_configurations (dwi_info example_dwi))" "di_device_class (dwi_info example_dwi) \<noteq> 9"
    by (simp_all add: example_dwi_def)
  obtain m1 iss s' where r: "set_configuration (example_controller example_device) example_dwi 0 example_conf_resources (example_io, example_conf_state)
      = Inr (ConfDevice \<lparr>dcs_endpoint_0 = dwi_ep0 example_dwi, dcs_interfaces = iss\<rparr>,
             (example_controller example_device m1)\<lparr>io_transfers := Suc (io_transfers example_io)\<rparr>, s')"
      "decode_request (io_bufs m1 (mm_ptr (scr_setup_buffer example_conf_resources))) = Some (ReqSetConfiguration (ci_number ?c))"
      "map (map endpoint_view) iss = map (\<lambda>x. map (expected_endpoint example_dwi) (ii_endpoints x)) (ci_interfaces ?c)"
    using set_configuration_configures [OF i example_conf_resources_ok refl, of "example_controller example_device"
        example_io example_conf_state] by blast
  have "length (concat iss) = 2"
    using r(3) unfolding c by (auto simp: example_two_endpoints_def dest!: map_eq_imp_length_eq)
  moreover have "dwi_ep0 example_dwi = example_ep0" "io_transfers example_io = 0"
      "mm_ptr (scr_setup_buffer example_conf_resources) = 0x400" "ci_number ?c = 7"
    by (simp_all add: c example_dwi_def example_io_def example_conf_resources_def example_mem_def
        example_two_endpoints_def)
  ultimately show ?thesis using r(1,2) by (metis One_nat_def)
qed

text \<open>Of all interrupt endpoints of the configuration only the last one is announced to the runner: each
  announcement replaces the one before it in the device's single signal, so that the runner's next poll
  finds the last endpoint, and the poll after it nothing.  The endpoints before it stay unknown to
  the runner.\<close>

theorem set_configuration_announces_last_only:
  assumes "set_configuration hw d i res (m, s) = Inr (r, m', s')" "c = di_configurations (dwi_info d) ! i"
    and "filter is_interrupt (conf_endpoints c) \<noteq> []"
  shows "cs_fresh s' = cs_fresh s + length (filter is_interrupt (conf_endpoints c))
    \<and> signal_take ww cx (ds_req_signal (cs_device s'))
        = (Some \<lparr>aer_endpoint_shared = cs_fresh s' - 1\<rparr>, SigNone)
    \<and> fst (signal_take ww cx SigNone) = (None :: add_endpoint_req option)"
proof -
  obtain iss t where ms: "map_state (configure_interface d) (ci_interfaces c) s = (iss, t)" by fastforce
  then have "t = s'" using assms(1,2) by (auto simp: set_configuration_def obind_eq_Inr_iff)
  with ms have "map_state (configure_interface d) (ci_interfaces c) s = (iss, s')" by simp
  from configure_endpoints_effect [OF configure_interfaces_effect(2) [OF this]] assms(3)
  show ?thesis by (simp add: conf_endpoints_def signal_take_def)
qed

theorem set_configuration_announces_last_only_witness:
  "\<exists>r m' s'. set_configuration id example_dwi 0 example_conf_resources (example_io, example_conf_state) = Inr (r, m', s')
    \<and> cs_fresh s' = 7
    \<and> signal_take (=) 3 (ds_req_signal (cs_device s')) = (Some \<lparr>aer_endpoint_shared = 6\<rparr>, SigNone)"
proof -
  let ?c = "di_configurations (dwi_info example_dwi) ! 0"
  have c: "?c = example_two_endpoints" by (simp add: example_dwi_def)
  have i: "0 < length (di_configurations (dwi_info example_dwi))" "di_device_class (dwi_info example_dwi) \<noteq> 9"
    by (simp_all add: example_dwi_def)
  obtain r m' s' where r: "set_configuration id example_dwi 0 example_conf_resources (example_io, example_conf_state) = Inr (r, m', s')"
    using set_configuration_result [OF i example_conf_resources_ok refl, of id example_io example_conf_state] by blast
  have n: "length (filter is_interrupt (conf_endpoints ?c)) = 2"
    unfolding c by (simp add: conf_endpoints_def example_two_endpoints_def is_interrupt_def example_endpoint_def
        bitfield_defs bits_get_def)
  then have "filter is_interrupt (conf_endpoints ?c) \<noteq> []" by auto
  from set_configuration_announces_last_only [OF r refl this, of "(=)" 3] n r show ?thesis
    by (auto simp: example_conf_state_def)
qed

end
