(* ===== verification/Hub.thy ===== *)
theory Hub
  imports Device
begin

text \<open>
  Hubs (\<^verbatim>\<open>hub.rs\<close>): reading the hub descriptor, powering the ports and resetting the connected ones.
  The state is the memory and a log of the setup packets written and the delays waited for,
  in milliseconds; the implementation of \<^verbatim>\<open>Delay\<close> is the user's, and a delay that is awaited has no other
  effect on the hub.  Assigning an address to a device behind a hub is a \<^verbatim>\<open>todo!\<close> in the source.
\<close>

subsection \<open>Requests\<close>

datatype hub_event = HubRequest bytes | HubDelay nat

type_synonym hub_state = "io_mem \<times> hub_event list"

definition hub_setup :: "mapped_mem \<Rightarrow> setup_packet \<Rightarrow> hub_state \<Rightarrow> hub_state" where
  "hub_setup setup_packet_mem packet = (\<lambda>(m, events).
     (write_buf (mm_ptr setup_packet_mem) (SetupPacket_bytes packet) m,
      events @ [HubRequest (SetupPacket_bytes packet)]))"

definition hub_transfer_in ::
    "(io_mem \<Rightarrow> io_mem) \<Rightarrow> loaded_control_endpoint \<Rightarrow> mapped_mem \<Rightarrow> mapped_slice \<Rightarrow> mapped_mem list
      \<Rightarrow> hub_state \<Rightarrow> (u16 \<times> hub_state) outcome" where
  "hub_transfer_in hw ep setup_packet_mem buffer qtds = (\<lambda>(m, events).
     obind (transfer_in hw ep setup_packet_mem [buffer] qtds m) (\<lambda>(n, m'). Inr (n, m', events)))"

text \<open>\<^verbatim>\<open>qtds_mem[0..2].try_into().unwrap()\<close> of an array of three.\<close>

definition hub_transfer_no_data ::
    "(io_mem \<Rightarrow> io_mem) \<Rightarrow> loaded_control_endpoint \<Rightarrow> mapped_mem \<Rightarrow> mapped_mem list
      \<Rightarrow> hub_state \<Rightarrow> hub_state outcome" where
  "hub_transfer_no_data hw ep setup_packet_mem qtds = (\<lambda>(m, events).
     obind (transfer_no_data hw ep setup_packet_mem (qtds ! 0, qtds ! 1) m) (\<lambda>m'. Inr (m', events)))"

definition hub_delay :: "nat \<Rightarrow> hub_state \<Rightarrow> hub_state" where
  "hub_delay ms = (\<lambda>(m, events). (m, events @ [HubDelay ms]))"

definition get_port_status ::
    "(io_mem \<Rightarrow> io_mem) \<Rightarrow> loaded_control_endpoint \<Rightarrow> u8 \<Rightarrow> mapped_mem list \<Rightarrow> mapped_mem \<Rightarrow> mapped_mem
      \<Rightarrow> hub_state \<Rightarrow> (port_status_data \<times> hub_state) outcome" where
  "get_port_status hw ep port_number qtds_mem setup_packet_mem buffer_mem s =
     obind (hub_transfer_in hw ep setup_packet_mem (cast_slice 4 buffer_mem) qtds_mem
              (hub_setup setup_packet_mem (SetupPacket_new_get_port_status port_number) s)) (\<lambda>(len, m, events).
     if len \<noteq> 4 then Inl AssertFailed
     else obind (slice_range (io_bufs m (mm_ptr buffer_mem)) 0 4) (\<lambda>port_status.
          Inr (PortStatusData_from_bytes (port_status ! 0) (port_status ! 1) (port_status ! 2) (port_status ! 3),
               m, events)))"

subsection \<open>Ports\<close>

definition hub_reset_port ::
    "(io_mem \<Rightarrow> io_mem) \<Rightarrow> loaded_control_endpoint \<Rightarrow> u8 \<Rightarrow> mapped_mem list \<Rightarrow> mapped_mem \<Rightarrow> mapped_mem
      \<Rightarrow> hub_state \<Rightarrow> hub_state outcome" where
  "hub_reset_port hw ep port_number qtds_mem setup_packet_mem buffer_mem s =
     obind (hub_transfer_no_data hw ep setup_packet_mem qtds_mem
              (hub_setup setup_packet_mem (SetupPacket_new_set_feature_port_reset port_number) s)) (\<lambda>s1.
     obind (get_port_status hw ep port_number qtds_mem setup_packet_mem buffer_mem (hub_delay 50 s1))
       (\<lambda>(port_status_data, s2).
     case attached_device_speed (w_port_status port_status_data) of
       Some speed \<Rightarrow> Inl (NotImplemented ''assign addr'')
     | None \<Rightarrow> Inr s2))"

definition hub_port ::
    "(io_mem \<Rightarrow> io_mem) \<Rightarrow> loaded_control_endpoint \<Rightarrow> hub_descriptor \<Rightarrow> u8 \<Rightarrow> mapped_mem list \<Rightarrow> mapped_mem
      \<Rightarrow> mapped_mem \<Rightarrow> hub_state \<Rightarrow> hub_state outcome" where
  "hub_port hw ep hub_descriptor port_number qtds_mem setup_packet_mem buffer_mem s =
     obind (hub_transfer_no_data hw ep setup_packet_mem qtds_mem
              (hub_setup setup_packet_mem (SetupPacket_new_set_feature_port_power port_number) s)) (\<lambda>s1.
     obind (get_port_status hw ep port_number qtds_mem setup_packet_mem buffer_mem
              (hub_delay (2 * unat (hd_b_pwr_on_2_pwr_good (fixed_size_fields hub_descriptor))) s1))
       (\<lambda>(port_status_data, s2).
     if PortStatus_current_connect_status (w_port_status port_status_data)
     then hub_reset_port hw ep port_number qtds_mem setup_packet_mem buffer_mem s2
     else Inr s2))"

text \<open>The loop \<^verbatim>\<open>for i in 0..b_nbr_ports\<close>; \<open>k\<close> iterations are left.\<close>

primrec hub_port_loop ::
    "(io_mem \<Rightarrow> io_mem) \<Rightarrow> loaded_control_endpoint \<Rightarrow> hub_descriptor \<Rightarrow> nat \<Rightarrow> u8 \<Rightarrow> mapped_mem list
      \<Rightarrow> mapped_mem \<Rightarrow> mapped_mem \<Rightarrow> hub_state \<Rightarrow> hub_state outcome" where
  "hub_port_loop hw ep desc 0 i qtds sp buf s = Inr s"
| "hub_port_loop hw ep desc (Suc k) i qtds sp buf s =
     obind (checked_add 1 i) (\<lambda>port_number.
     obind (hub_port hw ep desc port_number qtds sp buf s) (\<lambda>s'.
     hub_port_loop hw ep desc k (i + 1) qtds sp buf s'))"

definition Hub_get_info ::
    "(io_mem \<Rightarrow> io_mem) \<Rightarrow> hub \<Rightarrow> mapped_mem list \<Rightarrow> mapped_mem \<Rightarrow> mapped_mem \<Rightarrow> hub_state \<Rightarrow> hub_state outcome" where
  "Hub_get_info hw h qtds_mem setup_packet_mem buffer_mem s =
     obind (hub_transfer_in hw (hub_endpoint_0 h) setup_packet_mem (cast_slice size_of_HubDescriptor buffer_mem)
              qtds_mem (hub_setup setup_packet_mem
                (SetupPacket_new_get_hub_descriptor (of_nat size_of_HubDescriptor)) s)) (\<lambda>(descriptor_len, m, events).
     obind (slice_range (io_bufs m (mm_ptr buffer_mem)) 0 (unat descriptor_len)) (\<lambda>descriptor.
     obind (HubDescriptor_from_bytes descriptor) (\<lambda>hub_descriptor.
     hub_port_loop hw (hub_endpoint_0 h) hub_descriptor
       (unat (hd_b_nbr_ports (fixed_size_fields hub_descriptor))) 0 qtds_mem setup_packet_mem buffer_mem
       (m, events))))"

subsection \<open>What a hub is asked\<close>

text \<open>A hub with the descriptor \<open>desc\<close> whose port \<open>p\<close> has the status word \<open>st p\<close>.\<close>

definition hub_answers ::
    "(nat \<Rightarrow> usb_request \<Rightarrow> bytes) \<Rightarrow> hub_descriptor \<Rightarrow> (u8 \<Rightarrow> port_status) \<Rightarrow> bool" where
  "hub_answers dev desc st \<longleftrightarrow>
     (\<forall>n. HubDescriptor_from_bytes (dev n (ReqGetDescriptor Class 0x29 0 39)) = Inr desc
        \<and> length (dev n (ReqGetDescriptor Class 0x29 0 39)) \<le> 39)
     \<and> (\<forall>n p. \<exists>c0 c1. dev n (ReqPortStatus (ucast p) 4) = u16_to_le_bytes (st p) @ [c0, c1])"

definition port_script :: "hub_descriptor \<Rightarrow> (u8 \<Rightarrow> port_status) \<Rightarrow> u8 \<Rightarrow> hub_event list" where
  "port_script desc st p =
     [HubRequest (SetupPacket_bytes (SetupPacket_new_set_feature_port_power p)),
      HubDelay (2 * unat (hd_b_pwr_on_2_pwr_good (fixed_size_fields desc))),
      HubRequest (SetupPacket_bytes (SetupPacket_new_get_port_status p))]
     @ (if PortStatus_current_connect_status (st p)
        then [HubRequest (SetupPacket_bytes (SetupPacket_new_set_feature_port_reset p)),
              HubDelay 50,
              HubRequest (SetupPacket_bytes (SetupPacket_new_get_port_status p))]
        else [])"

text \<open>Memory and controller for the two sizes of buffer that are used.\<close>

definition hub_setting ::
    "(nat \<Rightarrow> usb_request \<Rightarrow> bytes) \<Rightarrow> (vptr \<Rightarrow> u32) \<Rightarrow> (u32 \<Rightarrow> vptr) \<Rightarrow> loaded_control_endpoint \<Rightarrow> mapped_mem list
      \<Rightarrow> mapped_mem \<Rightarrow> mapped_mem \<Rightarrow> (io_mem \<Rightarrow> io_mem) \<Rightarrow> bool" where
  "hub_setting dev off at ep qtds sp buf hw \<longleftrightarrow>
     transfer_resources_ok off at (lce_ctrl_ds_segment ep) sp [cast_slice 39 buf] qtds
     \<and> conforming dev off at ep sp (cast_slice 39 buf) qtds hw
     \<and> conforming dev off at ep sp (cast_slice 4 buf) qtds hw"

lemma hub_setting_small:
  assumes "hub_setting dev off at ep qtds sp buf hw"
  shows "transfer_resources_ok off at (lce_ctrl_ds_segment ep) sp [cast_slice 4 buf] qtds"
  using assms by (auto simp: hub_setting_def transfer_resources_ok_def buffer_ok_def window_ok_def cast_slice_def)

lemma hub_transfer_no_data_ok:
  assumes "hub_setting dev off at ep qtds sp buf hw"
  shows "\<exists>m'. hub_transfer_no_data hw ep sp qtds (m, ev) = Inr (m', ev)"
proof -
  note r = assms [unfolded hub_setting_def transfer_resources_ok_def]
  then obtain a b c where q: "qtds = [a, b, c]" by (auto simp: length_Suc_conv numeral_eq_Suc)
  from r have "window_ok (phys_addr sp) 8" "qtd_mem_ok off (lce_ctrl_ds_segment ep) a"
      "qtd_mem_ok off (lce_ctrl_ds_segment ep) b" "mm_ptr a \<noteq> mm_ptr b"
      "at (off (mm_ptr a)) = mm_ptr a" "at (off (mm_ptr b)) = mm_ptr b"
    by (auto simp: q)
  from transfer_no_data_start_chain [OF this, of "io_qtds m" "io_heap m"] show ?thesis
    by (auto simp: hub_transfer_no_data_def transfer_no_data_def q)
qed

lemma get_port_status_ok:
  assumes "hub_setting dev off at ep qtds sp buf hw" "hub_answers dev desc st"
  shows "\<exists>d m'. get_port_status hw ep p qtds sp buf (m, ev)
      = Inr (d, m', ev @ [HubRequest (SetupPacket_bytes (SetupPacket_new_get_port_status p))])
    \<and> w_port_status d = st p"
proof -
  let ?m = "write_buf (mm_ptr sp) (SetupPacket_bytes (SetupPacket_new_get_port_status p)) m"
  obtain c0 c1 where d: "dev (io_transfers m) (ReqPortStatus (ucast p) 4) = u16_to_le_bytes (st p) @ [c0, c1]"
    using assms(2) unfolding hub_answers_def by blast
  obtain m' rest where "transfer_in hw ep sp [cast_slice 4 buf] qtds ?m = Inr (4, m')"
      "io_bufs m' (mm_ptr buf) = (u16_to_le_bytes (st p) @ [c0, c1]) @ rest"
    using transfer_in_answers [OF hub_setting_small [OF assms(1)], of dev hw ?m "ReqPortStatus (ucast p) 4"]
      assms(1) d by (auto simp: hub_setting_def u16_to_le_bytes_def cast_slice_def)
  then show ?thesis
    by (simp add: get_port_status_def hub_transfer_in_def hub_setup_def slice_range_def u16_to_le_bytes_def
        PortStatusData_from_bytes_def)
qed

lemma hub_port_ok:
  assumes "hub_setting dev off at ep qtds sp buf hw" "hub_answers dev desc st"
  shows "if PortStatus_current_connect_status (st p) \<and> PortStatus_port_enable (st p)
     then hub_port hw ep desc p qtds sp buf (m, ev) = Inl (NotImplemented ''assign addr'')
     else \<exists>m'. hub_port hw ep desc p qtds sp buf (m, ev) = Inr (m', ev @ port_script desc st p)"
proof -
  let ?ev1 = "ev @ [HubRequest (SetupPacket_bytes (SetupPacket_new_set_feature_port_power p))]"
  let ?ev2 = "?ev1 @ [HubDelay (2 * unat (hd_b_pwr_on_2_pwr_good (fixed_size_fields desc)))]"
  let ?ev3 = "?ev2 @ [HubRequest (SetupPacket_bytes (SetupPacket_new_get_port_status p))]"
  let ?ev4 = "?ev3 @ [HubRequest (SetupPacket_bytes (SetupPacket_new_set_feature_port_reset p))]"
  obtain m1 where m1: "hub_transfer_no_data hw ep sp qtds
      (hub_setup sp (SetupPacket_new_set_feature_port_power p) (m, ev)) = Inr (m1, ?ev1)"
    using hub_transfer_no_data_ok [OF assms(1)] by (auto simp: hub_setup_def)
  obtain d m2 where m2: "get_port_status hw ep p qtds sp buf (m1, ?ev2) = Inr (d, m2, ?ev3)" "w_port_status d = st p"
    using get_port_status_ok [OF assms, of p m1 ?ev2] by auto
  obtain m3 where m3: "hub_transfer_no_data hw ep sp qtds
      (hub_setup sp (SetupPacket_new_set_feature_port_reset p) (m2, ?ev3)) = Inr (m3, ?ev4)"
    using hub_transfer_no_data_ok [OF assms(1)] by (auto simp: hub_setup_def)
  obtain e m4 where m4: "get_port_status hw ep p qtds sp buf (m3, ?ev4 @ [HubDelay 50])
        = Inr (e, m4, (?ev4 @ [HubDelay 50]) @ [HubRequest (SetupPacket_bytes (SetupPacket_new_get_port_status p))])"
      "w_port_status e = st p"
    using get_port_status_ok [OF assms, of p m3 "?ev4 @ [HubDelay 50]"] by auto
  show ?thesis
    using m1 m2 m3 m4
    by (simp add: hub_port_def hub_reset_port_def hub_delay_def port_script_def attached_device_speed_def)
qed

definition port_attached :: "(u8 \<Rightarrow> port_status) \<Rightarrow> u8 \<Rightarrow> bool" where
  "port_attached st p \<longleftrightarrow> PortStatus_current_connect_status (st p) \<and> PortStatus_port_enable (st p)"

lemma hub_port_loop_ok:
  assumes "hub_setting dev off at ep qtds sp buf hw" "hub_answers dev desc st" "i + k < 256"
  shows "if \<exists>j \<in> {Suc i..i + k}. port_attached st (of_nat j)
     then hub_port_loop hw ep desc k (of_nat i) qtds sp buf (m, ev) = Inl (NotImplemented ''assign addr'')
     else \<exists>m'. hub_port_loop hw ep desc k (of_nat i) qtds sp buf (m, ev)
            = Inr (m', ev @ concat (map (\<lambda>j. port_script desc st (of_nat j)) [Suc i..<Suc (i + k)]))"
  using assms(3)
proof (induction k arbitrary: i m ev)
  case 0
  then show ?case by simp
next
  case (Suc k)
  let ?p = "of_nat (Suc i) :: u8"
  have add: "checked_add 1 (of_nat i) = Inr ?p"
    using Suc.prems by (simp add: checked_add_def unat_of_nat take_bit_nat_eq_self)
  have range: "{Suc i..i + Suc k} = insert (Suc i) {Suc (Suc i)..Suc i + k}" by auto
  note port = hub_port_ok [OF assms(1,2), of ?p m ev, folded port_attached_def]
  show ?case
  proof (cases "port_attached st ?p")
    case True
    then have "hub_port_loop hw ep desc (Suc k) (of_nat i) qtds sp buf (m, ev) = Inl (NotImplemented ''assign addr'')"
      using port add by simp
    moreover have "\<exists>j \<in> {Suc i..i + Suc k}. port_attached st (of_nat j)"
      using True unfolding range by blast
    ultimately show ?thesis by simp
  next
    case False
    then obtain m' where m': "hub_port hw ep desc ?p qtds sp buf (m, ev) = Inr (m', ev @ port_script desc st ?p)"
      using port by auto
    have step: "hub_port_loop hw ep desc (Suc k) (of_nat i) qtds sp buf (m, ev)
        = hub_port_loop hw ep desc k (of_nat (Suc i)) qtds sp buf (m', ev @ port_script desc st ?p)"
      using m' add by (simp add: add.commute)
    have upt: "[Suc i..<Suc (i + Suc k)] = Suc i # [Suc (Suc i)..<Suc (Suc i + k)]"
      by (subst upt_conv_Cons) simp_all
    have "(\<exists>j \<in> {Suc i..i + Suc k}. port_attached st (of_nat j))
        \<longleftrightarrow> (\<exists>j \<in> {Suc (Suc i)..Suc i + k}. port_attached st (of_nat j))"
      using False unfolding range by blast
    with Suc.IH [of "Suc i" m' "ev @ port_script desc st ?p"] Suc.prems show ?thesis
      unfolding step upt
      by (cases "\<exists>j \<in> {Suc (Suc i)..Suc i + k}. port_attached st (of_nat j)") (simp_all del: of_nat_Suc upt_Suc)
  qed
qed


definition example_hub :: hub where
  "example_hub = \<lparr>hub_endpoint_0 = example_ep0,
     hub_interrupt_endpoint = \<lparr>ie_device_address = 1, ie_info = es_info example_endpoint, ie_ctrl_ds_segment = LOWER_4_G\<rparr>,
     hub_interrupt_shared = 0\<rparr>"

definition example_hub_descriptor :: bytes where
  "example_hub_descriptor = [9, 0x29, 2, 0, 0, 50, 0, 0, 0xFF]"

text \<open>A hub whose first port has a device that does not become enabled and whose second port is empty.\<close>

definition example_hub_device :: "nat \<Rightarrow> usb_request \<Rightarrow> bytes" where
  "example_hub_device n r =
     (case r of
        ReqPortStatus p _ \<Rightarrow> u16_to_le_bytes (if p = 1 then 1 else 0) @ [0, 0]
      | _ \<Rightarrow> example_hub_descriptor)"


end
