(* ===== verification/Irq_Handler.thy ===== *)
theory Irq_Handler
  imports Registers Signals
begin

text \<open>
  The interrupt handler (\<^verbatim>\<open>irq_handler.rs\<close>) and the flags it shares with the runner.  The handler
  acknowledges in USBSTS what it has seen and leaves a flag for each kind of event; the runner's
  poll takes the flags (\<open>take_irq_flags\<close>).  \<open>usb_sts_hw_write\<close> is how the hardware takes a write to
  USBSTS: the six event bits are cleared by a 1.  \<open>irq_step\<close> interleaves the accesses of one run
  of the handler with one poll of the runner.
\<close>

record 'a irq_shared =
  new_usb_int :: bool
  new_usb_err_int :: bool
  new_port_change_detect :: bool
  new_host_system_error :: bool
  new_async_advance :: bool
  runner_waker :: 'a

definition IrqHandlerSharedState_default :: "('w, 'a) atomic_waker \<Rightarrow> 'a irq_shared" where
  "IrqHandlerSharedState_default aw =
     \<lparr>new_usb_int = False, new_usb_err_int = False, new_port_change_detect = False,
      new_host_system_error = False, new_async_advance = False, runner_waker = aw_new aw\<rparr>"

text \<open>The flags that one run of the handler stores, and the value it writes back.\<close>

definition irq_store :: "usb_sts_reg \<Rightarrow> 'a irq_shared \<Rightarrow> 'a irq_shared" where
  "irq_store sts sh =
     sh\<lparr>new_usb_int := new_usb_int sh \<or> UsbStsReg_usb_int sts,
        new_usb_err_int := new_usb_err_int sh \<or> UsbStsReg_usb_err_int sts,
        new_port_change_detect := new_port_change_detect sh \<or> UsbStsReg_port_change_detect sts,
        new_host_system_error := new_host_system_error sh \<or> UsbStsReg_host_system_error sts,
        new_async_advance := new_async_advance sh \<or> UsbStsReg_interrupt_on_async_advance sts\<rparr>"

definition irq_ack :: "usb_sts_reg \<Rightarrow> usb_sts_reg" where
  "irq_ack sts =
     (let v0 = 0;
          v1 = (if UsbStsReg_usb_int sts then UsbStsReg_with_usb_int True v0 else v0);
          v2 = (if UsbStsReg_usb_err_int sts then UsbStsReg_with_usb_err_int True v1 else v1);
          v3 = (if UsbStsReg_port_change_detect sts then UsbStsReg_with_port_change_detect True v2 else v2);
          v4 = (if UsbStsReg_frame_list_rollover sts then UsbStsReg_with_frame_list_rollover True v3 else v3);
          v5 = (if UsbStsReg_host_system_error sts then UsbStsReg_with_host_system_error True v4 else v4)
      in if UsbStsReg_interrupt_on_async_advance sts
         then UsbStsReg_with_interrupt_on_async_advance True v5 else v5)"

text \<open>\<^verbatim>\<open>handle_irq\<close> without interference: the new shared state, the value written, the waker called.\<close>

definition handle_irq ::
    "('w, 'a) atomic_waker \<Rightarrow> usb_sts_reg \<Rightarrow> 'a irq_shared
      \<Rightarrow> 'a irq_shared \<times> usb_sts_reg \<times> 'w option" where
  "handle_irq aw sts sh =
     (case aw_wake aw (runner_waker sh) of (woken, wk) \<Rightarrow>
        (irq_store sts (sh\<lparr>runner_waker := wk\<rparr>), irq_ack sts, woken))"

text \<open>The swaps at the start of the runner's poll; the host system error flag is not among them.\<close>

definition take_irq_flags :: "'a irq_shared \<Rightarrow> (bool \<times> bool \<times> bool \<times> bool) \<times> 'a irq_shared" where
  "take_irq_flags sh =
     ((new_usb_int sh, new_usb_err_int sh, new_async_advance sh, new_port_change_detect sh),
      sh\<lparr>new_usb_int := False, new_usb_err_int := False, new_async_advance := False,
         new_port_change_detect := False\<rparr>)"

subsection \<open>Acknowledging events\<close>

definition usb_sts_hw_write :: "usb_sts_reg \<Rightarrow> usb_sts_reg \<Rightarrow> usb_sts_reg" where
  "usb_sts_hw_write v r = r AND NOT (v AND mask 6)"

lemma bit_irq_ack: "bit (irq_ack sts) i \<longleftrightarrow> i < 6 \<and> bit sts i"
proof (cases "i < 6")
  case True
  then have "i = 0 \<or> i = 1 \<or> i = 2 \<or> i = 3 \<or> i = 4 \<or> i = 5" by linarith
  then show ?thesis
    by (elim disjE) (simp_all add: irq_ack_def Let_def bitfield_defs flag_get_def bit_flag_set)
next
  case False
  then show ?thesis
    by (auto simp: irq_ack_def Let_def bitfield_defs bit_flag_set)
qed


subsection \<open>The handler and the runner's poll\<close>

datatype irq_pc = IStart | IWoken | IRead usb_sts_reg | IStored usb_sts_reg | IDone

datatype poll_pc = PStart | PRegistered | PPending

record 'a irq_sys =
  isys_shared :: "'a irq_shared"
  isys_sts :: usb_sts_reg
  irq_at :: irq_pc
  poll_at :: poll_pc
  runner_woken :: bool

definition irq_init :: "('w, 'a) atomic_waker \<Rightarrow> usb_sts_reg \<Rightarrow> 'a irq_sys" where
  "irq_init aw sts =
     \<lparr>isys_shared = IrqHandlerSharedState_default aw, isys_sts = sts, irq_at = IStart,
      poll_at = PStart, runner_woken = False\<rparr>"

inductive irq_step :: "('w, 'a) atomic_waker \<Rightarrow> 'w \<Rightarrow> 'a irq_sys \<Rightarrow> 'a irq_sys \<Rightarrow> bool" for aw cx where
  i_wake: "irq_at s = IStart \<Longrightarrow> aw_wake aw (runner_waker (isys_shared s)) = (woken, wk) \<Longrightarrow>
     irq_step aw cx s (s\<lparr>isys_shared := (isys_shared s)\<lparr>runner_waker := wk\<rparr>, irq_at := IWoken,
       runner_woken := runner_woken s \<or> woken = Some cx\<rparr>)"
| i_read: "irq_at s = IWoken \<Longrightarrow> irq_step aw cx s (s\<lparr>irq_at := IRead (isys_sts s)\<rparr>)"
| i_store: "irq_at s = IRead r \<Longrightarrow>
     irq_step aw cx s (s\<lparr>isys_shared := irq_store r (isys_shared s), irq_at := IStored r\<rparr>)"
| i_ack: "irq_at s = IStored r \<Longrightarrow>
     irq_step aw cx s (s\<lparr>isys_sts := usb_sts_hw_write (irq_ack r) (isys_sts s), irq_at := IDone\<rparr>)"
| p_register: "poll_at s = PStart \<Longrightarrow>
     irq_step aw cx s (s\<lparr>isys_shared := (isys_shared s)\<lparr>runner_waker := aw_register aw cx (runner_waker (isys_shared s))\<rparr>,
       poll_at := PRegistered, runner_woken := False\<rparr>)"
| p_take: "poll_at s = PRegistered \<Longrightarrow>
     irq_step aw cx s (s\<lparr>isys_shared := snd (take_irq_flags (isys_shared s)), poll_at := PPending\<rparr>)"

inductive irq_reachable :: "('w, 'a) atomic_waker \<Rightarrow> 'w \<Rightarrow> usb_sts_reg \<Rightarrow> 'a irq_sys \<Rightarrow> bool" for aw cx sts where
  irq_start: "irq_reachable aw cx sts (irq_init aw sts)"
| irq_next: "irq_reachable aw cx sts s \<Longrightarrow> irq_step aw cx s t \<Longrightarrow> irq_reachable aw cx sts t"

text \<open>An interrupt that is handled as a whole after the runner's poll wakes the runner, and the flags
  it stores are the ones the next poll takes.\<close>

theorem irq_after_poll_wakes_runner:
  assumes "atomic_waker_ok aw"
  shows "case handle_irq aw sts (snd (take_irq_flags
             (sh\<lparr>runner_waker := aw_register aw cx (runner_waker sh)\<rparr>))) of (sh', v, woken) \<Rightarrow>
     woken = Some cx
     \<and> fst (take_irq_flags sh') = (bit sts 0, bit sts 1, bit sts 5, bit sts 2)"
  using assms
  by (auto simp: handle_irq_def take_irq_flags_def irq_store_def atomic_waker_ok_def bitfield_defs
      flag_get_def split: prod.split) (metis fst_conv option.inject)

theorem irq_after_poll_wakes_runner_witness:
  "case handle_irq option_waker 1 (snd (take_irq_flags
       ((IrqHandlerSharedState_default option_waker)\<lparr>runner_waker := Some 3\<rparr>))) of (sh', v, woken) \<Rightarrow>
     woken = Some 3 \<and> fst (take_irq_flags sh') = (True, False, False, False)"
proof -
  have "atomic_waker_ok option_waker" by (simp add: atomic_waker_ok_def option_waker_def)
  from irq_after_poll_wakes_runner [OF this, where sts = 1
      and sh = "IrqHandlerSharedState_default option_waker" and cx = 3]
  show ?thesis by (simp add: option_waker_def case_prod_beta)
qed

text \<open>C33: When the handler and the poll overlap, an event can be left behind: the handler calls the waker
  before it stores the flags, so a poll of the runner that runs in between finds no flag, and the
  handler then stores the flag, acknowledges the event and returns without waking anyone.\<close>

theorem irq_wake_before_store_loses_event:
  "\<exists>s. irq_reachable aw cx 1 s \<and> irq_at s = IDone \<and> poll_at s = PPending \<and> \<not> runner_woken s
     \<and> new_usb_int (isys_shared s) \<and> isys_sts s = 0"
proof -
  let ?s = "irq_init aw 1"
  have s: "irq_reachable aw cx 1 ?s" by (rule irq_start)
  obtain woken wk where w: "aw_wake aw (runner_waker (isys_shared ?s)) = (woken, wk)" by fastforce
  have "irq_at ?s = IStart" by (simp add: irq_init_def)
  from irq_next [OF s irq_step.i_wake [OF this w]]
  obtain s1 where s1: "irq_reachable aw cx 1 s1" "irq_at s1 = IWoken" "poll_at s1 = PStart" "isys_sts s1 = 1"
    by (auto simp: irq_init_def)
  from irq_next [OF s1(1) irq_step.p_register [OF s1(3)]] s1
  obtain s2 where s2: "irq_reachable aw cx 1 s2" "irq_at s2 = IWoken" "poll_at s2 = PRegistered"
      "isys_sts s2 = 1" "\<not> runner_woken s2" by auto
  from irq_next [OF s2(1) irq_step.p_take [OF s2(3)]] s2
  obtain s3 where s3: "irq_reachable aw cx 1 s3" "irq_at s3 = IWoken" "poll_at s3 = PPending"
      "isys_sts s3 = 1" "\<not> runner_woken s3" by auto
  from irq_next [OF s3(1) irq_step.i_read [OF s3(2)]] s3
  obtain s4 where s4: "irq_reachable aw cx 1 s4" "irq_at s4 = IRead 1" "poll_at s4 = PPending"
      "isys_sts s4 = 1" "\<not> runner_woken s4" by auto
  from irq_next [OF s4(1) irq_step.i_store [OF s4(2)]] s4
  obtain s5 where s5: "irq_reachable aw cx 1 s5" "irq_at s5 = IStored 1" "poll_at s5 = PPending"
      "isys_sts s5 = 1" "\<not> runner_woken s5" "new_usb_int (isys_shared s5)"
    by (auto simp: irq_store_def bitfield_defs flag_get_def)
  have "usb_sts_hw_write (irq_ack 1) 1 = 0"
    by (rule bit_word_eqI) (auto simp: usb_sts_hw_write_def bit_irq_ack bit_simps)
  with irq_next [OF s5(1) irq_step.i_ack [OF s5(2)]] s5 show ?thesis
    by (intro exI [of _ "s5\<lparr>isys_sts := usb_sts_hw_write (irq_ack 1) (isys_sts s5), irq_at := IDone\<rparr>"]) simp
qed

end
