(* ===== verification/Address_Allocation.thy ===== *)
theory Address_Allocation
  imports Ehci_Prelude
begin

text \<open>
  The allocator of USB device addresses (\<^verbatim>\<open>address_allocator.rs\<close>): a 128-bit set whose bit \<open>a\<close>
  says that address \<open>a\<close> is taken.  The locale \<open>address_pool\<close> is what the runner relies on; it is
  interpreted on the bit set below.
\<close>

subsection \<open>The allocator\<close>

record address_allocator =
  allocated_addresses :: u128

definition AddressAllocator_default :: address_allocator where
  "AddressAllocator_default = \<lparr>allocated_addresses = push_bit 0 1\<rparr>"

text \<open>\<^verbatim>\<open>u128::trailing_ones\<close>: between 0 and 128.\<close>

definition trailing_ones :: "u128 \<Rightarrow> nat" where
  "trailing_ones w = length (takeWhile (\<lambda>i. bit w i) [0..<128])"

definition allocate_addr :: "address_allocator \<Rightarrow> u7 option \<times> address_allocator" where
  "allocate_addr s =
     (let addr = trailing_ones (allocated_addresses s)
      in if addr \<le> 127
         then (Some (of_nat addr),
               s\<lparr>allocated_addresses := allocated_addresses s OR push_bit addr 1\<rparr>)
         else (None, s))"

definition deallocate_addr :: "u7 \<Rightarrow> address_allocator \<Rightarrow> address_allocator" where
  "deallocate_addr addr s =
     s\<lparr>allocated_addresses := allocated_addresses s AND NOT (push_bit (unat addr) 1)\<rparr>"

text \<open>The addresses that are taken.\<close>

definition used_addrs :: "address_allocator \<Rightarrow> u7 set" where
  "used_addrs s = {a. bit (allocated_addresses s) (unat a)}"

subsection \<open>The contract\<close>

text \<open>Allocating \<open>n\<close> times in a row, until the pool is exhausted.\<close>

primrec alloc_many :: "('s \<Rightarrow> u7 option \<times> 's) \<Rightarrow> nat \<Rightarrow> 's \<Rightarrow> u7 list \<times> 's" where
  "alloc_many alloc 0 s = ([], s)"
| "alloc_many alloc (Suc n) s =
     (case alloc s of
        (None, s') \<Rightarrow> ([], s')
      | (Some a, s') \<Rightarrow> (case alloc_many alloc n s' of (as, t) \<Rightarrow> (a # as, t)))"

locale address_pool =
  fixes alloc :: "'s \<Rightarrow> u7 option \<times> 's"
    and dealloc :: "u7 \<Rightarrow> 's \<Rightarrow> 's"
    and used :: "'s \<Rightarrow> u7 set"
  assumes alloc_Some: "alloc s = (Some a, s') \<Longrightarrow> a \<notin> used s \<and> used s' = insert a (used s)"
    and alloc_None: "alloc s = (None, s') \<Longrightarrow> used s = UNIV \<and> s' = s"
    and used_dealloc: "used (dealloc a s) = used s - {a}"
begin

lemma alloc_succeeds_iff: "(\<exists>a s'. alloc s = (Some a, s')) \<longleftrightarrow> used s \<noteq> UNIV"
proof (cases "alloc s")
  case (Pair r s')
  then show ?thesis
    using alloc_Some [of s _ s'] alloc_None [of s s'] by (cases r) auto
qed

lemma alloc_many_fresh:
  "alloc_many alloc n s = (as, t) \<Longrightarrow>
     distinct as \<and> set as \<inter> used s = {} \<and> used t = used s \<union> set as"
proof (induction n arbitrary: s as)
  case 0
  then show ?case by simp
next
  case (Suc n)
  show ?case
  proof (cases "alloc s")
    case (Pair r s')
    show ?thesis
    proof (cases r)
      case None
      with Suc.prems Pair alloc_None [of s s'] show ?thesis by auto
    next
      case (Some a)
      with Suc.prems Pair obtain as' where as': "alloc_many alloc n s' = (as', t)" "as = a # as'"
        by (auto split: prod.splits)
      have "a \<notin> used s" "used s' = insert a (used s)"
        using alloc_Some [of s a s'] Pair Some by auto
      with Suc.IH [OF as'(1)] as'(2) show ?thesis by auto
    qed
  qed
qed

lemma realloc_after_dealloc:
  "alloc (dealloc a s) = (Some b, t) \<Longrightarrow> used s = UNIV \<Longrightarrow> b = a \<and> used t = UNIV"
  using alloc_Some [of "dealloc a s" b t] by (auto simp: used_dealloc)

end

subsection \<open>The bit set keeps the contract\<close>

lemma trailing_ones_le: "trailing_ones w \<le> 128"
  unfolding trailing_ones_def using length_takeWhile_le [of "bit w" "[0..<128]"] by simp

lemma bit_below_trailing_ones: "i < trailing_ones w \<Longrightarrow> bit w i"
proof -
  assume i: "i < trailing_ones w"
  then have "i < 128" using trailing_ones_le [of w] by simp
  with i have "takeWhile (bit w) [0..<128] ! i = i"
    by (simp add: trailing_ones_def takeWhile_nth)
  with i show "bit w i"
    by (metis nth_mem set_takeWhileD trailing_ones_def)
qed

lemma not_bit_trailing_ones: "trailing_ones w < 128 \<Longrightarrow> \<not> bit w (trailing_ones w)"
  using nth_length_takeWhile [of "bit w" "[0..<128]"]
  by (simp add: trailing_ones_def)

lemma trailing_ones_eqI:
  assumes "\<And>i. i < n \<Longrightarrow> bit w i" and "n < 128 \<Longrightarrow> \<not> bit w n" and "n \<le> 128"
  shows "trailing_ones w = n"
proof (rule ccontr)
  assume "trailing_ones w \<noteq> n"
  then consider "trailing_ones w < n" | "n < trailing_ones w" by linarith
  then show False
  proof cases
    case 1
    with assms show False using not_bit_trailing_ones [of w] by auto
  next
    case 2
    with assms show False using bit_below_trailing_ones [of n w] trailing_ones_le [of w] by auto
  qed
qed

lemma bit_set_addr:
  "bit (w OR push_bit n 1 :: u128) i \<longleftrightarrow> bit w i \<or> (i = n \<and> n < 128)"
  by (auto simp: bit_simps)

lemma unat_u7_of_nat: "n \<le> 127 \<Longrightarrow> unat (of_nat n :: u7) = n"
  by (simp add: unsigned_of_nat take_bit_nat_eq_self)

lemma unat_u7_le: "unat (a :: u7) \<le> 127"
  using unsigned_less [of a, where 'a = nat] by simp

lemma used_insert:
  assumes "n \<le> 127"
  shows "used_addrs (s\<lparr>allocated_addresses := allocated_addresses s OR push_bit n 1\<rparr>) =
    insert (of_nat n) (used_addrs s)"
proof -
  have eq: "unat (a :: u7) = n \<longleftrightarrow> a = of_nat n" for a
  proof
    assume "unat a = n"
    with unat_u7_of_nat [OF assms] have "unat a = unat (of_nat n :: u7)" by simp
    then show "a = of_nat n" by (rule unsigned_word_eqI)
  next
    assume "a = of_nat n"
    with unat_u7_of_nat [OF assms] show "unat a = n" by simp
  qed
  have "n < 128" using assms by simp
  then show ?thesis
    by (simp add: used_addrs_def bit_set_addr eq insert_compr disj_commute del: push_bit_of_1)
qed

interpretation addr_pool: address_pool allocate_addr deallocate_addr used_addrs
proof
  fix s s' a
  assume "allocate_addr s = (Some a, s')"
  then have "trailing_ones (allocated_addresses s) \<le> 127"
    and a: "a = of_nat (trailing_ones (allocated_addresses s))"
    and "s' = s\<lparr>allocated_addresses := allocated_addresses s
           OR push_bit (trailing_ones (allocated_addresses s)) 1\<rparr>"
    by (auto simp: allocate_addr_def Let_def split: if_splits)
  then show "a \<notin> used_addrs s \<and> used_addrs s' = insert a (used_addrs s)"
    using used_insert not_bit_trailing_ones [of "allocated_addresses s"] unat_u7_of_nat
    by (simp add: used_addrs_def)
next
  fix s s'
  assume none: "allocate_addr s = (None, s')"
  then have "trailing_ones (allocated_addresses s) = 128"
    using trailing_ones_le [of "allocated_addresses s"]
    by (auto simp: allocate_addr_def Let_def split: if_splits)
  then have "bit (allocated_addresses s) (unat (a :: u7))" for a
    using bit_below_trailing_ones [of "unat a" "allocated_addresses s"] unat_u7_le [of a] by simp
  with none show "used_addrs s = UNIV \<and> s' = s"
    by (auto simp: used_addrs_def allocate_addr_def Let_def split: if_splits)
next
  fix a s
  show "used_addrs (deallocate_addr a s) = used_addrs s - {a}"
    using unat_u7_le [of a]
    by (auto simp: used_addrs_def deallocate_addr_def bit_simps
        dest: bit_imp_le_length unsigned_word_eqI)
qed

lemma used_default: "used_addrs AddressAllocator_default = {0}"
  by (auto simp: used_addrs_def AddressAllocator_default_def bit_simps unsigned_eq_0_iff)

lemma allocate_addr_least:
  assumes "allocate_addr s = (Some a, s')" and "b < a"
  shows "b \<in> used_addrs s"
proof -
  from assms(1) have a: "unat a = trailing_ones (allocated_addresses s)"
    by (auto simp: allocate_addr_def Let_def unat_u7_of_nat split: if_splits)
  with assms(2) have "unat b < trailing_ones (allocated_addresses s)"
    by (simp add: word_less_nat_alt)
  then show ?thesis by (simp add: used_addrs_def bit_below_trailing_ones)
qed

lemma allocate_addr_mask:
  assumes "n \<le> 127"
  shows "allocate_addr \<lparr>allocated_addresses = mask n\<rparr> = (Some (of_nat n), \<lparr>allocated_addresses = mask (Suc n)\<rparr>)"
proof -
  have "trailing_ones (mask n) = n"
    using assms by (intro trailing_ones_eqI) (auto simp: bit_simps)
  moreover have "mask n OR push_bit n 1 = (mask (Suc n) :: u128)"
    using assms by (intro bit_word_eqI) (auto simp: bit_simps)
  ultimately show ?thesis using assms by (simp add: allocate_addr_def)
qed

lemma alloc_many_mask:
  "m + n \<le> 128 \<Longrightarrow> alloc_many allocate_addr n \<lparr>allocated_addresses = mask m\<rparr> =
     (map of_nat [m..<m + n], \<lparr>allocated_addresses = mask (m + n)\<rparr>)"
proof (induction n arbitrary: m)
  case 0
  then show ?case by simp
next
  case (Suc n)
  then show ?case
    using Suc.IH [of "Suc m"] by (simp add: allocate_addr_mask upt_rec [of m])
qed

subsection \<open>Properties\<close>

text \<open>C38: An address that is handed out was free, is now taken, is the smallest free one, and no other
  address changes; allocation fails exactly when every address is taken, and then changes
  nothing.\<close>

theorem allocate_addr_correct:
  "case allocate_addr s of
     (Some a, s') \<Rightarrow> a \<notin> used_addrs s \<and> used_addrs s' = insert a (used_addrs s)
       \<and> {b. b < a} \<subseteq> used_addrs s
   | (None, s') \<Rightarrow> used_addrs s = UNIV \<and> s' = s"
  using addr_pool.alloc_Some [of s] addr_pool.alloc_None [of s] allocate_addr_least [of s]
  by (auto split: prod.split option.split)

text \<open>From the initial allocator, \<open>n \<le> 127\<close> requests hand out the addresses \<open>1, \<dots>, n\<close> in order, and
  after 127 of them the next request fails; whatever the state, the addresses handed out by
  consecutive requests are pairwise distinct and none of them was taken before.\<close>

theorem allocate_many_from_default:
  assumes "n \<le> 127"
  shows "fst (alloc_many allocate_addr n AddressAllocator_default) = map of_nat [1..<n + 1]
    \<and> (n = 127 \<longrightarrow>
        fst (allocate_addr (snd (alloc_many allocate_addr n AddressAllocator_default))) = None)
    \<and> (\<forall>s m. distinct (fst (alloc_many allocate_addr m s))
        \<and> set (fst (alloc_many allocate_addr m s)) \<inter> used_addrs s = {})"
proof -
  have "AddressAllocator_default = \<lparr>allocated_addresses = mask 1\<rparr>"
    by (simp add: AddressAllocator_default_def mask_eq_exp_minus_1)
  then have run: "alloc_many allocate_addr n AddressAllocator_default =
      (map of_nat [1..<n + 1], \<lparr>allocated_addresses = mask (n + 1)\<rparr>)"
    using alloc_many_mask [of 1 n] assms by (simp add: add.commute)
  have full: "fst (allocate_addr \<lparr>allocated_addresses = mask 128\<rparr>) = None"
  proof -
    have "trailing_ones (mask 128) = 128"
      by (rule trailing_ones_eqI) (auto simp: bit_simps)
    then show ?thesis by (simp add: allocate_addr_def)
  qed
  have "distinct (fst (alloc_many allocate_addr m s)) \<and> set (fst (alloc_many allocate_addr m s)) \<inter> used_addrs s = {}"
    for m s
    using addr_pool.alloc_many_fresh [of m s] by (cases "alloc_many allocate_addr m s") simp
  moreover have "fst (allocate_addr (snd (alloc_many allocate_addr n AddressAllocator_default))) = None"
    if "n = 127"
    using full unfolding run by (simp add: that)
  ultimately show ?thesis by (simp add: run)
qed

theorem allocate_many_from_default_witness:
  "fst (alloc_many allocate_addr 3 AddressAllocator_default) = [1, 2, 3]"
  using allocate_many_from_default [of 3] by (simp add: upt_rec)

text \<open>Releasing an address frees that address and no other, and a full pool hands the released
  address out next.\<close>

theorem deallocate_addr_correct:
  "used_addrs (deallocate_addr a s) = used_addrs s - {a}
   \<and> (used_addrs s = UNIV \<longrightarrow> fst (allocate_addr (deallocate_addr a s)) = Some a)"
proof -
  have "fst (allocate_addr (deallocate_addr a s)) = Some a" if full: "used_addrs s = UNIV"
  proof -
    have "used_addrs (deallocate_addr a s) \<noteq> UNIV"
      using full by (auto simp: addr_pool.used_dealloc)
    then obtain b t where bt: "allocate_addr (deallocate_addr a s) = (Some b, t)"
      using addr_pool.alloc_succeeds_iff by metis
    with addr_pool.realloc_after_dealloc [OF bt full] show ?thesis by simp
  qed
  then show ?thesis by (simp add: addr_pool.used_dealloc)
qed

theorem deallocate_addr_correct_witness:
  "used_addrs \<lparr>allocated_addresses = - 1\<rparr> = UNIV
   \<and> fst (allocate_addr (deallocate_addr 5 \<lparr>allocated_addresses = - 1\<rparr>)) = Some 5"
proof -
  have "used_addrs \<lparr>allocated_addresses = - 1\<rparr> = UNIV"
    using unat_u7_le by (auto simp: used_addrs_def Suc_le_eq [symmetric])
  with deallocate_addr_correct [of 5 "\<lparr>allocated_addresses = - 1\<rparr>"] show ?thesis by simp
qed

end
