(* ===== verification/Runner.thy ===== *)
theory Runner
  imports Device Irq_Handler Address_Allocation
begin

text \<open>
  The state of the runner (\<^verbatim>\<open>runner.rs\<close>) and what it shares with the other tasks (\<^verbatim>\<open>ehci_control.rs\<close>,
  \<^verbatim>\<open>ehci_control_common.rs\<close>, \<^verbatim>\<open>root_port.rs\<close>, \<^verbatim>\<open>root_port_shared.rs\<close>, \<^verbatim>\<open>root_port_number.rs\<close>), and the part of its loop that
  brings the controller up: stop it, reset it, start it.  The running state is in the theories
  \<open>Port_Reset\<close> and \<open>Running\<close>.

  \<open>machine\<close> is what the hardware also touches: registers, the memory of queue heads, descriptors and
  buffers, and the clock.  \<open>world\<close> adds the shared states, found by number (an \<^verbatim>\<open>Arc\<close>), and the log of
  the wakers called.  A \<^verbatim>\<open>Duration\<close> is its number of nanoseconds, below \<open>2 ^ 64\<close> seconds.  The loop
  of \<^verbatim>\<open>run\<close> is cut at its \<^verbatim>\<open>await\<close>s: one iteration gives the next state, an instant to wait for, or
  nothing to do until a waker is called.
\<close>

subsection \<open>Durations\<close>

type_synonym duration = nat

definition from_millis :: "nat \<Rightarrow> duration" where
  "from_millis n = n * 1000000"

definition duration_add :: "duration \<Rightarrow> duration \<Rightarrow> duration outcome" where
  "duration_add a b = (if a + b < 2 ^ 64 * 1000000000 then Inr (a + b) else Inl ArithmeticOverflow)"

definition duration_sub :: "duration \<Rightarrow> duration \<Rightarrow> duration outcome" where
  "duration_sub a b = (if b \<le> a then Inr (a - b) else Inl ArithmeticOverflow)"

record poll_strategy =
  check_interval :: duration
  timeout :: duration

definition STOP_RECOMMENDED :: poll_strategy where
  "STOP_RECOMMENDED = \<lparr>check_interval = from_millis 1, timeout = from_millis 2\<rparr>"

definition RESET_RECOMMENDED :: poll_strategy where
  "RESET_RECOMMENDED = \<lparr>check_interval = from_millis 1, timeout = 1000000000\<rparr>"

subsection \<open>Shared state\<close>

datatype Error = StopTimeout | ResetTimeout | DeviceDisconnected | DeviceIsFullSpeed

record start_config =
  stop_strategy :: poll_strategy
  reset_strategy :: poll_strategy
  sc_ctrl_ds_segment :: ctrl_ds_segment
  periodic_frame_list_mem :: mapped_mem
  sc_qh :: mapped_mem

datatype ControlReq = ControlStart start_config

record 'w control_shared =
  control_req_signal :: "(ControlReq, 'w) signal_state"
  control_res_signal :: "(Error + unit, 'w) signal_state"

record reset_device_resources =
  rdr_qh :: mapped_mem
  rdr_qtds :: "mapped_mem \<times> mapped_mem"
  rdr_buffer :: mapped_mem

record 'w root_port_shared =
  port_changed_signal :: "(unit, 'w) signal_state"
  root_req_signal :: "(reset_device_resources, 'w) signal_state"
  root_res_signal :: "(Error + device, 'w) signal_state"

definition ControlSharedState_default :: "'w control_shared" where
  "ControlSharedState_default =
     \<lparr>control_req_signal = Signal_default, control_res_signal = Signal_default\<rparr>"

definition RootPortSharedState_default :: "'w root_port_shared" where
  "RootPortSharedState_default =
     \<lparr>port_changed_signal = Signal_default, root_req_signal = Signal_default, root_res_signal = Signal_default\<rparr>"

type_synonym root_port_number = u4

definition RootPortNumber_try_from :: "u4 \<Rightarrow> root_port_number option" where
  "RootPortNumber_try_from v = (if v \<le> 15 then Some v else None)"

subsection \<open>The runner\<close>

datatype ResetDeviceStep =
    WaitingToStopReset duration
  | WaitForPortToBeEnabled duration
  | WaitForSetAddr u7
  | WaitForQhRemove u7 nat

record resetting_device =
  rd_req :: reset_device_resources
  rd_root_port :: root_port_number
  rd_step :: ResetDeviceStep

record running =
  rn_resetting_device :: "resetting_device option"
  rn_addr_allocator :: address_allocator
  rn_ctrl_ds_segment :: ctrl_ds_segment
  rn_qh_manager :: async_list_manager
  rn_devices :: "root_port_number \<Rightarrow> nat option"
  rn_interrupt_endpoints :: "nat list"
  rn_control_endpoints :: "nat list"
  rn_periodic_list_manager :: periodic_list_manager

datatype RunnerState =
    Stopped "Error option"
  | Stopping duration start_config
  | Resetting duration start_config
  | Running running

record machine =
  mc_caps :: capability_regs
  mc_regs :: operational_regs
  mc_qtds :: qtd_store
  mc_bufs :: "vptr \<Rightarrow> bytes"
  mc_async :: async_heap
  mc_periodic :: periodic_heap
  mc_now :: duration

record ('w, 'a) world =
  wd_machine :: machine
  wd_control :: "'w control_shared"
  wd_root_ports :: "'w root_port_shared list"
  wd_irq :: "'a irq_shared"
  wd_devices :: "nat \<Rightarrow> 'w device_shared"
  wd_interrupt :: "nat \<Rightarrow> 'w interrupt_endpoint_shared"
  wd_control_eps :: "nat \<Rightarrow> 'w control_endpoint_shared"
  wd_oneshots :: "sender \<Rightarrow> (unit, 'a) oneshot_shared"
  wd_fresh :: nat
  wd_woken :: "'w list"

datatype run_result = Continue RunnerState | DelayUntil duration | Pending

abbreviation regs :: "('w, 'a) world \<Rightarrow> operational_regs" where
  "regs w \<equiv> mc_regs (wd_machine w)"

abbreviation now :: "('w, 'a) world \<Rightarrow> duration" where
  "now w \<equiv> mc_now (wd_machine w)"

definition upd_regs :: "(operational_regs \<Rightarrow> operational_regs) \<Rightarrow> ('w, 'a) world \<Rightarrow> ('w, 'a) world" where
  "upd_regs f w = w\<lparr>wd_machine := (wd_machine w)\<lparr>mc_regs := f (mc_regs (wd_machine w))\<rparr>\<rparr>"

definition upd_usb_cmd :: "(usb_cmd_reg \<Rightarrow> usb_cmd_reg) \<Rightarrow> ('w, 'a) world \<Rightarrow> ('w, 'a) world" where
  "upd_usb_cmd f = upd_regs (\<lambda>r. r\<lparr>usb_cmd := f (usb_cmd r)\<rparr>)"

definition signal_control_res :: "Error + unit \<Rightarrow> ('w, 'a) world \<Rightarrow> ('w, 'a) world" where
  "signal_control_res v w =
     (case Signal_signal v (control_res_signal (wd_control w)) of (sig, ws) \<Rightarrow>
        w\<lparr>wd_control := (wd_control w)\<lparr>control_res_signal := sig\<rparr>, wd_woken := wd_woken w @ ws\<rparr>)"

definition Runner_new :: RunnerState where
  "Runner_new = Stopped None"

subsection \<open>Stopping and resetting\<close>

definition run_stopped ::
    "('w \<Rightarrow> 'w \<Rightarrow> bool) \<Rightarrow> 'w \<Rightarrow> ('w, 'a) world \<Rightarrow> run_result \<times> ('w, 'a) world" where
  "run_stopped will_wake cx w =
     (case Signal_poll_wait will_wake cx (control_req_signal (wd_control w)) of (r, sig, ws) \<Rightarrow>
        let w1 = w\<lparr>wd_control := (wd_control w)\<lparr>control_req_signal := sig\<rparr>, wd_woken := wd_woken w @ ws\<rparr>
        in case r of
             None \<Rightarrow> (Pending, w1)
           | Some (ControlStart config) \<Rightarrow>
               (Continue (Stopping (now w1) config), upd_usb_cmd (UsbCmdReg_with_rs False) w1))"

text \<open>The wait that both states share: give up with the error, or check again at the earlier of the two
  instants.\<close>

definition poll_or_give_up ::
    "poll_strategy \<Rightarrow> Error \<Rightarrow> duration \<Rightarrow> ('w, 'a) world \<Rightarrow> (run_result \<times> ('w, 'a) world) outcome" where
  "poll_or_give_up strategy error start_time w =
     obind (duration_sub (now w) start_time) (\<lambda>elapsed.
     if elapsed \<ge> timeout strategy
     then Inr (Continue (Stopped (Some error)), signal_control_res (Inl error) w)
     else obind (duration_add (now w) (check_interval strategy)) (\<lambda>a.
          obind (duration_add start_time (timeout strategy)) (\<lambda>b.
          Inr (DelayUntil (min a b), w))))"

definition run_stopping ::
    "duration \<Rightarrow> start_config \<Rightarrow> ('w, 'a) world \<Rightarrow> (run_result \<times> ('w, 'a) world) outcome" where
  "run_stopping start_time config w =
     (if UsbStsReg_hc_halted (usb_sts (regs w))
      then Inr (Continue (Resetting (now w) config), upd_usb_cmd (UsbCmdReg_with_hc_reset True) w)
      else poll_or_give_up (stop_strategy config) StopTimeout start_time w)"

subsection \<open>Starting\<close>

definition clear_pending_value :: usb_sts_reg where
  "clear_pending_value =
     UsbStsReg_with_interrupt_on_async_advance True
      (UsbStsReg_with_host_system_error True
       (UsbStsReg_with_frame_list_rollover True
        (UsbStsReg_with_port_change_detect True
         (UsbStsReg_with_usb_err_int True
          (UsbStsReg_with_usb_int True 0)))))"

definition usb_intr_value :: usb_intr_reg where
  "usb_intr_value =
     UsbIntrReg_with_reserved 0
      (UsbIntrReg_with_interrupt_on_async_advance_enable True
       (UsbIntrReg_with_host_system_error_interrupt_enable True
        (UsbIntrReg_with_frame_list_rollover_interrupt_enable False
         (UsbIntrReg_with_port_change_interrupt_enable True
          (UsbIntrReg_with_usb_error_interrupt_enable True
           (UsbIntrReg_with_usb_interrupt_enable True 0))))))"

definition config_flag_value :: config_flag_reg where
  "config_flag_value = ConfigFlagReg_with_reserved 0 (ConfigFlagReg_with_configure_flag True 0)"

definition anchor_value :: "vptr \<Rightarrow> u32 \<Rightarrow> qh_with_meta_a" where
  "anchor_value qh_ptr qh_addr_offset =
     (let q = (Qh_new (EndpointCharacteristics_with_head_of_reclamation_list_flag True 0) 0)
                \<lparr>horizontal_link_ptr := QhHorizontalLinkPtr_new Qh qh_addr_offset\<rparr>
      in \<lparr>qha_qh = q\<lparr>transfer_token := TransferToken_with_halted True (transfer_token q)\<rparr>,
          qha_prev = qh_ptr, qha_next = qh_ptr\<rparr>)"

definition start_controller ::
    "start_config \<Rightarrow> usb_cmd_reg \<Rightarrow> ('w, 'a) world \<Rightarrow> (running \<times> ('w, 'a) world) outcome" where
  "start_controller config cmd w =
     (let seg = sc_ctrl_ds_segment config
      in if base_addr_upper seg \<noteq> 0 \<and> \<not> HccParams_is_64_bit_addressing_cap (hcc_params (mc_caps (wd_machine w)))
         then Inl (ExplicitPanic ''attempted to use non-zero CTRLDSSEGMENT with 64-bit addressing is not supported'')
         else
           let w1 = upd_regs (\<lambda>r. r\<lparr>ctrl_ds_segment_reg := base_addr_upper seg\<rparr>) w;
               w2 = upd_regs (\<lambda>r. r\<lparr>usb_sts := usb_sts_hw_write clear_pending_value (usb_sts r)\<rparr>) w1;
               w3 = upd_regs (\<lambda>r. r\<lparr>usb_intr := usb_intr_value\<rparr>) w2;
               periodic_frame_list = PeriodicFrameList_EMPTY
           in obind (get_addr_offset (phys_addr (periodic_frame_list_mem config)) seg) (\<lambda>list_base.
              let w4 = upd_regs (\<lambda>r. r\<lparr>periodic_list_base := list_base\<rparr>) w3;
                  w5 = upd_usb_cmd (\<lambda>_. UsbCmdReg_with_rs True cmd) w4;
                  w6 = upd_regs (\<lambda>r. r\<lparr>config_flag := config_flag_value\<rparr>) w5;
                  w7 = upd_usb_cmd (UsbCmdReg_with_periodic_schedule_enable True) w6
              in obind (get_addr_offset (phys_addr (sc_qh config)) seg) (\<lambda>qh_addr_offset.
                 let p = mm_ptr (sc_qh config);
                     w8 = w7\<lparr>wd_machine := (wd_machine w7)\<lparr>mc_async :=
                            (mc_async (wd_machine w7))(p := anchor_value p qh_addr_offset)\<rparr>\<rparr>;
                     w9 = upd_regs (\<lambda>r. r\<lparr>async_list_addr := AsyncListAddrReg_new qh_addr_offset\<rparr>) w8;
                     w10 = upd_usb_cmd (UsbCmdReg_with_async_schedule_enable True) w9
                 in Inr (\<lparr>rn_resetting_device = None, rn_addr_allocator = AddressAllocator_default,
                          rn_ctrl_ds_segment = seg, rn_qh_manager = AsyncListManager_new (sc_qh config) seg,
                          rn_devices = Map.empty, rn_interrupt_endpoints = [], rn_control_endpoints = [],
                          rn_periodic_list_manager = PeriodicListManager_new periodic_frame_list seg\<rparr>,
                         signal_control_res (Inr ()) w10))))"

definition run_resetting ::
    "duration \<Rightarrow> start_config \<Rightarrow> ('w, 'a) world \<Rightarrow> (run_result \<times> ('w, 'a) world) outcome" where
  "run_resetting start_time config w =
     (let cmd = usb_cmd (regs w)
      in if \<not> UsbCmdReg_hc_reset cmd
         then obind (start_controller config cmd w) (\<lambda>(r, w'). Inr (Continue (Running r), w'))
         else poll_or_give_up (reset_strategy config) ResetTimeout start_time w)"

subsection \<open>The user's side\<close>

definition EhciControl_start :: "start_config \<Rightarrow> ('w, 'a) world \<Rightarrow> ('w, 'a) world" where
  "EhciControl_start config w =
     (case Signal_signal (ControlStart config) (control_req_signal (wd_control w)) of (sig, ws) \<Rightarrow>
        w\<lparr>wd_control := (wd_control w)\<lparr>control_req_signal := sig\<rparr>, wd_woken := wd_woken w @ ws\<rparr>)"

definition EhciControl_poll ::
    "('w \<Rightarrow> 'w \<Rightarrow> bool) \<Rightarrow> 'w \<Rightarrow> ('w, 'a) world \<Rightarrow> (Error + unit) option \<times> ('w, 'a) world" where
  "EhciControl_poll will_wake cx w =
     (case Signal_poll_wait will_wake cx (control_res_signal (wd_control w)) of (r, sig, ws) \<Rightarrow>
        (r, w\<lparr>wd_control := (wd_control w)\<lparr>control_res_signal := sig\<rparr>, wd_woken := wd_woken w @ ws\<rparr>))"

definition is_device_connected :: "nat \<Rightarrow> ('w, 'a) world \<Rightarrow> bool outcome" where
  "is_device_connected i w =
     obind (index_list (port_sc (regs w)) i) (\<lambda>v. Inr (PortScReg_current_connect_status v))"

definition upd_root_port ::
    "nat \<Rightarrow> ('w root_port_shared \<Rightarrow> 'w root_port_shared) \<Rightarrow> 'w list \<Rightarrow> ('w, 'a) world \<Rightarrow> ('w, 'a) world" where
  "upd_root_port i f ws w =
     w\<lparr>wd_root_ports := (wd_root_ports w)[i := f (wd_root_ports w ! i)], wd_woken := wd_woken w @ ws\<rparr>"

definition reset_device_request :: "nat \<Rightarrow> reset_device_resources \<Rightarrow> ('w, 'a) world \<Rightarrow> ('w, 'a) world" where
  "reset_device_request i resources w =
     (case Signal_signal resources (root_req_signal (wd_root_ports w ! i)) of (sig, ws) \<Rightarrow>
        upd_root_port i (\<lambda>p. p\<lparr>root_req_signal := sig\<rparr>) ws w)"

definition reset_device_poll ::
    "('w \<Rightarrow> 'w \<Rightarrow> bool) \<Rightarrow> 'w \<Rightarrow> nat \<Rightarrow> ('w, 'a) world \<Rightarrow> (Error + device) option \<times> ('w, 'a) world" where
  "reset_device_poll will_wake cx i w =
     (case Signal_poll_wait will_wake cx (root_res_signal (wd_root_ports w ! i)) of (r, sig, ws) \<Rightarrow>
        (r, upd_root_port i (\<lambda>p. p\<lparr>root_res_signal := sig\<rparr>) ws w))"

text \<open>One poll of \<^verbatim>\<open>wait_until_connected\<close>; \<open>connected k\<close> is what the \<open>k\<close>-th read of the port register says.  Its loop is
  the one of \<open>wait_for_qtd_complete_poll\<close>.\<close>

definition wait_until_connected_poll ::
    "('w \<Rightarrow> 'w \<Rightarrow> bool) \<Rightarrow> 'w \<Rightarrow> (nat \<Rightarrow> bool) \<Rightarrow> (unit, 'w) signal_state
      \<Rightarrow> bool \<times> (unit, 'w) signal_state \<times> 'w list" where
  "wait_until_connected_poll will_wake cx connected st =
     wait_for_qtd_complete_poll will_wake cx (\<lambda>k. \<not> connected k) 0 st"

subsection \<open>World updates\<close>

lemma upd_regs_simps [simp]:
  "mc_regs (wd_machine (upd_regs f w)) = f (mc_regs (wd_machine w))"
  "mc_regs (wd_machine (upd_usb_cmd g w)) = (regs w)\<lparr>usb_cmd := g (usb_cmd (regs w))\<rparr>"
  "mc_async (wd_machine (upd_regs f w)) = mc_async (wd_machine w)"
  "mc_async (wd_machine (upd_usb_cmd g w)) = mc_async (wd_machine w)"
  "mc_caps (wd_machine (upd_regs f w)) = mc_caps (wd_machine w)"
  "now (upd_regs f w) = now w" "now (upd_usb_cmd g w) = now w"
  "wd_root_ports (upd_regs f w) = wd_root_ports w" "wd_root_ports (upd_usb_cmd g w) = wd_root_ports w"
  "wd_control (upd_regs f w) = wd_control w" "wd_control (upd_usb_cmd g w) = wd_control w"
  by (simp_all add: upd_regs_def upd_usb_cmd_def)

lemma signal_control_res_simps [simp]:
  "wd_machine (signal_control_res v w) = wd_machine w"
  "wd_root_ports (signal_control_res v w) = wd_root_ports w"
  "control_res_signal (wd_control (signal_control_res v w)) = SigSignaled v"
  by (auto simp: signal_control_res_def split: prod.split)
    (metis Signal_signal.elims fst_conv)

subsection \<open>Properties of the start\<close>

lemma usb_intr_value_eq: "usb_intr_value = 0b110111"
  by (simp add: usb_intr_value_def bitfield_defs bits_set_def flag_set_def set_bit_eq_or unset_bit_eq_and_not
      mask_eq_exp_minus_1)

lemma clear_pending_value_eq: "clear_pending_value = mask 6"
  by (simp add: clear_pending_value_def bitfield_defs flag_set_def set_bit_eq_or mask_eq_exp_minus_1)

lemma config_flag_value_eq: "config_flag_value = 1"
  by (simp add: config_flag_value_def bitfield_defs bits_set_def flag_set_def set_bit_eq_or
      mask_eq_exp_minus_1)

definition start_config_ok :: "(vptr \<Rightarrow> u32) \<Rightarrow> capability_regs \<Rightarrow> start_config \<Rightarrow> bool" where
  "start_config_ok off caps config \<longleftrightarrow>
     (base_addr_upper (sc_ctrl_ds_segment config) = 0 \<or> HccParams_is_64_bit_addressing_cap (hcc_params caps))
     \<and> (\<exists>lb. get_addr_offset (phys_addr (periodic_frame_list_mem config)) (sc_ctrl_ds_segment config) = Inr lb)
     \<and> get_addr_offset (phys_addr (sc_qh config)) (sc_ctrl_ds_segment config) = Inr (off (mm_ptr (sc_qh config)))
     \<and> aligned32 (off (mm_ptr (sc_qh config)))"

text \<open>The registers of a controller that has been started with \<open>config\<close>, from registers \<open>r\<close>.\<close>

definition started_regs :: "(vptr \<Rightarrow> u32) \<Rightarrow> start_config \<Rightarrow> operational_regs \<Rightarrow> operational_regs \<Rightarrow> bool" where
  "started_regs off config r r' \<longleftrightarrow>
     ctrl_ds_segment_reg r' = base_addr_upper (sc_ctrl_ds_segment config)
     \<and> get_addr_offset (phys_addr (periodic_frame_list_mem config)) (sc_ctrl_ds_segment config) = Inr (periodic_list_base r')
     \<and> push_bit 5 (ucast (AsyncListAddrReg_link_pointer_low (async_list_addr r'))) = off (mm_ptr (sc_qh config))
     \<and> usb_cmd r' = UsbCmdReg_with_async_schedule_enable True
         (UsbCmdReg_with_periodic_schedule_enable True (UsbCmdReg_with_rs True (usb_cmd r)))
     \<and> usb_intr r' = 0b110111 \<and> config_flag r' = 1
     \<and> usb_sts r' = usb_sts r AND NOT (mask 6) \<and> port_sc r' = port_sc r"

lemma async_list_addr_points:
  "aligned32 a \<Longrightarrow> push_bit 5 (ucast (AsyncListAddrReg_link_pointer_low (AsyncListAddrReg_new a))) = a"
  by (simp add: AsyncListAddrReg_new_def bitfield_defs bitfield ucast_u27_push_drop aligned32_push_drop)

lemma empty_frame_list: "length PeriodicFrameList_EMPTY = 1024" "list_all PeriodicFrameListElement_t PeriodicFrameList_EMPTY"
  by (simp_all add: PeriodicFrameList_EMPTY_def list_all_iff PeriodicFrameListElement_NONE_def bitfield_defs bitfield)

lemma start_controller_result:
  assumes "start_config_ok off (mc_caps (wd_machine w)) config"
  shows "\<exists>rn w'. start_controller config (usb_cmd (regs w)) w = Inr (rn, w')
    \<and> started_regs off config (regs w) (regs w')
    \<and> ring off (mc_async (wd_machine w')) (mm_ptr (sc_qh config)) []
    \<and> TransferToken_halted (transfer_token (qha_qh (mc_async (wd_machine w') (mm_ptr (sc_qh config)))))
    \<and> EndpointCharacteristics_head_of_reclamation_list_flag
        (endpoint_characteristics (qha_qh (mc_async (wd_machine w') (mm_ptr (sc_qh config)))))
    \<and> rn = \<lparr>rn_resetting_device = None, rn_addr_allocator = AddressAllocator_default,
            rn_ctrl_ds_segment = sc_ctrl_ds_segment config,
            rn_qh_manager = AsyncListManager_new (sc_qh config) (sc_ctrl_ds_segment config),
            rn_devices = Map.empty, rn_interrupt_endpoints = [], rn_control_endpoints = [],
            rn_periodic_list_manager = PeriodicListManager_new PeriodicFrameList_EMPTY (sc_ctrl_ds_segment config)\<rparr>
    \<and> control_res_signal (wd_control w') = SigSignaled (Inr ())"
proof -
  let ?seg = "sc_ctrl_ds_segment config" and ?p = "mm_ptr (sc_qh config)"
  from assms obtain lb where ok: "get_addr_offset (phys_addr (periodic_frame_list_mem config)) ?seg = Inr lb"
      "get_addr_offset (phys_addr (sc_qh config)) ?seg = Inr (off ?p)" "aligned32 (off ?p)"
      "\<not> (base_addr_upper ?seg \<noteq> 0 \<and> \<not> HccParams_is_64_bit_addressing_cap (hcc_params (mc_caps (wd_machine w))))"
    by (auto simp: start_config_ok_def)
  obtain rn w' where r: "start_controller config (usb_cmd (regs w)) w = Inr (rn, w')"
    using ok by (simp add: start_controller_def Let_def del: de_Morgan_conj not_not)
  have async: "mc_async (wd_machine w') ?p = anchor_value ?p (off ?p)"
    and regs': "started_regs off config (regs w) (regs w')"
    and rn: "rn = \<lparr>rn_resetting_device = None, rn_addr_allocator = AddressAllocator_default,
            rn_ctrl_ds_segment = sc_ctrl_ds_segment config,
            rn_qh_manager = AsyncListManager_new (sc_qh config) (sc_ctrl_ds_segment config),
            rn_devices = Map.empty, rn_interrupt_endpoints = [], rn_control_endpoints = [],
            rn_periodic_list_manager = PeriodicListManager_new PeriodicFrameList_EMPTY (sc_ctrl_ds_segment config)\<rparr>"
    and res: "control_res_signal (wd_control w') = SigSignaled (Inr ())"
    using r ok by (auto simp: start_controller_def Let_def started_regs_def usb_intr_value_eq config_flag_value_eq
        usb_sts_hw_write_def clear_pending_value_eq async_list_addr_points)
  have "ring off (mc_async (wd_machine w')) ?p []"
    by (rule ring_singleton) (simp_all add: async anchor_value_def Let_def)
  moreover have "TransferToken_halted (transfer_token (qha_qh (mc_async (wd_machine w') ?p)))"
      "EndpointCharacteristics_head_of_reclamation_list_flag (endpoint_characteristics (qha_qh (mc_async (wd_machine w') ?p)))"
    by (simp_all add: async anchor_value_def Let_def Qh_new_def bitfield_defs bitfield)
  ultimately show ?thesis using r regs' rn res by blast
qed

text \<open>When the reset bit of the controller has cleared, the runner starts it and never panics on memory inside
  the segment: the segment, frame list and asynchronous list registers point where they should, all but the
  rollover interrupt are enabled, pending events are cleared and nothing else of the status is, the ports are
  routed, both schedules run; the asynchronous list is the ring of a halted anchor marked as head,
  the frame list has 1024 empty entries, only address 0 is reserved, and the caller of \<open>start\<close> is told.\<close>

theorem reset_complete_starts_controller:
  assumes "start_config_ok off (mc_caps (wd_machine w)) config" "\<not> UsbCmdReg_hc_reset (usb_cmd (regs w))"
  shows "\<exists>rn w'. run_resetting start_time config w = Inr (Continue (Running rn), w')
    \<and> started_regs off config (regs w) (regs w')
    \<and> ring off (mc_async (wd_machine w')) (mm_ptr (sc_qh config)) []
    \<and> TransferToken_halted (transfer_token (qha_qh (mc_async (wd_machine w') (mm_ptr (sc_qh config)))))
    \<and> EndpointCharacteristics_head_of_reclamation_list_flag
        (endpoint_characteristics (qha_qh (mc_async (wd_machine w') (mm_ptr (sc_qh config)))))
    \<and> length (plm_list (rn_periodic_list_manager rn)) = 1024
    \<and> list_all PeriodicFrameListElement_t (plm_list (rn_periodic_list_manager rn))
    \<and> used_addrs (rn_addr_allocator rn) = {0}
    \<and> rn_resetting_device rn = None \<and> rn_devices rn = Map.empty
    \<and> control_res_signal (wd_control w') = SigSignaled (Inr ())"
  using start_controller_result [OF assms(1)] assms(2)
  by (fastforce simp: run_resetting_def PeriodicListManager_new_def empty_frame_list used_default)

definition example_machine :: machine where
  "example_machine =
     \<lparr>mc_caps = \<lparr>cap_len = 0x20, hci_version = 0x100, hcs_params = 1, hcc_params = 0, hcsp_port_route = []\<rparr>,
      mc_regs = \<lparr>usb_cmd = 0x80000, usb_sts = 0x1004, usb_intr = 0, fr_index = 0, ctrl_ds_segment_reg = 0,
        periodic_list_base = 0, async_list_addr = 0, config_flag = 0, port_sc = [0x1803]\<rparr>,
      mc_qtds = \<lambda>_. example_qtd, mc_bufs = \<lambda>_. [], mc_async = \<lambda>_. \<lparr>qha_qh = Qh_new 0 0, qha_prev = 0, qha_next = 0\<rparr>,
      mc_periodic = example_pheap,
      mc_now = 5000000\<rparr>"

definition example_world :: "(nat, nat option) world" where
  "example_world =
     \<lparr>wd_machine = example_machine, wd_control = ControlSharedState_default,
      wd_root_ports = [RootPortSharedState_default], wd_irq = IrqHandlerSharedState_default option_waker,
      wd_devices = \<lambda>_. DeviceSharedState_default, wd_interrupt = \<lambda>_. InterruptEndpointSharedState_default,
      wd_control_eps = \<lambda>_. ControlEndpointSharedState_default, wd_oneshots = \<lambda>_. oneshot option_waker,
      wd_fresh = 0, wd_woken = []\<rparr>"

definition example_start_config :: start_config where
  "example_start_config =
     \<lparr>stop_strategy = STOP_RECOMMENDED, reset_strategy = RESET_RECOMMENDED, sc_ctrl_ds_segment = LOWER_4_G,
      periodic_frame_list_mem = example_mem 0x2000, sc_qh = example_mem 0x40\<rparr>"

lemma example_start_config_ok: "start_config_ok ucast (mc_caps (wd_machine example_world)) example_start_config"
  by (simp add: start_config_ok_def example_start_config_def get_addr_offset_def LOWER_4_G_def
      example_mem_def aligned32_def)

theorem reset_complete_starts_controller_witness:
  "\<exists>rn w'. run_resetting 0 example_start_config example_world = Inr (Continue (Running rn), w')
    \<and> periodic_list_base (regs w') = 0x2000 \<and> usb_sts (regs w') = 0x1000
    \<and> ring ucast (mc_async (wd_machine w')) 0x40 []"
proof -
  have "\<not> UsbCmdReg_hc_reset (usb_cmd (regs example_world))"
    by (simp add: example_world_def example_machine_def bitfield_defs flag_get_def)
  from reset_complete_starts_controller [OF example_start_config_ok this, of 0]
  obtain rn w' where r: "run_resetting 0 example_start_config example_world = Inr (Continue (Running rn), w')"
      "started_regs ucast example_start_config (regs example_world) (regs w')"
      "ring ucast (mc_async (wd_machine w')) (mm_ptr (sc_qh example_start_config)) []" by blast
  have "periodic_list_base (regs w') = 0x2000" "usb_sts (regs w') = 0x1000"
    using r(2) by (simp_all add: started_regs_def example_start_config_def example_world_def example_machine_def
        get_addr_offset_def LOWER_4_G_def example_mem_def mask_eq_exp_minus_1)
  moreover have "mm_ptr (sc_qh example_start_config) = 0x40"
    by (simp add: example_start_config_def example_mem_def)
  ultimately show ?thesis using r(1,3) by auto
qed

subsection \<open>The waits are bounded\<close>

text \<open>A wait that goes on: each check finds the controller not ready, and the next one is made at or after the
  instant that was asked for.\<close>

definition keeps_waiting ::
    "(('w, 'a) world \<Rightarrow> (run_result \<times> ('w, 'a) world) outcome) \<Rightarrow> ('w, 'a) world \<Rightarrow> ('w, 'a) world \<Rightarrow> bool" where
  "keeps_waiting f w w' \<longleftrightarrow> (\<exists>d w1. f w = Inr (DelayUntil d, w1) \<and> d \<le> now w')"

lemma poll_or_give_up_waits:
  assumes "poll_or_give_up strategy error start_time w = Inr (DelayUntil d, w1)"
  shows "w1 = w \<and> start_time \<le> now w \<and> now w < start_time + timeout strategy
    \<and> d = min (now w + check_interval strategy) (start_time + timeout strategy)"
  using assms
  by (auto simp: poll_or_give_up_def duration_sub_def duration_add_def obind_eq_Inr_iff split: if_splits)

lemma bounded_waits:
  assumes "successively (keeps_waiting f) ws" "ws \<noteq> []"
    and f: "\<And>w d w1. f w = Inr (DelayUntil d, w1) \<Longrightarrow> poll_or_give_up strategy error start_time w = Inr (DelayUntil d, w1)"
    and "start_time \<le> now (hd ws)"
  shows "start_time + min ((length ws - 1) * check_interval strategy) (timeout strategy) \<le> now (last ws)"
  using assms(2,1,4)
proof (induction ws rule: rev_nonempty_induct)
  case (single w)
  then show ?case by simp
next
  case (snoc w ws)
  have ih: "start_time + min ((length ws - 1) * check_interval strategy) (timeout strategy) \<le> now (last ws)"
    using snoc.prems snoc.hyps by (intro snoc.IH) (auto simp: successively_append_iff)
  have "keeps_waiting f (last ws) w"
    using snoc.prems(1) snoc.hyps by (simp add: successively_append_iff)
  then obtain d w1 where d: "f (last ws) = Inr (DelayUntil d, w1)" "d \<le> now w"
    by (auto simp: keeps_waiting_def)
  from f [OF d(1)]
  have p: "poll_or_give_up strategy error start_time (last ws) = Inr (DelayUntil d, w1)" .
  note q = poll_or_give_up_waits [OF p]
  have "length ws - 1 + 1 = length ws" using snoc.hyps by (cases ws) auto
  then have "length ws * check_interval strategy = (length ws - 1) * check_interval strategy + check_interval strategy"
    by (metis add.commute mult_Suc plus_1_eq_Suc)
  with ih q d(2) show ?case by (auto simp: min_def split: if_splits)
qed

lemma waits_length:
  assumes "successively (keeps_waiting f) ws" "ws \<noteq> []" "start_time \<le> now (hd ws)"
    and f: "\<And>w d w1. f w = Inr (DelayUntil d, w1) \<Longrightarrow> poll_or_give_up strategy error start_time w = Inr (DelayUntil d, w1)"
    and "0 < check_interval strategy"
  shows "length ws \<le> timeout strategy div check_interval strategy + 2"
proof (cases "length ws \<le> 1")
  case False
  then obtain us v w where ws: "ws = us @ [v, w]"
    by (cases ws rule: rev_cases; cases "butlast ws" rule: rev_cases) auto
  have s: "successively (keeps_waiting f) (us @ [v])" and kw: "keeps_waiting f v w"
    using assms(1) by (auto simp: ws successively_append_iff)
  have "hd (us @ [v]) = hd ws" by (cases us) (simp_all add: ws)
  with assms(3,4) have "start_time + min ((length (us @ [v]) - 1) * check_interval strategy) (timeout strategy) \<le> now v"
    using bounded_waits [OF s, of strategy error start_time] by simp
  moreover have "now v < start_time + timeout strategy"
    using kw f poll_or_give_up_waits unfolding keeps_waiting_def by metis
  ultimately have "length us * check_interval strategy \<le> timeout strategy" by (simp add: min_def split: if_splits)
  then have "length us \<le> timeout strategy div check_interval strategy"
    using assms(5) by (simp add: less_eq_div_iff_mult_less_eq)
  then show ?thesis by (simp add: ws)
qed (use assms in auto)

lemma give_up_at_timeout:
  assumes "start_time + timeout strategy \<le> now w"
  shows "\<exists>w'. poll_or_give_up strategy error start_time w = Inr (Continue (Stopped (Some error)), w')
    \<and> control_res_signal (wd_control w') = SigSignaled (Inl error)"
  using assms by (auto simp: poll_or_give_up_def duration_sub_def)

text \<open>C19: Bringing the controller up cannot hang.  However long the controller takes to halt, the runner checks it
  at most \<open>timeout / check_interval + 2\<close> times, each time no later than the timeout; a check at
  or after the timeout that finds it still running ends the attempt with \<open>StopTimeout\<close>, which the
  caller of \<open>start\<close> receives.  The same holds for the wait for the reset bit, with \<open>ResetTimeout\<close>.\<close>

theorem startup_waits_are_bounded:
  assumes "0 < check_interval (stop_strategy config)" "0 < check_interval (reset_strategy config)"
  shows "(\<forall>ws :: ('w, 'a) world list. successively (keeps_waiting (run_stopping start_time config)) ws \<and> ws \<noteq> [] \<and> start_time \<le> now (hd ws)
        \<longrightarrow> length ws \<le> timeout (stop_strategy config) div check_interval (stop_strategy config) + 2)
    \<and> (\<forall>ws :: ('w, 'a) world list. successively (keeps_waiting (run_resetting start_time config)) ws \<and> ws \<noteq> [] \<and> start_time \<le> now (hd ws)
        \<longrightarrow> length ws \<le> timeout (reset_strategy config) div check_interval (reset_strategy config) + 2)
    \<and> (\<forall>w :: ('w, 'a) world. \<not> UsbStsReg_hc_halted (usb_sts (regs w)) \<and> start_time + timeout (stop_strategy config) \<le> now w
        \<longrightarrow> (\<exists>w'. run_stopping start_time config w = Inr (Continue (Stopped (Some StopTimeout)), w')
              \<and> control_res_signal (wd_control w') = SigSignaled (Inl StopTimeout)))
    \<and> (\<forall>w :: ('w, 'a) world. UsbCmdReg_hc_reset (usb_cmd (regs w)) \<and> start_time + timeout (reset_strategy config) \<le> now w
        \<longrightarrow> (\<exists>w'. run_resetting start_time config w = Inr (Continue (Stopped (Some ResetTimeout)), w')
              \<and> control_res_signal (wd_control w') = SigSignaled (Inl ResetTimeout)))"
proof (intro conjI allI impI)
  fix ws :: "('w, 'a) world list"
  assume a: "successively (keeps_waiting (run_stopping start_time config)) ws \<and> ws \<noteq> [] \<and> start_time \<le> now (hd ws)"
  show "length ws \<le> timeout (stop_strategy config) div check_interval (stop_strategy config) + 2"
  proof (rule waits_length)
    show "successively (keeps_waiting (run_stopping start_time config)) ws" "ws \<noteq> []" "start_time \<le> now (hd ws)"
      using a by simp_all
  qed (auto simp: run_stopping_def assms split: if_splits)
next
  fix ws :: "('w, 'a) world list"
  assume a: "successively (keeps_waiting (run_resetting start_time config)) ws \<and> ws \<noteq> [] \<and> start_time \<le> now (hd ws)"
  show "length ws \<le> timeout (reset_strategy config) div check_interval (reset_strategy config) + 2"
  proof (rule waits_length)
    show "successively (keeps_waiting (run_resetting start_time config)) ws" "ws \<noteq> []" "start_time \<le> now (hd ws)"
      using a by simp_all
  qed (auto simp: run_resetting_def assms Let_def obind_eq_Inr_iff split: if_splits)
qed (auto simp: run_stopping_def run_resetting_def Let_def give_up_at_timeout)

theorem startup_waits_are_bounded_witness:
  "(\<exists>w'. run_stopping 0 example_start_config
       (example_world\<lparr>wd_machine := example_machine\<lparr>mc_regs := (mc_regs example_machine)\<lparr>usb_sts := 0\<rparr>\<rparr>\<rparr>)
     = Inr (Continue (Stopped (Some StopTimeout)), w'))"
proof -
  have "0 < check_interval (stop_strategy example_start_config)" "0 < check_interval (reset_strategy example_start_config)"
    by (simp_all add: example_start_config_def STOP_RECOMMENDED_def RESET_RECOMMENDED_def from_millis_def)
  note b = startup_waits_are_bounded [OF this, of 0, where 'w = nat and 'a = "nat option"]
  let ?w = "example_world\<lparr>wd_machine := example_machine\<lparr>mc_regs := (mc_regs example_machine)\<lparr>usb_sts := 0\<rparr>\<rparr>\<rparr>"
  have "\<not> UsbStsReg_hc_halted (usb_sts (regs ?w)) \<and> 0 + timeout (stop_strategy example_start_config) \<le> now ?w"
    by (simp add: bitfield_defs bitfield example_machine_def example_start_config_def STOP_RECOMMENDED_def from_millis_def)
  with b show ?thesis by blast
qed

end
