(* ===== verification/Port_Reset.thy ===== *)
theory Port_Reset
  imports Runner
begin

text \<open>
  The state machine that resets a device on a root port and gives it an address: the loop
  \<^verbatim>\<open>'reset\<close> of the runner's poll (\<^verbatim>\<open>runner.rs\<close>).  \<open>reset_step\<close> is one iteration, \<open>reset_loop\<close> the loop; before
  its \<open>k\<close>-th iteration the hardware may change the machine by \<open>hw k\<close>.  \<open>elapsed d t\<close> tells whether the
  user's delay until \<open>d\<close> is ready at the instant \<open>t\<close>.  A state is the pair of the running state and the
  world.
\<close>

type_synonym ('w, 'a) rstate = "running \<times> ('w, 'a) world"

subsection \<open>Accesses\<close>

definition update_port_reset :: "nat \<Rightarrow> bool \<Rightarrow> ('w, 'a) world \<Rightarrow> ('w, 'a) world outcome" where
  "update_port_reset i b w =
     obind (index_list (port_sc (regs w)) i) (\<lambda>v.
     Inr (upd_regs (\<lambda>r. r\<lparr>port_sc := (port_sc r)[i :=
            port_sc_hw_write (without_write_to_clear_bits (PortScReg_with_port_reset b v)) v]\<rparr>) w))"

definition signal_root_res :: "nat \<Rightarrow> Error + device \<Rightarrow> ('w, 'a) world \<Rightarrow> ('w, 'a) world outcome" where
  "signal_root_res i v w =
     obind (index_list (wd_root_ports w) i) (\<lambda>p.
     case Signal_signal v (root_res_signal p) of (sig, ws) \<Rightarrow>
       Inr (upd_root_port i (\<lambda>p. p\<lparr>root_res_signal := sig\<rparr>) ws w))"

subsection \<open>Taking a request\<close>

text \<open>The loop over the root ports, up to the first one with a request.\<close>

primrec scan_ports ::
    "('w \<Rightarrow> 'w \<Rightarrow> bool) \<Rightarrow> 'w \<Rightarrow> nat list \<Rightarrow> ('w, 'a) world
      \<Rightarrow> (nat \<times> reset_device_resources) option \<times> ('w, 'a) world" where
  "scan_ports will_wake cx [] w = (None, w)"
| "scan_ports will_wake cx (i # is) w =
     (case Signal_poll_wait will_wake cx (root_req_signal (wd_root_ports w ! i)) of (r, sig, ws) \<Rightarrow>
        let w1 = upd_root_port i (\<lambda>p. p\<lparr>root_req_signal := sig\<rparr>) ws w
        in case r of
             Some req \<Rightarrow> (Some (i, req), w1)
           | None \<Rightarrow> scan_ports will_wake cx is w1)"

definition begin_reset :: "nat \<Rightarrow> reset_device_resources \<Rightarrow> ('w, 'a) rstate \<Rightarrow> ('w, 'a) rstate outcome" where
  "begin_reset i req = (\<lambda>(rn, w).
     obind (update_port_reset i True w) (\<lambda>w1.
     if i < 256
     then obind (uint_new i) (\<lambda>n.
          obind (unwrap_opt (RootPortNumber_try_from n)) (\<lambda>root_port.
          obind (duration_add (now w1) (from_millis 50)) (\<lambda>d.
          Inr (rn\<lparr>rn_resetting_device := Some \<lparr>rd_req = req, rd_root_port = root_port,
                    rd_step = WaitingToStopReset d\<rparr>\<rparr>, w1))))
     else Inl UnwrapFailed))"

subsection \<open>Steps\<close>

text \<open>The first component of a result tells whether the loop goes on.\<close>

definition disconnected :: "nat \<Rightarrow> ('w, 'a) rstate \<Rightarrow> (bool \<times> ('w, 'a) rstate) outcome" where
  "disconnected i = (\<lambda>(rn, w).
     obind (signal_root_res i (Inl DeviceDisconnected) w) (\<lambda>w1.
     Inr (True, rn\<lparr>rn_resetting_device := None\<rparr>, w1)))"

definition waiting_to_stop_reset ::
    "(duration \<Rightarrow> duration \<Rightarrow> bool) \<Rightarrow> resetting_device \<Rightarrow> nat \<Rightarrow> duration \<Rightarrow> ('w, 'a) rstate
      \<Rightarrow> (bool \<times> ('w, 'a) rstate) outcome" where
  "waiting_to_stop_reset elapsed rd i f = (\<lambda>(rn, w).
     obind (index_list (port_sc (regs w)) i) (\<lambda>v.
     if \<not> PortScReg_current_connect_status v then disconnected i (rn, w)
     else if elapsed f (now w)
     then obind (update_port_reset i False w) (\<lambda>w1.
          obind (duration_add (now w1) (from_millis 2)) (\<lambda>d.
          Inr (True, rn\<lparr>rn_resetting_device := Some (rd\<lparr>rd_step := WaitForPortToBeEnabled d\<rparr>)\<rparr>, w1)))
     else Inr (False, rn, w)))"

definition set_addr_qtd_0 :: "reset_device_resources \<Rightarrow> ctrl_ds_segment \<Rightarrow> qtd outcome" where
  "set_addr_qtd_0 req seg =
     obind (uint_new 8) (\<lambda>n.
     obind (BufferPtrs_new_contiguous (phys_addr (rdr_buffer req)) 8) (\<lambda>bp.
     obind (Qtd_new (TransferToken_with_interrupt_on_complete True (TransferToken_new_active SetupToken n)) bp) (\<lambda>qtd_0.
     obind (get_addr_offset (phys_addr (snd (rdr_qtds req))) seg) (\<lambda>off.
     Inr (qtd_0\<lparr>next_qtd_ptr := NextQtdPointer_new_valid off\<rparr>)))))"

definition set_addr_qtd_1 :: "qtd outcome" where
  "set_addr_qtd_1 =
     Qtd_new (TransferToken_with_data_toggle True
       (TransferToken_with_interrupt_on_complete True (TransferToken_new_active InToken 0))) BufferPtrs_ZERO"

definition set_addr_qh :: "reset_device_resources \<Rightarrow> ctrl_ds_segment \<Rightarrow> qh outcome" where
  "set_addr_qh req seg =
     obind (uint_new 8) (\<lambda>max_packet_len.
     let q = Qh_new (EndpointCharacteristics_with_max_packet_len max_packet_len
               (EndpointCharacteristics_with_endpoint_speed (u2_from_EndpointSpeed EndpointSpeed_High)
                 (EndpointCharacteristics_with_endpoint_number 0
                   (EndpointCharacteristics_with_device_addr 0 0)))) 0
     in obind (get_addr_offset (phys_addr (fst (rdr_qtds req))) seg) (\<lambda>off.
        Inr (q\<lparr>next_qtd_pointer := NextQtdPointer_new_valid off\<rparr>)))"

definition send_set_address ::
    "reset_device_resources \<Rightarrow> ('w, 'a) rstate \<Rightarrow> (u7 \<times> ('w, 'a) rstate) outcome" where
  "send_set_address req = (\<lambda>(rn, w).
     let seg = rn_ctrl_ds_segment rn; mc = wd_machine w
     in case allocate_addr (rn_addr_allocator rn) of (allocated, allocator) \<Rightarrow>
        obind (unwrap_opt allocated) (\<lambda>addr_to_set.
        let bufs = (mc_bufs mc)(mm_ptr (rdr_buffer req) := SetupPacket_bytes (SetupPacket_new_set_address addr_to_set))
        in obind (set_addr_qtd_0 req seg) (\<lambda>qtd_0.
           let qtds0 = (mc_qtds mc)(mm_ptr (fst (rdr_qtds req)) := qtd_0)
           in obind set_addr_qtd_1 (\<lambda>qtd_1.
              let qtds1 = qtds0(mm_ptr (snd (rdr_qtds req)) := qtd_1)
              in obind (set_addr_qh req seg) (\<lambda>q.
                 let p = mm_ptr (rdr_qh req);
                     h = (mc_async mc)(p := (mc_async mc p)\<lparr>qha_qh := q\<rparr>)
                 in obind (add_qh_to_async_list (rn_qh_manager rn) (rdr_qh req) h) (\<lambda>h'.
                    Inr (addr_to_set, rn\<lparr>rn_addr_allocator := allocator\<rparr>,
                         w\<lparr>wd_machine := mc\<lparr>mc_bufs := bufs, mc_qtds := qtds1, mc_async := h'\<rparr>\<rparr>)))))))"

definition wait_for_port_to_be_enabled ::
    "(duration \<Rightarrow> duration \<Rightarrow> bool) \<Rightarrow> resetting_device \<Rightarrow> nat \<Rightarrow> duration \<Rightarrow> ('w, 'a) rstate
      \<Rightarrow> (bool \<times> ('w, 'a) rstate) outcome" where
  "wait_for_port_to_be_enabled elapsed rd i f = (\<lambda>(rn, w).
     obind (index_list (port_sc (regs w)) i) (\<lambda>v.
     if \<not> PortScReg_current_connect_status v then disconnected i (rn, w)
     else if PortScReg_port_enabled v
     then obind (send_set_address (rd_req rd) (rn, w)) (\<lambda>(addr, rn1, w1).
          Inr (True, rn1\<lparr>rn_resetting_device := Some (rd\<lparr>rd_step := WaitForSetAddr addr\<rparr>)\<rparr>, w1))
     else if elapsed f (now w)
     then obind (signal_root_res i (Inl DeviceIsFullSpeed) w) (\<lambda>w1.
          Inr (True, rn\<lparr>rn_resetting_device := None\<rparr>, w1))
     else Inr (False, rn, w)))"

definition wait_for_set_addr ::
    "('w, 'a) atomic_waker \<Rightarrow> resetting_device \<Rightarrow> u7 \<Rightarrow> ('w, 'a) rstate \<Rightarrow> (bool \<times> ('w, 'a) rstate) outcome" where
  "wait_for_set_addr aw rd addr = (\<lambda>(rn, w).
     let mc = wd_machine w
     in if \<not> TransferToken_active (qtd_token (mc_qtds mc (mm_ptr (snd (rdr_qtds (rd_req rd))))))
        then
          let tx = wd_fresh w
          in case queue_remove_qh (rdr_qh (rd_req rd)) tx (rn_qh_manager rn, usb_cmd (mc_regs mc), mc_async mc) of
               (m', cmd', h') \<Rightarrow>
                 Inr (True, rn\<lparr>rn_qh_manager := m',
                               rn_resetting_device := Some (rd\<lparr>rd_step := WaitForQhRemove addr tx\<rparr>)\<rparr>,
                      w\<lparr>wd_machine := mc\<lparr>mc_regs := (mc_regs mc)\<lparr>usb_cmd := cmd'\<rparr>, mc_async := h'\<rparr>,
                        wd_oneshots := (wd_oneshots w)(tx := oneshot aw), wd_fresh := Suc tx\<rparr>)
        else Inr (False, rn, w))"

definition wait_for_qh_remove ::
    "('w, 'a) atomic_waker \<Rightarrow> 'w \<Rightarrow> resetting_device \<Rightarrow> nat \<Rightarrow> u7 \<Rightarrow> nat \<Rightarrow> ('w, 'a) rstate
      \<Rightarrow> (bool \<times> ('w, 'a) rstate) outcome" where
  "wait_for_qh_remove aw cx rd i addr rx = (\<lambda>(rn, w).
     case OneshotReceiver_poll aw cx (wd_oneshots w rx) of (r, sh) \<Rightarrow>
       let w1 = w\<lparr>wd_oneshots := (wd_oneshots w)(rx := sh)\<rparr>
       in if r \<noteq> None
          then
            let device_shared = wd_fresh w1;
                ep0_shared = Suc device_shared;
                w2 = w1\<lparr>wd_devices := (wd_devices w1)(device_shared := DeviceSharedState_default),
                        wd_control_eps := (wd_control_eps w1)(ep0_shared := ControlEndpointSharedState_default),
                        wd_fresh := Suc ep0_shared\<rparr>;
                rn1 = rn\<lparr>rn_devices := (rn_devices rn)(rd_root_port rd \<mapsto> device_shared),
                         rn_control_endpoints := rn_control_endpoints rn @ [ep0_shared]\<rparr>
            in obind (signal_root_res i
                        (Inr (Device_new device_shared (rn_ctrl_ds_segment rn) addr ep0_shared)) w2) (\<lambda>w3.
               Inr (True, rn1\<lparr>rn_resetting_device := None\<rparr>, w3))
          else Inr (False, rn, w1))"

definition reset_step ::
    "('w, 'a) atomic_waker \<Rightarrow> ('w \<Rightarrow> 'w \<Rightarrow> bool) \<Rightarrow> 'w \<Rightarrow> (duration \<Rightarrow> duration \<Rightarrow> bool) \<Rightarrow> ('w, 'a) rstate
      \<Rightarrow> (bool \<times> ('w, 'a) rstate) outcome" where
  "reset_step aw will_wake cx elapsed = (\<lambda>(rn, w).
     case rn_resetting_device rn of
       None \<Rightarrow>
         (case scan_ports will_wake cx [0..<length (wd_root_ports w)] w of
            (Some (i, req), w1) \<Rightarrow> obind (begin_reset i req (rn, w1)) (\<lambda>s. Inr (True, s))
          | (None, w1) \<Rightarrow> Inr (False, rn, w1))
     | Some rd \<Rightarrow>
         (let i = unat (rd_root_port rd)
          in if i \<ge> length (port_sc (regs w)) then Inl IndexOutOfBounds
             else case rd_step rd of
                    WaitingToStopReset f \<Rightarrow> waiting_to_stop_reset elapsed rd i f (rn, w)
                  | WaitForPortToBeEnabled f \<Rightarrow> wait_for_port_to_be_enabled elapsed rd i f (rn, w)
                  | WaitForSetAddr addr \<Rightarrow> wait_for_set_addr aw rd addr (rn, w)
                  | WaitForQhRemove addr rx \<Rightarrow> wait_for_qh_remove aw cx rd i addr rx (rn, w)))"

subsection \<open>The loop\<close>

definition has_request :: "'w root_port_shared \<Rightarrow> nat" where
  "has_request p = (if signal_content (root_req_signal p) = None then 0 else 1)"

definition pending_requests :: "('w, 'a) world \<Rightarrow> nat" where
  "pending_requests w = sum_list (map has_request (wd_root_ports w))"

fun step_rank :: "ResetDeviceStep \<Rightarrow> nat" where
  "step_rank (WaitingToStopReset _) = 4"
| "step_rank (WaitForPortToBeEnabled _) = 3"
| "step_rank (WaitForSetAddr _) = 2"
| "step_rank (WaitForQhRemove _ _) = 1"

definition reset_rank :: "('w, 'a) rstate \<Rightarrow> nat" where
  "reset_rank s = 5 * pending_requests (snd s)
     + (case rn_resetting_device (fst s) of None \<Rightarrow> 0 | Some rd \<Rightarrow> step_rank (rd_step rd))"

lemma pending_upd_root_port:
  assumes "i < length (wd_root_ports w)"
  shows "pending_requests (upd_root_port i f ws w) + has_request (wd_root_ports w ! i)
    = pending_requests w + has_request (f (wd_root_ports w ! i))"
proof -
  have "has_request (wd_root_ports w ! i) \<le> sum_list (map has_request (wd_root_ports w))"
    using assms by (intro member_le_sum_list) simp_all
  then show ?thesis
    using assms sum_list_update [of i "map has_request (wd_root_ports w)" "has_request (f (wd_root_ports w ! i))"]
    by (simp add: pending_requests_def upd_root_port_def map_update)
qed

lemma upd_root_port_simps [simp]:
  "wd_machine (upd_root_port i f ws w) = wd_machine w"
  "length (wd_root_ports (upd_root_port i f ws w)) = length (wd_root_ports w)"
  "wd_fresh (upd_root_port i f ws w) = wd_fresh w"
  "wd_oneshots (upd_root_port i f ws w) = wd_oneshots w"
  "wd_devices (upd_root_port i f ws w) = wd_devices w"
  "wd_control_eps (upd_root_port i f ws w) = wd_control_eps w"
  "wd_interrupt (upd_root_port i f ws w) = wd_interrupt w"
  "wd_irq (upd_root_port i f ws w) = wd_irq w"
  by (simp_all add: upd_root_port_def)

lemma pending_requests_cong:
  "wd_root_ports w' = wd_root_ports w \<Longrightarrow> pending_requests w' = pending_requests w"
  by (simp add: pending_requests_def)

lemma signal_root_res_Inr:
  assumes "signal_root_res i v w = Inr w'"
  shows "pending_requests w' = pending_requests w" "wd_machine w' = wd_machine w"
    and "i < length (wd_root_ports w)" "length (wd_root_ports w') = length (wd_root_ports w)"
    and "root_res_signal (wd_root_ports w' ! i) = SigSignaled v"
    and "wd_fresh w' = wd_fresh w" "wd_oneshots w' = wd_oneshots w" "wd_devices w' = wd_devices w"
    and "wd_control_eps w' = wd_control_eps w"
proof -
  obtain sig ws where i: "i < length (wd_root_ports w)" and s: "Signal_signal v (root_res_signal (wd_root_ports w ! i)) = (sig, ws)"
    and w': "w' = upd_root_port i (\<lambda>p. p\<lparr>root_res_signal := sig\<rparr>) ws w"
    using assms by (auto simp: signal_root_res_def obind_eq_Inr_iff split: prod.splits)
  from s have "sig = SigSignaled v" by (cases "root_res_signal (wd_root_ports w ! i)") auto
  with i w' pending_upd_root_port [OF i, of "\<lambda>p. p\<lparr>root_res_signal := sig\<rparr>" ws]
  show "pending_requests w' = pending_requests w" "wd_machine w' = wd_machine w"
    "i < length (wd_root_ports w)" "length (wd_root_ports w') = length (wd_root_ports w)"
    "root_res_signal (wd_root_ports w' ! i) = SigSignaled v"
    "wd_fresh w' = wd_fresh w" "wd_oneshots w' = wd_oneshots w" "wd_devices w' = wd_devices w"
    "wd_control_eps w' = wd_control_eps w"
    by (simp_all add: has_request_def) (simp add: upd_root_port_def)
qed

lemma poll_wait_cases:
  assumes "Signal_poll_wait ww cx st = (r, st', ws)"
  shows "r = signal_content st \<and> signal_content st' = None"
  using assms by (cases st) (auto split: if_splits)

lemma scan_ports_pending:
  assumes "scan_ports ww cx is w = (r, w')" "\<forall>i \<in> set is. i < length (wd_root_ports w)"
  shows "pending_requests w' + (if r = None then 0 else 1) = pending_requests w
    \<and> length (wd_root_ports w') = length (wd_root_ports w) \<and> wd_machine w' = wd_machine w"
  using assms
proof (induction "is" arbitrary: w)
  case (Cons i "is")
  obtain c sig ws where p: "Signal_poll_wait ww cx (root_req_signal (wd_root_ports w ! i)) = (c, sig, ws)"
    by (cases "Signal_poll_wait ww cx (root_req_signal (wd_root_ports w ! i))") auto
  let ?w = "upd_root_port i (\<lambda>p. p\<lparr>root_req_signal := sig\<rparr>) ws w"
  have "i < length (wd_root_ports w)" using Cons.prems by simp
  from pending_upd_root_port [OF this, of "\<lambda>p. p\<lparr>root_req_signal := sig\<rparr>" ws] poll_wait_cases [OF p]
  have q: "pending_requests ?w + (if c = None then 0 else 1) = pending_requests w"
    by (auto simp: has_request_def split: if_splits)
  show ?case
  proof (cases c)
    case None
    with Cons.prems p have "scan_ports ww cx is ?w = (r, w')" by simp
    from Cons.IH [OF this] q None Cons.prems(2) show ?thesis by simp
  next
    case (Some req)
    with Cons.prems p q show ?thesis by auto
  qed
qed auto

lemma disconnected_Inr:
  assumes "disconnected i (rn, w) = Inr (b, s')"
  shows "b \<and> (\<exists>w'. signal_root_res i (Inl DeviceDisconnected) w = Inr w' \<and> s' = (rn\<lparr>rn_resetting_device := None\<rparr>, w'))"
  using assms by (auto simp: disconnected_def obind_eq_Inr_iff)

lemma update_port_reset_Inr:
  assumes "update_port_reset i b w = Inr w'"
  shows "wd_root_ports w' = wd_root_ports w" "i < length (port_sc (regs w))"
    and "regs w' = (regs w)\<lparr>port_sc := (port_sc (regs w))[i :=
       port_sc_hw_write (without_write_to_clear_bits (PortScReg_with_port_reset b (port_sc (regs w) ! i))) (port_sc (regs w) ! i)]\<rparr>"
    and "w' = upd_regs (\<lambda>r. r\<lparr>port_sc := (port_sc r)[i :=
       port_sc_hw_write (without_write_to_clear_bits (PortScReg_with_port_reset b (port_sc (regs w) ! i))) (port_sc (regs w) ! i)]\<rparr>) w"
  using assms by (auto simp: update_port_reset_def obind_eq_Inr_iff)

lemma send_set_address_Inr:
  assumes "send_set_address req (rn, w) = Inr (addr, rn', w')"
  shows "wd_root_ports w' = wd_root_ports w" "rn_resetting_device rn' = rn_resetting_device rn"
  using assms
  by (auto simp: send_set_address_def Let_def obind_eq_Inr_iff split: prod.splits)

lemma begin_reset_Inr:
  assumes "begin_reset i req (rn, w) = Inr (rn', w')"
  shows "\<exists>p d. rn' = rn\<lparr>rn_resetting_device := Some \<lparr>rd_req = req, rd_root_port = p, rd_step = WaitingToStopReset d\<rparr>\<rparr>
    \<and> unat p = i \<and> update_port_reset i True w = Inr w'"
  using assms
  by (auto simp: begin_reset_def obind_eq_Inr_iff RootPortNumber_try_from_def dest: unat_uint_new split: if_splits)

text \<open>
  What an iteration of the loop can do, with the state it leaves.  All facts about single iterations are read
  off these cases.
\<close>

lemma reset_step_cases [consumes 1, case_names idle accept blocked gone over slow address remove unsent deliver]:
  assumes "reset_step aw ww cx elapsed (rn, w) = Inr (b, rn', w')"
  obtains
    (idle) "rn_resetting_device rn = None" "scan_ports ww cx [0..<length (wd_root_ports w)] w = (None, w')" "rn' = rn" "\<not> b"
  | (accept) i req w1 p d where "rn_resetting_device rn = None" "b"
      "scan_ports ww cx [0..<length (wd_root_ports w)] w = (Some (i, req), w1)" "unat p = i" "update_port_reset i True w1 = Inr w'"
      "rn' = rn\<lparr>rn_resetting_device := Some \<lparr>rd_req = req, rd_root_port = p, rd_step = WaitingToStopReset d\<rparr>\<rparr>"
  | (blocked) rd where "rn_resetting_device rn = Some rd" "\<not> b" "rn' = rn" "w' = w"
  | (gone) rd f where "rn_resetting_device rn = Some rd" "b" "rd_step rd = WaitingToStopReset f \<or> rd_step rd = WaitForPortToBeEnabled f"
      "signal_root_res (unat (rd_root_port rd)) (Inl DeviceDisconnected) w = Inr w'" "rn' = rn\<lparr>rn_resetting_device := None\<rparr>"
  | (over) rd f d where "rn_resetting_device rn = Some rd" "b" "rd_step rd = WaitingToStopReset f"
      "update_port_reset (unat (rd_root_port rd)) False w = Inr w'"
      "rn' = rn\<lparr>rn_resetting_device := Some (rd\<lparr>rd_step := WaitForPortToBeEnabled d\<rparr>)\<rparr>"
  | (slow) rd f where "rn_resetting_device rn = Some rd" "b" "rd_step rd = WaitForPortToBeEnabled f"
      "signal_root_res (unat (rd_root_port rd)) (Inl DeviceIsFullSpeed) w = Inr w'" "rn' = rn\<lparr>rn_resetting_device := None\<rparr>"
  | (address) rd f a rn1 where "rn_resetting_device rn = Some rd" "b" "rd_step rd = WaitForPortToBeEnabled f"
      "send_set_address (rd_req rd) (rn, w) = Inr (a, rn1, w')"
      "rn' = rn1\<lparr>rn_resetting_device := Some (rd\<lparr>rd_step := WaitForSetAddr a\<rparr>)\<rparr>"
  | (remove) rd a m cmd h where "rn_resetting_device rn = Some rd" "b" "rd_step rd = WaitForSetAddr a"
      "queue_remove_qh (rdr_qh (rd_req rd)) (wd_fresh w) (rn_qh_manager rn, usb_cmd (regs w), mc_async (wd_machine w)) = (m, cmd, h)"
      "rn' = rn\<lparr>rn_qh_manager := m, rn_resetting_device := Some (rd\<lparr>rd_step := WaitForQhRemove a (wd_fresh w)\<rparr>)\<rparr>"
      "w' = w\<lparr>wd_machine := (wd_machine w)\<lparr>mc_regs := (regs w)\<lparr>usb_cmd := cmd\<rparr>, mc_async := h\<rparr>,
         wd_oneshots := (wd_oneshots w)(wd_fresh w := oneshot aw), wd_fresh := Suc (wd_fresh w)\<rparr>"
  | (unsent) rd a rx sh where "rn_resetting_device rn = Some rd" "\<not> b" "rd_step rd = WaitForQhRemove a rx"
      "OneshotReceiver_poll aw cx (wd_oneshots w rx) = (None, sh)" "rn' = rn" "w' = w\<lparr>wd_oneshots := (wd_oneshots w)(rx := sh)\<rparr>"
  | (deliver) rd a rx sh where "rn_resetting_device rn = Some rd" "b" "rd_step rd = WaitForQhRemove a rx"
      "signal_root_res (unat (rd_root_port rd)) (Inr (Device_new (wd_fresh w) (rn_ctrl_ds_segment rn) a (Suc (wd_fresh w))))
         (w\<lparr>wd_oneshots := (wd_oneshots w)(rx := sh), wd_devices := (wd_devices w)(wd_fresh w := DeviceSharedState_default),
            wd_control_eps := (wd_control_eps w)(Suc (wd_fresh w) := ControlEndpointSharedState_default),
            wd_fresh := Suc (Suc (wd_fresh w))\<rparr>) = Inr w'"
      "rn' = rn\<lparr>rn_devices := (rn_devices rn)(rd_root_port rd \<mapsto> wd_fresh w),
         rn_control_endpoints := rn_control_endpoints rn @ [Suc (wd_fresh w)], rn_resetting_device := None\<rparr>"
proof (cases "rn_resetting_device rn")
  case None
  obtain r w1 where "scan_ports ww cx [0..<length (wd_root_ports w)] w = (r, w1)" by fastforce
  with None assms show ?thesis
    by (cases r) (auto simp: reset_step_def obind_eq_Inr_iff intro: idle accept dest!: begin_reset_Inr)
next
  case (Some rd)
  note res = assms [unfolded reset_step_def prod.case Some option.case Let_def]
  show ?thesis
  proof (cases "rd_step rd")
    case (WaitingToStopReset f)
    with res Some show ?thesis
      by (auto simp: waiting_to_stop_reset_def obind_eq_Inr_iff split: if_splits
          intro: blocked gone over dest!: disconnected_Inr)
  next
    case (WaitForPortToBeEnabled f)
    with res Some show ?thesis
      by (auto simp: wait_for_port_to_be_enabled_def obind_eq_Inr_iff split: if_splits
          intro: blocked gone slow address dest!: disconnected_Inr)
  next
    case (WaitForSetAddr a)
    with res Some show ?thesis
      by (auto simp: wait_for_set_addr_def Let_def split: if_splits prod.splits intro: blocked remove)
  next
    case (WaitForQhRemove a rx)
    obtain r sh where "OneshotReceiver_poll aw cx (wd_oneshots w rx) = (r, sh)" by fastforce
    with WaitForQhRemove res Some show ?thesis
      by (cases r) (auto simp: wait_for_qh_remove_def Let_def obind_eq_Inr_iff split: if_splits intro: unsent deliver)
  qed
qed

lemma reset_step_rank:
  assumes "reset_step aw ww cx elapsed s = Inr (True, s')"
  shows "reset_rank s' < reset_rank s"
proof -
  obtain rn w rn' w' where s: "s = (rn, w)" "s' = (rn', w')" by (cases s; cases s')
  from assms have "reset_step aw ww cx elapsed (rn, w) = Inr (True, rn', w')" by (simp add: s)
  then show ?thesis
  proof (cases rule: reset_step_cases)
    case (accept i req w1 p d)
    with scan_ports_pending [OF accept(3)] pending_requests_cong [OF update_port_reset_Inr(1) [OF accept(5)]]
    show ?thesis by (simp add: s reset_rank_def)
  next
    case (gone rd f)
    then show ?thesis by (auto simp: s reset_rank_def signal_root_res_Inr(1))
  next
    case (deliver rd a rx sh)
    with signal_root_res_Inr(1) [OF deliver(4)] show ?thesis by (simp add: s reset_rank_def pending_requests_def)
  qed (simp_all add: s reset_rank_def pending_requests_def signal_root_res_Inr(1) [unfolded pending_requests_def]
      update_port_reset_Inr(1) send_set_address_Inr(1))
qed

definition with_hw :: "(machine \<Rightarrow> machine) \<Rightarrow> ('w, 'a) rstate \<Rightarrow> ('w, 'a) rstate" where
  "with_hw hw s = (fst s, (snd s)\<lparr>wd_machine := hw (wd_machine (snd s))\<rparr>)"

lemma reset_rank_with_hw [simp]: "reset_rank (with_hw hw s) = reset_rank s"
  by (simp add: reset_rank_def with_hw_def pending_requests_def)

function reset_loop ::
    "('w, 'a) atomic_waker \<Rightarrow> ('w \<Rightarrow> 'w \<Rightarrow> bool) \<Rightarrow> 'w \<Rightarrow> (duration \<Rightarrow> duration \<Rightarrow> bool) \<Rightarrow> (nat \<Rightarrow> machine \<Rightarrow> machine)
      \<Rightarrow> nat \<Rightarrow> ('w, 'a) rstate \<Rightarrow> ('w, 'a) rstate outcome" where
  "reset_loop aw will_wake cx elapsed hw k s =
     (case reset_step aw will_wake cx elapsed (with_hw (hw k) s) of
        Inl e \<Rightarrow> Inl e
      | Inr (True, s') \<Rightarrow> reset_loop aw will_wake cx elapsed hw (Suc k) s'
      | Inr (False, s') \<Rightarrow> Inr s')"
  by pat_completeness auto
termination
proof (relation "measure (\<lambda>(_, _, _, _, _, _, s). reset_rank s)", goal_cases)
  case (2 aw will_wake cx elapsed hw k s r b s')
  then have "reset_step aw will_wake cx elapsed (with_hw (hw k) s) = Inr (True, s')" by simp
  from reset_step_rank [OF this] show ?case by simp
qed simp

declare reset_loop.simps [simp del]

subsection \<open>The SET_ADDRESS request\<close>

definition reset_resources_ok ::
    "(vptr \<Rightarrow> u32) \<Rightarrow> (u32 \<Rightarrow> vptr) \<Rightarrow> ctrl_ds_segment \<Rightarrow> reset_device_resources \<Rightarrow> bool" where
  "reset_resources_ok off at seg req \<longleftrightarrow>
     qtd_mem_ok off seg (fst (rdr_qtds req)) \<and> qtd_mem_ok off seg (snd (rdr_qtds req))
     \<and> mm_ptr (fst (rdr_qtds req)) \<noteq> mm_ptr (snd (rdr_qtds req))
     \<and> at (off (mm_ptr (fst (rdr_qtds req)))) = mm_ptr (fst (rdr_qtds req))
     \<and> at (off (mm_ptr (snd (rdr_qtds req)))) = mm_ptr (snd (rdr_qtds req))
     \<and> window_ok (phys_addr (rdr_buffer req)) 8
     \<and> get_addr_offset (phys_addr (rdr_qh req)) seg = Inr (off (mm_ptr (rdr_qh req)))"

definition set_addr_setup_token :: transfer_token where
  "set_addr_setup_token = TransferToken_with_interrupt_on_complete True (TransferToken_new_active SetupToken 8)"

abbreviation qh_device_addr :: "async_heap \<Rightarrow> vptr \<Rightarrow> u7" where
  "qh_device_addr h p \<equiv> EndpointCharacteristics_device_addr (endpoint_characteristics (qha_qh (h p)))"

lemma ring_cong:
  assumes "ring off h a qs"
    and "\<And>x. x \<in> set (a # qs) \<Longrightarrow> hlink h' x = hlink h x \<and> qha_next (h' x) = qha_next (h x) \<and> qha_prev (h' x) = qha_prev (h x)"
  shows "ring off h' a qs"
proof -
  have d: "distinct (a # qs)" and c: "successively (linked off h) (a # qs @ [a])" using assms(1) by (simp_all add: ring_def)
  have "successively (linked off h') (a # qs @ [a])"
  proof (rule successively_frame [OF c])
    fix x y assume "x \<in> set (butlast (a # qs @ [a]))" "y \<in> set (tl (a # qs @ [a]))" "linked off h x y"
    then have "x \<in> set (a # qs)" "y \<in> set (a # qs)" by (auto simp: butlast_append split: if_splits)
    with assms(2) \<open>linked off h x y\<close> show "linked off h' x y" by (simp add: linked_def)
  qed
  with d show ?thesis by (simp add: ring_def)
qed

lemma inserted_heap_qh:
  "transfer_token (qha_qh (inserted_heap off a q h x)) = transfer_token (qha_qh (h x))"
  "next_qtd_pointer (qha_qh (inserted_heap off a q h x)) = next_qtd_pointer (qha_qh (h x))"
  "endpoint_characteristics (qha_qh (inserted_heap off a q h x)) = endpoint_characteristics (qha_qh (h x))"
  by (simp_all add: inserted_heap_def set_next_def set_prev_def set_hlink_def)

lemma removed_heap_qh:
  "endpoint_characteristics (qha_qh (removed_heap q h x)) = endpoint_characteristics (qha_qh (h x))"
  by (simp add: removed_heap_def set_next_def set_prev_def set_hlink_def)

lemma set_addr_qtds_ok:
  assumes "reset_resources_ok off at seg req"
  shows "\<exists>q0 q1. set_addr_qtd_0 req seg = Inr q0 \<and> set_addr_qtd_1 = Inr q1
    \<and> qtd_is set_addr_setup_token (phys_addr (rdr_buffer req)) 8
        (NextQtdPointer_new_valid (off (mm_ptr (snd (rdr_qtds req))))) AlternateQtdLinkPtr_INVALID q0
    \<and> qtd_is (status_token InToken) 0 0 NextQtdPointer_INVALID AlternateQtdLinkPtr_INVALID q1"
proof -
  obtain bp q where "BufferPtrs_new_contiguous (phys_addr (rdr_buffer req)) 8 = Inr bp" "Qtd_new set_addr_setup_token bp = Inr q"
      "qtd_is set_addr_setup_token (phys_addr (rdr_buffer req)) 8 NextQtdPointer_INVALID AlternateQtdLinkPtr_INVALID q"
    using Qtd_new_window [of "phys_addr (rdr_buffer req)" 8 8 set_addr_setup_token] assms
    by (auto simp: reset_resources_ok_def)
  moreover obtain q1 where "Qtd_new (status_token InToken) BufferPtrs_ZERO = Inr q1"
      "qtd_is (status_token InToken) 0 0 NextQtdPointer_INVALID AlternateQtdLinkPtr_INVALID q1"
    using Qtd_new_total [of BufferPtrs_ZERO "status_token InToken"] by (auto simp: qtd_is_def)
  moreover have "TransferToken_with_data_toggle True
       (TransferToken_with_interrupt_on_complete True (TransferToken_new_active InToken 0)) = status_token InToken"
    unfolding status_token_def bitfield_defs by (rule bit_word_eqI) (auto simp: bit_flag_set)
  ultimately show ?thesis
    using assms by (auto simp: set_addr_qtd_0_def set_addr_qtd_1_def set_addr_setup_token_def uint_new_def
        reset_resources_ok_def qtd_mem_ok_def qtd_is_def)
qed

lemma set_addr_qh_ok:
  assumes "reset_resources_ok off at seg req"
  shows "\<exists>q. set_addr_qh req seg = Inr q
    \<and> next_qtd_pointer q = NextQtdPointer_new_valid (off (mm_ptr (fst (rdr_qtds req))))
    \<and> transfer_token q = 0
    \<and> EndpointCharacteristics_device_addr (endpoint_characteristics q) = 0
    \<and> EndpointCharacteristics_endpoint_number (endpoint_characteristics q) = 0"
  using assms
  by (simp add: set_addr_qh_def uint_new_def Let_def reset_resources_ok_def qtd_mem_ok_def Qh_new_def
      bitfield_defs bitfield)

definition manager_ok :: "(vptr \<Rightarrow> u32) \<Rightarrow> running \<Rightarrow> async_heap \<Rightarrow> vptr list \<Rightarrow> bool" where
  "manager_ok off rn h qs \<longleftrightarrow>
     alm_ctrl_ds_segment (rn_qh_manager rn) = rn_ctrl_ds_segment rn
     \<and> ring off h (mm_ptr (anchor_qh (rn_qh_manager rn))) qs"

text \<open>What \<open>send_set_address\<close> leaves in memory for the controller.\<close>

definition set_address_sent ::
    "(vptr \<Rightarrow> u32) \<Rightarrow> (u32 \<Rightarrow> vptr) \<Rightarrow> reset_device_resources \<Rightarrow> u7 \<Rightarrow> machine \<Rightarrow> bool" where
  "set_address_sent off at req a mc \<longleftrightarrow>
     decode_request (mc_bufs mc (mm_ptr (rdr_buffer req))) = Some (ReqSetAddress (ucast a))
     \<and> qtd_walk at (mc_qtds mc) 2 (next_qtd_pointer (qha_qh (mc_async mc (mm_ptr (rdr_qh req)))))
         = [mm_ptr (fst (rdr_qtds req)), mm_ptr (snd (rdr_qtds req))]
     \<and> qtd_is set_addr_setup_token (phys_addr (rdr_buffer req)) 8
        (NextQtdPointer_new_valid (off (mm_ptr (snd (rdr_qtds req))))) AlternateQtdLinkPtr_INVALID
        (mc_qtds mc (mm_ptr (fst (rdr_qtds req))))
     \<and> qtd_token (mc_qtds mc (mm_ptr (snd (rdr_qtds req)))) = status_token InToken
     \<and> transfer_token (qha_qh (mc_async mc (mm_ptr (rdr_qh req)))) = 0
     \<and> qh_device_addr (mc_async mc) (mm_ptr (rdr_qh req)) = 0"

lemma send_set_address_ok:
  assumes res: "reset_resources_ok off at (rn_ctrl_ds_segment rn) req"
    and m: "manager_ok off rn (mc_async (wd_machine w)) qs"
    and fresh: "mm_ptr (rdr_qh req) \<notin> set (mm_ptr (anchor_qh (rn_qh_manager rn)) # qs)"
    and alloc: "allocate_addr (rn_addr_allocator rn) = (Some a, al)"
  shows "\<exists>w'. send_set_address req (rn, w) = Inr (a, rn\<lparr>rn_addr_allocator := al\<rparr>, w')
    \<and> set_address_sent off at req a (wd_machine w')
    \<and> ring off (mc_async (wd_machine w')) (mm_ptr (anchor_qh (rn_qh_manager rn))) (mm_ptr (rdr_qh req) # qs)
    \<and> (\<forall>x. x \<noteq> mm_ptr (rdr_qh req) \<longrightarrow> qh_device_addr (mc_async (wd_machine w')) x = qh_device_addr (mc_async (wd_machine w)) x)"
proof -
  let ?mc = "wd_machine w" and ?seg = "rn_ctrl_ds_segment rn" and ?p = "mm_ptr (rdr_qh req)"
  let ?a = "mm_ptr (anchor_qh (rn_qh_manager rn))"
  let ?q0 = "mm_ptr (fst (rdr_qtds req))" and ?q1 = "mm_ptr (snd (rdr_qtds req))"
  obtain q0 q1 where q: "set_addr_qtd_0 req ?seg = Inr q0" "set_addr_qtd_1 = Inr q1"
      "qtd_is set_addr_setup_token (phys_addr (rdr_buffer req)) 8 (NextQtdPointer_new_valid (off ?q1)) AlternateQtdLinkPtr_INVALID q0"
      "qtd_is (status_token InToken) 0 0 NextQtdPointer_INVALID AlternateQtdLinkPtr_INVALID q1"
    using set_addr_qtds_ok [OF res] by blast
  obtain q where qh: "set_addr_qh req ?seg = Inr q" "next_qtd_pointer q = NextQtdPointer_new_valid (off ?q0)"
      "transfer_token q = 0" "EndpointCharacteristics_device_addr (endpoint_characteristics q) = 0"
    using set_addr_qh_ok [OF res] by blast
  let ?h = "(mc_async ?mc)(?p := (mc_async ?mc ?p)\<lparr>qha_qh := q\<rparr>)"
  let ?h' = "inserted_heap off ?a ?p ?h"
  let ?qtds = "(mc_qtds ?mc)(?q0 := q0, ?q1 := q1)"
  let ?bufs = "(mc_bufs ?mc)(mm_ptr (rdr_buffer req) := SetupPacket_bytes (SetupPacket_new_set_address a))"
  let ?w = "w\<lparr>wd_machine := ?mc\<lparr>mc_bufs := ?bufs, mc_qtds := ?qtds, mc_async := ?h'\<rparr>\<rparr>"
  have ring0: "ring off (mc_async ?mc) ?a qs" using m by (simp add: manager_ok_def)
  have "ring off ?h ?a qs" by (rule ring_cong [OF ring0]) (use fresh in auto)
  then have ring1: "ring off ?h' ?a (?p # qs)" using fresh by (rule ring_inserted)
  have "add_qh_to_async_list (rn_qh_manager rn) (rdr_qh req) ?h = Inr ?h'"
    using m res by (intro add_qh_to_async_list_eq) (simp add: manager_ok_def reset_resources_ok_def)
  then have sent: "send_set_address req (rn, w) = Inr (a, rn\<lparr>rn_addr_allocator := al\<rparr>, ?w)"
    using q(1) qh(1) alloc by (simp add: send_set_address_def Let_def q(2))
  have ne: "?q0 \<noteq> ?q1" "aligned32 (off ?q0)" "aligned32 (off ?q1)" "at (off ?q0) = ?q0" "at (off ?q1) = ?q1"
    using res by (simp_all add: reset_resources_ok_def qtd_mem_ok_def)
  have "qtd_walk at ?qtds 2 (NextQtdPointer_new_valid (off ?q0)) = [?q0, ?q1]"
    using qtd_walk_chain [of ?qtds off ?q0 "[?q1]" at 2] ne q(3,4) by (simp add: qtd_is_def)
  then have "set_address_sent off at req a (wd_machine ?w)"
    using q(3,4) qh ne by (simp add: set_address_sent_def inserted_heap_qh qtd_is_def)
  moreover have "\<forall>x. x \<noteq> ?p \<longrightarrow> qh_device_addr (mc_async (wd_machine ?w)) x = qh_device_addr (mc_async ?mc) x"
    by (simp add: inserted_heap_qh)
  ultimately show ?thesis using sent ring1 by auto
qed


subsection \<open>One device at the default address\<close>

text \<open>
  The system around the state machine: the hardware may change everything but the links and the
  characteristics of queue heads (the controller only writes their overlay); other tasks may change all shared states but
  not the machine; a control endpoint's queue head, which never addresses device 0, may be added.  The
  memory of a reset request must not be in use, as the caller promises.
\<close>

definition hw_keeps :: "async_heap \<Rightarrow> async_heap \<Rightarrow> bool" where
  "hw_keeps h h' \<longleftrightarrow>
     (\<forall>x. hlink h' x = hlink h x \<and> qha_next (h' x) = qha_next (h x) \<and> qha_prev (h' x) = qha_prev (h x)
        \<and> endpoint_characteristics (qha_qh (h' x)) = endpoint_characteristics (qha_qh (h x)))"

definition request_contract ::
    "(vptr \<Rightarrow> u32) \<Rightarrow> (u32 \<Rightarrow> vptr) \<Rightarrow> running \<Rightarrow> async_heap \<Rightarrow> bool" where
  "request_contract off at rn h \<longleftrightarrow>
     (\<forall>rd f qs. rn_resetting_device rn = Some rd \<and> rd_step rd = WaitForPortToBeEnabled f
        \<and> ring off h (mm_ptr (anchor_qh (rn_qh_manager rn))) qs
      \<longrightarrow> reset_resources_ok off at (rn_ctrl_ds_segment rn) (rd_req rd)
        \<and> mm_ptr (rdr_qh (rd_req rd)) \<notin> set (mm_ptr (anchor_qh (rn_qh_manager rn)) # qs))"

inductive reset_reachable ::
    "(vptr \<Rightarrow> u32) \<Rightarrow> (u32 \<Rightarrow> vptr) \<Rightarrow> ('w, 'a) atomic_waker \<Rightarrow> ('w \<Rightarrow> 'w \<Rightarrow> bool) \<Rightarrow> 'w
      \<Rightarrow> (duration \<Rightarrow> duration \<Rightarrow> bool) \<Rightarrow> ('w, 'a) rstate \<Rightarrow> ('w, 'a) rstate \<Rightarrow> bool"
  for off at aw ww cx elapsed s0 where
  rr_start: "reset_reachable off at aw ww cx elapsed s0 s0"
| rr_hw: "reset_reachable off at aw ww cx elapsed s0 (rn, w) \<Longrightarrow> hw_keeps (mc_async (wd_machine w)) (mc_async mc') \<Longrightarrow>
     reset_reachable off at aw ww cx elapsed s0 (rn, w\<lparr>wd_machine := mc'\<rparr>)"
| rr_tasks: "reset_reachable off at aw ww cx elapsed s0 (rn, w) \<Longrightarrow> wd_machine w' = wd_machine w \<Longrightarrow>
     reset_reachable off at aw ww cx elapsed s0 (rn, w')"
| rr_control: "reset_reachable off at aw ww cx elapsed s0 (rn, w) \<Longrightarrow>
     add_qh_to_async_list (rn_qh_manager rn) q (mc_async (wd_machine w)) = Inr h' \<Longrightarrow>
     get_addr_offset (phys_addr q) (rn_ctrl_ds_segment rn) = Inr (off (mm_ptr q)) \<Longrightarrow>
     (\<And>qs. ring off (mc_async (wd_machine w)) (mm_ptr (anchor_qh (rn_qh_manager rn))) qs \<Longrightarrow>
        mm_ptr q \<notin> set (mm_ptr (anchor_qh (rn_qh_manager rn)) # qs)) \<Longrightarrow>
     qh_device_addr (mc_async (wd_machine w)) (mm_ptr q) \<noteq> 0 \<Longrightarrow>
     reset_reachable off at aw ww cx elapsed s0 (rn, w\<lparr>wd_machine := (wd_machine w)\<lparr>mc_async := h'\<rparr>\<rparr>)"
| rr_step: "reset_reachable off at aw ww cx elapsed s0 (rn, w) \<Longrightarrow> request_contract off at rn (mc_async (wd_machine w)) \<Longrightarrow>
     reset_step aw ww cx elapsed (rn, w) = Inr (b, s') \<Longrightarrow>
     reset_reachable off at aw ww cx elapsed s0 s'"

definition addressing_default :: "running \<Rightarrow> vptr set" where
  "addressing_default rn =
     (case rn_resetting_device rn of
        Some rd \<Rightarrow> (case rd_step rd of WaitForSetAddr _ \<Rightarrow> {mm_ptr (rdr_qh (rd_req rd))} | _ \<Rightarrow> {})
      | None \<Rightarrow> {})"

definition reset_inv :: "(vptr \<Rightarrow> u32) \<Rightarrow> ('w, 'a) rstate \<Rightarrow> bool" where
  "reset_inv off = (\<lambda>(rn, w). \<exists>qs. manager_ok off rn (mc_async (wd_machine w)) qs
     \<and> {q \<in> set qs. qh_device_addr (mc_async (wd_machine w)) q = 0} = addressing_default rn
     \<and> 0 \<in> used_addrs (rn_addr_allocator rn))"

lemma reset_invI:
  assumes "manager_ok off rn (mc_async (wd_machine w)) qs"
    and "{q \<in> set qs. qh_device_addr (mc_async (wd_machine w)) q = 0} = addressing_default rn"
    and "0 \<in> used_addrs (rn_addr_allocator rn)"
  shows "reset_inv off (rn, w)"
  using assms unfolding reset_inv_def by blast

text \<open>Steps that touch neither the ring nor the set of queue heads for the default address.\<close>

lemma reset_inv_frame:
  assumes "reset_inv off (rn, w)" "hw_keeps (mc_async (wd_machine w)) (mc_async (wd_machine w'))"
    and "rn_qh_manager rn' = rn_qh_manager rn" "rn_ctrl_ds_segment rn' = rn_ctrl_ds_segment rn"
    and "addressing_default rn' = addressing_default rn" "rn_addr_allocator rn' = rn_addr_allocator rn"
  shows "reset_inv off (rn', w')"
proof -
  obtain qs where qs: "manager_ok off rn (mc_async (wd_machine w)) qs"
      "{q \<in> set qs. qh_device_addr (mc_async (wd_machine w)) q = 0} = addressing_default rn"
      "0 \<in> used_addrs (rn_addr_allocator rn)"
    using assms(1) by (auto simp: reset_inv_def)
  have "manager_ok off rn' (mc_async (wd_machine w')) qs"
    using qs(1) assms(2-4) unfolding manager_ok_def hw_keeps_def by (metis ring_cong)
  with qs assms(2-6) show ?thesis by (auto simp: reset_inv_def hw_keeps_def)
qed

lemma hw_keeps_refl [simp]: "hw_keeps h h"
  by (simp add: hw_keeps_def)

lemma reset_inv_control:
  assumes "reset_inv off (rn, w)" "add_qh_to_async_list (rn_qh_manager rn) q (mc_async (wd_machine w)) = Inr h'"
    and "get_addr_offset (phys_addr q) (rn_ctrl_ds_segment rn) = Inr (off (mm_ptr q))"
    and "\<And>qs. ring off (mc_async (wd_machine w)) (mm_ptr (anchor_qh (rn_qh_manager rn))) qs \<Longrightarrow>
        mm_ptr q \<notin> set (mm_ptr (anchor_qh (rn_qh_manager rn)) # qs)"
    and "qh_device_addr (mc_async (wd_machine w)) (mm_ptr q) \<noteq> 0"
  shows "reset_inv off (rn, w\<lparr>wd_machine := (wd_machine w)\<lparr>mc_async := h'\<rparr>\<rparr>)"
proof -
  obtain qs where qs: "manager_ok off rn (mc_async (wd_machine w)) qs"
      "{q \<in> set qs. qh_device_addr (mc_async (wd_machine w)) q = 0} = addressing_default rn"
      "0 \<in> used_addrs (rn_addr_allocator rn)"
    using assms(1) by (auto simp: reset_inv_def)
  have h': "h' = inserted_heap off (mm_ptr (anchor_qh (rn_qh_manager rn))) (mm_ptr q) (mc_async (wd_machine w))"
    using add_qh_to_async_list_eq [of q "rn_qh_manager rn" off "mc_async (wd_machine w)"] assms(2,3) qs(1)
    by (simp add: manager_ok_def)
  have "manager_ok off rn h' (mm_ptr q # qs)"
    using qs(1) assms(4) ring_inserted unfolding h' manager_ok_def by blast
  moreover have "{x \<in> set (mm_ptr q # qs). qh_device_addr h' x = 0} = addressing_default rn"
    using qs(2) assms(5) by (auto simp: h' inserted_heap_qh)
  ultimately show ?thesis
    using qs(3) by (intro reset_invI [of off _ _ "mm_ptr q # qs"]) simp_all
qed

lemma update_port_reset_async: "update_port_reset i b w = Inr w' \<Longrightarrow> mc_async (wd_machine w') = mc_async (wd_machine w)"
  by (auto simp: update_port_reset_def obind_eq_Inr_iff)

lemma send_set_address_obtain:
  assumes "send_set_address req (rn, w) = Inr (addr, rn', w')"
  obtains al where "allocate_addr (rn_addr_allocator rn) = (Some addr, al)"
  using assms by (auto simp: send_set_address_def Let_def obind_eq_Inr_iff split: prod.splits)

lemma reset_inv_enabled:
  assumes "reset_inv off (rn, w)" "rn_resetting_device rn = Some rd" "rd_step rd = WaitForPortToBeEnabled f"
    and "request_contract off at rn (mc_async (wd_machine w))"
    and "send_set_address (rd_req rd) (rn, w) = Inr (addr, rn1, w1)"
  shows "reset_inv off (rn1\<lparr>rn_resetting_device := Some (rd\<lparr>rd_step := WaitForSetAddr addr\<rparr>)\<rparr>, w1)"
proof -
  let ?p = "mm_ptr (rdr_qh (rd_req rd))"
  obtain qs where qs: "manager_ok off rn (mc_async (wd_machine w)) qs"
      "{q \<in> set qs. qh_device_addr (mc_async (wd_machine w)) q = 0} = addressing_default rn"
      "0 \<in> used_addrs (rn_addr_allocator rn)"
    using assms(1) by (auto simp: reset_inv_def)
  have c: "reset_resources_ok off at (rn_ctrl_ds_segment rn) (rd_req rd)"
      "?p \<notin> set (mm_ptr (anchor_qh (rn_qh_manager rn)) # qs)"
    using assms(2-4) qs(1) unfolding request_contract_def manager_ok_def by blast+
  obtain al where al: "allocate_addr (rn_addr_allocator rn) = (Some addr, al)"
    using assms(5) by (rule send_set_address_obtain)
  obtain w' where w': "send_set_address (rd_req rd) (rn, w) = Inr (addr, rn\<lparr>rn_addr_allocator := al\<rparr>, w')"
      "qh_device_addr (mc_async (wd_machine w')) ?p = 0"
      "ring off (mc_async (wd_machine w')) (mm_ptr (anchor_qh (rn_qh_manager rn))) (?p # qs)"
      "\<forall>x. x \<noteq> ?p \<longrightarrow> qh_device_addr (mc_async (wd_machine w')) x = qh_device_addr (mc_async (wd_machine w)) x"
    using send_set_address_ok [OF c(1) qs(1) c(2) al] by (auto simp: set_address_sent_def)
  have eq: "rn1 = rn\<lparr>rn_addr_allocator := al\<rparr>" "w1 = w'" using assms(5) w'(1) by simp_all
  have "{q \<in> set qs. qh_device_addr (mc_async (wd_machine w)) q = 0} = {}"
    using qs(2) assms(2,3) by (simp add: addressing_default_def)
  then have "{x \<in> set (?p # qs). qh_device_addr (mc_async (wd_machine w')) x = 0} = {?p}"
    using w'(2,4) c(2) by auto
  moreover have "0 \<in> used_addrs al" using addr_pool.alloc_Some [OF al] qs(3) by auto
  ultimately show ?thesis
    using w'(3) qs(1) unfolding eq
    by (intro reset_invI [of off _ _ "?p # qs"]) (simp_all add: manager_ok_def addressing_default_def)
qed

lemma queue_remove_qh_manager:
  assumes "queue_remove_qh q tx (m, cmd, h) = (m', cmd', h')"
  shows "anchor_qh m' = anchor_qh m" "alm_ctrl_ds_segment m' = alm_ctrl_ds_segment m" "h' = removed_heap (mm_ptr q) h"
  using assms by (auto simp: queue_remove_qh_eq split: if_splits)

lemma reset_inv_remove:
  assumes "reset_inv off (rn, w)" "rn_resetting_device rn = Some rd" "rd_step rd = WaitForSetAddr addr"
    and q: "queue_remove_qh (rdr_qh (rd_req rd)) tx (rn_qh_manager rn, cmd, mc_async (wd_machine w)) = (m', cmd', h')"
    and "mc_async (wd_machine w') = h'"
  shows "reset_inv off (rn\<lparr>rn_qh_manager := m', rn_resetting_device := Some (rd\<lparr>rd_step := WaitForQhRemove addr tx\<rparr>)\<rparr>, w')"
proof -
  let ?p = "mm_ptr (rdr_qh (rd_req rd))"
  note q' = queue_remove_qh_manager [OF q]
  obtain qs where qs: "manager_ok off rn (mc_async (wd_machine w)) qs"
      "{q \<in> set qs. qh_device_addr (mc_async (wd_machine w)) q = 0} = {?p}"
      "0 \<in> used_addrs (rn_addr_allocator rn)"
    using assms(1-3) by (auto simp: reset_inv_def addressing_default_def)
  have p: "?p \<in> set qs" using qs(2) by auto
  have ring: "ring off (mc_async (wd_machine w)) (mm_ptr (anchor_qh (rn_qh_manager rn))) qs"
    using qs(1) by (simp add: manager_ok_def)
  have "ring off h' (mm_ptr (anchor_qh m')) (remove1 ?p qs)"
    using async_ring.invar_del [OF ring p] q' by simp
  moreover have "distinct qs" using ring by (simp add: ring_def)
  then have "{q \<in> set (remove1 ?p qs). qh_device_addr h' q = 0} = {}"
    using qs(2) by (auto simp: q'(3) removed_heap_qh)
  ultimately show ?thesis
    using q'(2) qs(1,3) assms(5)
    by (intro reset_invI [of off _ _ "remove1 ?p qs"]) (simp_all add: manager_ok_def addressing_default_def)
qed

lemma reset_inv_step:
  assumes inv: "reset_inv off (rn, w)" and "request_contract off at rn (mc_async (wd_machine w))"
    and "reset_step aw ww cx elapsed (rn, w) = Inr (b, s')"
  shows "reset_inv off s'"
proof -
  obtain rn' w' where s': "s' = (rn', w')" by (cases s')
  from assms(3) have "reset_step aw ww cx elapsed (rn, w) = Inr (b, rn', w')" by (simp add: s')
  then have "reset_inv off (rn', w')"
  proof (cases rule: reset_step_cases)
    case idle
    with scan_ports_pending [OF idle(2)] show ?thesis by (intro reset_inv_frame [OF inv]) simp_all
  next
    case (accept i req w1 p d)
    with scan_ports_pending [OF accept(3)] update_port_reset_async [OF accept(5)] show ?thesis
      by (intro reset_inv_frame [OF inv]) (simp_all add: addressing_default_def)
  next
    case (gone rd f)
    then show ?thesis
      by (intro reset_inv_frame [OF inv]) (auto simp: addressing_default_def signal_root_res_Inr(2))
  next
    case (over rd f d)
    then show ?thesis
      by (intro reset_inv_frame [OF inv]) (simp_all add: addressing_default_def update_port_reset_async)
  next
    case (slow rd f)
    then show ?thesis
      by (intro reset_inv_frame [OF inv]) (simp_all add: addressing_default_def signal_root_res_Inr(2))
  next
    case (address rd f a rn1)
    then show ?thesis using reset_inv_enabled [OF inv _ _ assms(2)] by blast
  next
    case (remove rd a m cmd h)
    then show ?thesis using reset_inv_remove [OF inv remove(1,3,4), of w'] by simp
  next
    case (deliver rd a rx sh)
    then show ?thesis
      by (intro reset_inv_frame [OF inv]) (simp_all add: addressing_default_def signal_root_res_Inr(2))
  qed (use inv in \<open>auto intro: reset_inv_frame\<close>)
  then show ?thesis by (simp add: s')
qed

lemma reset_reachable_inv:
  "reset_reachable off at aw ww cx elapsed s0 s \<Longrightarrow> reset_inv off s0 \<Longrightarrow> reset_inv off s"
proof (induction rule: reset_reachable.induct)
  case (rr_hw rn w mc')
  then show ?case by (auto intro: reset_inv_frame)
next
  case (rr_tasks rn w w')
  then show ?case by (auto intro: reset_inv_frame)
next
  case (rr_control rn w q h')
  then show ?case by (blast intro: reset_inv_control)
next
  case (rr_step rn w b s')
  then show ?case by (blast intro: reset_inv_step)
qed



subsection \<open>Failures\<close>

lemma signal_root_res_ok:
  assumes "i < length (wd_root_ports w)"
  shows "\<exists>w'. signal_root_res i v w = Inr w'"
  using assms by (auto simp: signal_root_res_def index_list_def split: prod.split)

text \<open>C29: A reset that fails is reported and leaves nothing behind: a device that is gone while its port is in reset or
  waits to become enabled gives \<open>DeviceDisconnected\<close>, a port that is not enabled when its two
  milliseconds are over gives \<open>DeviceIsFullSpeed\<close>, and in both cases the runner is ready for the next
  request, no address is spent, and registers and memory are as before - also the reset bit of a port whose device
  disconnected during the reset, which stays set.\<close>

theorem reset_failures_reported:
  assumes "rn_resetting_device rn = Some rd" "i = unat (rd_root_port rd)"
    and "i < length (port_sc (regs w))" "i < length (wd_root_ports w)"
    and "v = port_sc (regs w) ! i"
    and "(e = DeviceDisconnected \<and> \<not> PortScReg_current_connect_status v
           \<and> (rd_step rd = WaitingToStopReset f \<or> rd_step rd = WaitForPortToBeEnabled f))
       \<or> (e = DeviceIsFullSpeed \<and> PortScReg_current_connect_status v \<and> \<not> PortScReg_port_enabled v
           \<and> rd_step rd = WaitForPortToBeEnabled f \<and> elapsed f (now w))"
  shows "\<exists>w'. reset_step aw ww cx elapsed (rn, w) = Inr (True, rn\<lparr>rn_resetting_device := None\<rparr>, w')
    \<and> root_res_signal (wd_root_ports w' ! i) = SigSignaled (Inl e) \<and> wd_machine w' = wd_machine w"
proof -
  obtain w' where w': "signal_root_res i (Inl e) w = Inr w'" using signal_root_res_ok [OF assms(4)] by blast
  have "reset_step aw ww cx elapsed (rn, w) = Inr (True, rn\<lparr>rn_resetting_device := None\<rparr>, w')"
    using assms(6)
  proof (elim disjE conjE)
    assume "e = DeviceDisconnected" "\<not> PortScReg_current_connect_status v" "rd_step rd = WaitingToStopReset f"
    then show ?thesis
      using assms(1-5) w' by (simp add: reset_step_def waiting_to_stop_reset_def disconnected_def index_list_def Let_def)
  next
    assume "e = DeviceDisconnected" "\<not> PortScReg_current_connect_status v" "rd_step rd = WaitForPortToBeEnabled f"
    then show ?thesis
      using assms(1-5) w' by (simp add: reset_step_def wait_for_port_to_be_enabled_def disconnected_def index_list_def Let_def)
  next
    assume "e = DeviceIsFullSpeed" "PortScReg_current_connect_status v" "\<not> PortScReg_port_enabled v"
      "rd_step rd = WaitForPortToBeEnabled f" "elapsed f (now w)"
    then show ?thesis
      using assms(1-5) w' by (simp add: reset_step_def wait_for_port_to_be_enabled_def index_list_def Let_def)
  qed
  with signal_root_res_Inr [OF w'] show ?thesis by blast
qed

definition example_reset_resources :: reset_device_resources where
  "example_reset_resources = \<lparr>rdr_qh = example_mem 0x80, rdr_qtds = (example_mem 0x100, example_mem 0x200),
     rdr_buffer = example_mem 0x400\<rparr>"

definition example_resetting :: "ResetDeviceStep \<Rightarrow> resetting_device" where
  "example_resetting st = \<lparr>rd_req = example_reset_resources, rd_root_port = 0, rd_step = st\<rparr>"

definition example_running :: "resetting_device option \<Rightarrow> running" where
  "example_running rd = \<lparr>rn_resetting_device = rd, rn_addr_allocator = AddressAllocator_default,
     rn_ctrl_ds_segment = LOWER_4_G, rn_qh_manager = example_manager, rn_devices = Map.empty,
     rn_interrupt_endpoints = [], rn_control_endpoints = [],
     rn_periodic_list_manager = PeriodicListManager_new PeriodicFrameList_EMPTY LOWER_4_G\<rparr>"

text \<open>The example world with the port register \<open>v\<close> and the ring of the anchor alone.\<close>

definition example_port_world :: "port_sc_reg \<Rightarrow> (nat, nat option) world" where
  "example_port_world v = example_world\<lparr>wd_machine := example_machine\<lparr>mc_async := example_heap,
     mc_regs := (mc_regs example_machine)\<lparr>port_sc := [v]\<rparr>\<rparr>\<rparr>"

theorem reset_failures_reported_witness:
  "\<exists>w'. reset_step option_waker (=) 7 (\<le>)
       (example_running (Some (example_resetting (WaitForPortToBeEnabled 2000000))), example_port_world 0x1001)
     = Inr (True, example_running None, w')
    \<and> root_res_signal (wd_root_ports w' ! 0) = SigSignaled (Inl DeviceIsFullSpeed)"
proof -
  let ?rn = "example_running (Some (example_resetting (WaitForPortToBeEnabled 2000000)))"
  let ?w = "example_port_world 0x1001"
  have "\<exists>w'. reset_step option_waker (=) 7 (\<le>) (?rn, ?w) = Inr (True, ?rn\<lparr>rn_resetting_device := None\<rparr>, w')
      \<and> root_res_signal (wd_root_ports w' ! 0) = SigSignaled (Inl DeviceIsFullSpeed) \<and> wd_machine w' = wd_machine ?w"
  proof (rule reset_failures_reported [where f = 2000000])
    show "rn_resetting_device ?rn = Some (example_resetting (WaitForPortToBeEnabled 2000000))"
      by (simp add: example_running_def)
    show "0x1001 = port_sc (regs ?w) ! 0" by (simp add: example_port_world_def)
  qed (simp_all add: example_resetting_def example_port_world_def example_world_def example_machine_def
      bitfield_defs flag_get_def bit_numeral_rec)
  moreover have "?rn\<lparr>rn_resetting_device := None\<rparr> = example_running None" by (simp add: example_running_def)
  ultimately show ?thesis by auto
qed


subsection \<open>Addresses are never returned\<close>

lemma reset_step_allocator:
  assumes "reset_step aw ww cx elapsed (rn, w) = Inr (b, rn', w')"
  shows "rn_addr_allocator rn' = rn_addr_allocator rn
    \<or> (\<exists>a. allocate_addr (rn_addr_allocator rn) = (Some a, rn_addr_allocator rn'))"
  using assms
proof (cases rule: reset_step_cases)
  case (address rd f a rn1)
  then show ?thesis by (auto simp: send_set_address_def Let_def obind_eq_Inr_iff split: prod.splits)
qed simp_all

text \<open>C30: The runner never returns an address to the pool: no step frees one, also when the device is gone or the reset
  is repeated.  Once all 127 have been handed out, the next port that becomes enabled makes the runner
  panic.\<close>

theorem addresses_run_out:
  assumes "reset_step aw ww cx elapsed (rn, w) = r"
  shows "(\<forall>b rn' w'. r = Inr (b, rn', w') \<longrightarrow> used_addrs (rn_addr_allocator rn) \<subseteq> used_addrs (rn_addr_allocator rn'))
    \<and> (\<forall>rd f i. used_addrs (rn_addr_allocator rn) = UNIV \<and> rn_resetting_device rn = Some rd
        \<and> rd_step rd = WaitForPortToBeEnabled f \<and> i = unat (rd_root_port rd) \<and> i < length (port_sc (regs w))
        \<and> PortScReg_current_connect_status (port_sc (regs w) ! i) \<and> PortScReg_port_enabled (port_sc (regs w) ! i)
        \<longrightarrow> r = Inl UnwrapFailed)"
proof (intro conjI allI impI)
  fix b rn' w' assume "r = Inr (b, rn', w')"
  then have "reset_step aw ww cx elapsed (rn, w) = Inr (b, rn', w')" using assms by simp
  from reset_step_allocator [OF this]
  show "used_addrs (rn_addr_allocator rn) \<subseteq> used_addrs (rn_addr_allocator rn')"
    using addr_pool.alloc_Some by fastforce
next
  fix rd f i
  assume a: "used_addrs (rn_addr_allocator rn) = UNIV \<and> rn_resetting_device rn = Some rd
        \<and> rd_step rd = WaitForPortToBeEnabled f \<and> i = unat (rd_root_port rd) \<and> i < length (port_sc (regs w))
        \<and> PortScReg_current_connect_status (port_sc (regs w) ! i) \<and> PortScReg_port_enabled (port_sc (regs w) ! i)"
  obtain x al where al: "allocate_addr (rn_addr_allocator rn) = (x, al)" by fastforce
  have "x = None"
  proof (cases x)
    case (Some y)
    with al a addr_pool.alloc_Some [of "rn_addr_allocator rn" y al] show ?thesis by simp
  qed
  with a al assms show "r = Inl UnwrapFailed"
    by (auto simp: reset_step_def wait_for_port_to_be_enabled_def index_list_def send_set_address_def Let_def)
qed

definition example_exhausted :: "resetting_device option \<Rightarrow> running" where
  "example_exhausted rd = (example_running rd)\<lparr>rn_addr_allocator := \<lparr>allocated_addresses = - 1\<rparr>\<rparr>"

theorem addresses_run_out_witness:
  "reset_step option_waker (=) 7 (\<le>)
      (example_exhausted (Some (example_resetting (WaitForPortToBeEnabled 2000000))), example_port_world 0x1005)
    = Inl UnwrapFailed"
proof -
  let ?rd = "example_resetting (WaitForPortToBeEnabled 2000000)"
  let ?rn = "example_exhausted (Some ?rd)" and ?w = "example_port_world 0x1005"
  have "used_addrs (rn_addr_allocator ?rn) = UNIV"
  proof -
    have "bit (- 1 :: u128) (unat (x :: u7))" for x
      using unsigned_less [of x, where 'a = nat] by simp
    then show ?thesis by (auto simp: example_exhausted_def used_addrs_def)
  qed
  moreover have "rn_resetting_device ?rn = Some ?rd" "rd_step ?rd = WaitForPortToBeEnabled 2000000"
      "0 = unat (rd_root_port ?rd)" "0 < length (port_sc (regs ?w))"
      "PortScReg_current_connect_status (port_sc (regs ?w) ! 0)" "PortScReg_port_enabled (port_sc (regs ?w) ! 0)"
    by (simp_all add: example_exhausted_def example_running_def example_resetting_def example_port_world_def bitfield_defs
        flag_get_def bit_numeral_rec)
  ultimately show ?thesis
    using addresses_run_out [OF refl, of option_waker "(=)" 7 "(\<le>)" ?rn ?w] by blast
qed

subsection \<open>When the loop stops\<close>

definition waits_for :: "('w \<Rightarrow> 'w \<Rightarrow> bool) \<Rightarrow> 'w \<Rightarrow> ('t, 'w) signal_state \<Rightarrow> bool" where
  "waits_for ww cx st \<longleftrightarrow> (\<exists>v. st = SigWaiting v \<and> (v = cx \<or> ww v cx))"

lemma poll_wait_None:
  "Signal_poll_wait ww cx st = (None, st', ws) \<Longrightarrow> waits_for ww cx st'"
  by (cases st) (auto simp: waits_for_def split: if_splits)

lemma scan_ports_None:
  assumes "scan_ports ww cx is w = (None, w')" "\<forall>i \<in> set is. i < length (wd_root_ports w)" "distinct is"
  shows "(\<forall>i \<in> set is. waits_for ww cx (root_req_signal (wd_root_ports w' ! i)))
    \<and> (\<forall>j. j \<notin> set is \<longrightarrow> wd_root_ports w' ! j = wd_root_ports w ! j)"
  using assms
proof (induction "is" arbitrary: w)
  case (Cons i "is")
  obtain c sig ws where p: "Signal_poll_wait ww cx (root_req_signal (wd_root_ports w ! i)) = (c, sig, ws)"
    by (cases "Signal_poll_wait ww cx (root_req_signal (wd_root_ports w ! i))") auto
  let ?w = "upd_root_port i (\<lambda>p. p\<lparr>root_req_signal := sig\<rparr>) ws w"
  have c: "c = None" and sc: "scan_ports ww cx is ?w = (None, w')"
    using Cons.prems(1) p by (auto simp: Let_def split: option.splits)
  have "waits_for ww cx (root_req_signal (wd_root_ports ?w ! i))"
    using p c Cons.prems(2) poll_wait_None by (auto simp: upd_root_port_def)
  moreover have "wd_root_ports ?w ! j = wd_root_ports w ! j" if "j \<noteq> i" for j
    using that by (simp add: upd_root_port_def)
  ultimately show ?case using Cons.IH [OF sc] Cons.prems(2,3) by auto
qed auto

text \<open>What a resetting device waits for.\<close>

definition reset_blocked ::
    "(duration \<Rightarrow> duration \<Rightarrow> bool) \<Rightarrow> resetting_device \<Rightarrow> ('w, 'a) world \<Rightarrow> bool" where
  "reset_blocked elapsed rd w \<longleftrightarrow>
     (case rd_step rd of
        WaitingToStopReset f \<Rightarrow> \<not> elapsed f (now w)
      | WaitForPortToBeEnabled f \<Rightarrow> \<not> elapsed f (now w) \<and> \<not> PortScReg_port_enabled (port_sc (regs w) ! unat (rd_root_port rd))
      | WaitForSetAddr _ \<Rightarrow> TransferToken_active (qtd_token (mc_qtds (wd_machine w) (mm_ptr (snd (rdr_qtds (rd_req rd))))))
      | WaitForQhRemove _ rx \<Rightarrow> \<not> (os_stored (wd_oneshots w rx) \<and> os_cell (wd_oneshots w rx) \<noteq> None))"

definition reset_quiescent ::
    "('w \<Rightarrow> 'w \<Rightarrow> bool) \<Rightarrow> 'w \<Rightarrow> (duration \<Rightarrow> duration \<Rightarrow> bool) \<Rightarrow> ('w, 'a) rstate \<Rightarrow> bool" where
  "reset_quiescent ww cx elapsed = (\<lambda>(rn, w).
     case rn_resetting_device rn of
       None \<Rightarrow> list_all (\<lambda>p. waits_for ww cx (root_req_signal p)) (wd_root_ports w)
     | Some rd \<Rightarrow> reset_blocked elapsed rd w)"

lemma reset_step_stops:
  assumes "reset_step aw ww cx elapsed (rn, w) = Inr (False, rn', w')"
  shows "reset_quiescent ww cx elapsed (rn', w')"
proof (cases "rn_resetting_device rn")
  case None
  obtain r w1 where sc: "scan_ports ww cx [0..<length (wd_root_ports w)] w = (r, w1)" by fastforce
  with assms None have r: "r = None" "rn' = rn" "w' = w1"
    by (auto simp: reset_step_def obind_eq_Inr_iff split: option.splits prod.splits)
  have "length (wd_root_ports w1) = length (wd_root_ports w)" using scan_ports_pending [OF sc] by simp
  with scan_ports_None [OF sc [unfolded r(1)]] None r show ?thesis
    by (auto simp: reset_quiescent_def list_all_length)
next
  case (Some rd)
  let ?i = "unat (rd_root_port rd)"
  have i: "(case rd_step rd of
        WaitingToStopReset f \<Rightarrow> waiting_to_stop_reset elapsed rd ?i f (rn, w)
      | WaitForPortToBeEnabled f \<Rightarrow> wait_for_port_to_be_enabled elapsed rd ?i f (rn, w)
      | WaitForSetAddr addr \<Rightarrow> wait_for_set_addr aw rd addr (rn, w)
      | WaitForQhRemove addr rx \<Rightarrow> wait_for_qh_remove aw cx rd ?i addr rx (rn, w)) = Inr (False, rn', w')"
    using assms Some by (simp add: reset_step_def Let_def split: if_splits)
  show ?thesis
  proof (cases "rd_step rd")
    case (WaitingToStopReset f)
    with i Some show ?thesis
      by (auto simp: reset_quiescent_def reset_blocked_def waiting_to_stop_reset_def obind_eq_Inr_iff
          split: if_splits dest!: disconnected_Inr)
  next
    case (WaitForPortToBeEnabled f)
    with i Some show ?thesis
      by (auto simp: reset_quiescent_def reset_blocked_def wait_for_port_to_be_enabled_def obind_eq_Inr_iff
          split: if_splits dest!: disconnected_Inr)
  next
    case (WaitForSetAddr addr)
    with i Some show ?thesis
      by (auto simp: reset_quiescent_def reset_blocked_def wait_for_set_addr_def Let_def split: if_splits prod.splits)
  next
    case (WaitForQhRemove addr rx)
    obtain r sh where p: "OneshotReceiver_poll aw cx (wd_oneshots w rx) = (r, sh)" by fastforce
    with i WaitForQhRemove have "r = None" "rn' = rn" "w' = w\<lparr>wd_oneshots := (wd_oneshots w)(rx := sh)\<rparr>"
      by (auto simp: wait_for_qh_remove_def Let_def obind_eq_Inr_iff split: if_splits)
    moreover have "\<not> (os_stored sh \<and> os_cell sh \<noteq> None)"
      using p \<open>r = None\<close> by (auto simp: OneshotReceiver_poll_def Let_def split: if_splits)
    ultimately show ?thesis
      using Some WaitForQhRemove by (simp add: reset_quiescent_def reset_blocked_def)
  qed
qed

lemma reset_loop_final:
  "reset_loop aw ww cx elapsed hw k s = Inr s' \<Longrightarrow> \<exists>t. reset_step aw ww cx elapsed t = Inr (False, s')"
proof (induction aw ww cx elapsed hw k s rule: reset_loop.induct)
  case (1 aw ww cx elapsed hw k s)
  show ?case
  proof (cases "reset_step aw ww cx elapsed (with_hw (hw k) s)")
    case (Inl e)
    with "1.prems" show ?thesis by (simp add: reset_loop.simps [of aw ww cx elapsed hw k s])
  next
    case (Inr r)
    obtain b t where r: "r = (b, t)" by (cases r)
    show ?thesis
    proof (cases b)
      case True
      with "1.prems" Inr r have "reset_loop aw ww cx elapsed hw (Suc k) t = Inr s'"
        by (simp add: reset_loop.simps [of aw ww cx elapsed hw k s])
      with "1.IH" Inr r True show ?thesis by simp
    next
      case False
      with "1.prems" Inr r show ?thesis
        by (intro exI [of _ "with_hw (hw k) s"]) (simp add: reset_loop.simps [of aw ww cx elapsed hw k s])
    qed
  qed
qed


end
