(* ===== verification/Running.thy ===== *)
theory Running
  imports Port_Reset
begin

text \<open>
  The poll of the running state and the loop of \<^verbatim>\<open>Runner::run\<close> (\<^verbatim>\<open>runner.rs\<close>), and the construction of the
  driver's parts (\<^verbatim>\<open>stack.rs\<close>).  A poll takes the interrupt flags and passes them on, takes the requests of
  devices and endpoints, and runs the reset loop; it is one atomic step with respect to the other
  tasks, and the hardware acts between the iterations of the reset loop.
\<close>

subsection \<open>Passing interrupts on\<close>

definition signal_device_int :: "nat \<Rightarrow> ('w, 'a) world \<Rightarrow> ('w, 'a) world" where
  "signal_device_int a w =
     (case Signal_signal () (ds_usb_int_signal (wd_devices w a)) of (sig, ws) \<Rightarrow>
        w\<lparr>wd_devices := (wd_devices w)(a := (wd_devices w a)\<lparr>ds_usb_int_signal := sig\<rparr>), wd_woken := wd_woken w @ ws\<rparr>)"

definition signal_interrupt_int :: "nat \<Rightarrow> ('w, 'a) world \<Rightarrow> ('w, 'a) world" where
  "signal_interrupt_int a w =
     (case Signal_signal () (ies_int_signal (wd_interrupt w a)) of (sig, ws) \<Rightarrow>
        w\<lparr>wd_interrupt := (wd_interrupt w)(a := (wd_interrupt w a)\<lparr>ies_int_signal := sig\<rparr>), wd_woken := wd_woken w @ ws\<rparr>)"

definition signal_control_int :: "nat \<Rightarrow> ('w, 'a) world \<Rightarrow> ('w, 'a) world" where
  "signal_control_int a w =
     (case Signal_signal () (ces_int_signal (wd_control_eps w a)) of (sig, ws) \<Rightarrow>
        w\<lparr>wd_control_eps := (wd_control_eps w)(a := (wd_control_eps w a)\<lparr>ces_int_signal := sig\<rparr>), wd_woken := wd_woken w @ ws\<rparr>)"

definition signal_port_changed :: "nat \<Rightarrow> ('w, 'a) world \<Rightarrow> ('w, 'a) world" where
  "signal_port_changed i w =
     (case Signal_signal () (port_changed_signal (wd_root_ports w ! i)) of (sig, ws) \<Rightarrow>
        upd_root_port i (\<lambda>p. p\<lparr>port_changed_signal := sig\<rparr>) ws w)"

text \<open>The values of the map of devices in the order of the keys.\<close>

definition device_arcs :: "running \<Rightarrow> nat list" where
  "device_arcs rn = List.map_filter (\<lambda>i. rn_devices rn (of_nat i)) [0..<16]"

definition dispatch_usb_int :: "running \<Rightarrow> ('w, 'a) world \<Rightarrow> ('w, 'a) world" where
  "dispatch_usb_int rn w =
     fold signal_control_int (rn_control_endpoints rn)
       (fold signal_interrupt_int (rn_interrupt_endpoints rn)
         (fold signal_device_int (device_arcs rn) w))"

definition async_advance :: "('w, 'a) atomic_waker \<Rightarrow> ('w, 'a) rstate \<Rightarrow> ('w, 'a) rstate" where
  "async_advance aw = (\<lambda>(rn, w).
     case handle_async_advance aw (rn_qh_manager rn, usb_cmd (regs w), wd_oneshots w) of (m, cmd, os, ws) \<Rightarrow>
       (rn\<lparr>rn_qh_manager := m\<rparr>,
        (upd_usb_cmd (\<lambda>_. cmd) w)\<lparr>wd_oneshots := os, wd_woken := wd_woken w @ ws\<rparr>))"

definition poll_irq :: "('w, 'a) atomic_waker \<Rightarrow> 'w \<Rightarrow> ('w, 'a) rstate \<Rightarrow> ('w, 'a) rstate" where
  "poll_irq aw cx = (\<lambda>(rn, w).
     let irq = (wd_irq w)\<lparr>runner_waker := aw_register aw cx (runner_waker (wd_irq w))\<rparr>
     in case take_irq_flags irq of ((usb_int, usb_err_int, advanced, port_change), irq') \<Rightarrow>
        let w1 = w\<lparr>wd_irq := irq'\<rparr>;
            w2 = (if usb_int \<or> usb_err_int then dispatch_usb_int rn w1 else w1);
            s3 = (if advanced then async_advance aw (rn, w2) else (rn, w2));
            w4 = (if port_change then fold signal_port_changed [0..<length (wd_root_ports (snd s3))] (snd s3)
                  else snd s3)
        in (fst s3, w4))"

subsection \<open>Taking requests\<close>

primrec ofold :: "('x \<Rightarrow> 's \<Rightarrow> 's outcome) \<Rightarrow> 'x list \<Rightarrow> 's \<Rightarrow> 's outcome" where
  "ofold f [] s = Inr s"
| "ofold f (x # xs) s = obind (f x s) (ofold f xs)"

definition poll_device :: "('w \<Rightarrow> 'w \<Rightarrow> bool) \<Rightarrow> 'w \<Rightarrow> nat \<Rightarrow> ('w, 'a) rstate \<Rightarrow> ('w, 'a) rstate" where
  "poll_device ww cx a = (\<lambda>(rn, w).
     case Signal_poll_wait ww cx (ds_req_signal (wd_devices w a)) of (r, sig, ws) \<Rightarrow>
       let w1 = w\<lparr>wd_devices := (wd_devices w)(a := (wd_devices w a)\<lparr>ds_req_signal := sig\<rparr>), wd_woken := wd_woken w @ ws\<rparr>
       in case r of
            Some req \<Rightarrow> (rn\<lparr>rn_interrupt_endpoints := rn_interrupt_endpoints rn @ [aer_endpoint_shared req]\<rparr>, w1)
          | None \<Rightarrow> (rn, w1))"

definition poll_interrupt_endpoint ::
    "('w, 'a) atomic_waker \<Rightarrow> ('w \<Rightarrow> 'w \<Rightarrow> bool) \<Rightarrow> 'w \<Rightarrow> nat \<Rightarrow> ('w, 'a) rstate \<Rightarrow> ('w, 'a) rstate outcome" where
  "poll_interrupt_endpoint aw ww cx a = (\<lambda>(rn, w).
     case Signal_poll_wait ww cx (ies_req_signal (wd_interrupt w a)) of (r, sig, ws) \<Rightarrow>
       let w1 = w\<lparr>wd_interrupt := (wd_interrupt w)(a := (wd_interrupt w a)\<lparr>ies_req_signal := sig\<rparr>), wd_woken := wd_woken w @ ws\<rparr>
       in case r of
            Some req \<Rightarrow>
              obind (add_qh (aiq_qh req) (aiq_interval req) (rn_periodic_list_manager rn, mc_periodic (wd_machine w1)))
                (\<lambda>(m, h).
                 case OneshotSender_send aw () (wd_oneshots w1 (aiq_callback req)) of (sh, woken) \<Rightarrow>
                   Inr (rn\<lparr>rn_periodic_list_manager := m\<rparr>,
                        w1\<lparr>wd_machine := (wd_machine w1)\<lparr>mc_periodic := h\<rparr>,
                           wd_oneshots := (wd_oneshots w1)(aiq_callback req := sh),
                           wd_woken := wd_woken w1 @ (case woken of None \<Rightarrow> [] | Some x \<Rightarrow> [x])\<rparr>))
          | None \<Rightarrow> Inr (rn, w1))"

definition poll_control_endpoint ::
    "('w \<Rightarrow> 'w \<Rightarrow> bool) \<Rightarrow> 'w \<Rightarrow> nat \<Rightarrow> ('w, 'a) rstate \<Rightarrow> ('w, 'a) rstate outcome" where
  "poll_control_endpoint ww cx a = (\<lambda>(rn, w).
     case Signal_poll_wait ww cx (ces_req_signal (wd_control_eps w a)) of (r, sig, ws) \<Rightarrow>
       let w1 = w\<lparr>wd_control_eps := (wd_control_eps w)(a := (wd_control_eps w a)\<lparr>ces_req_signal := sig\<rparr>), wd_woken := wd_woken w @ ws\<rparr>
       in case r of
            Some q \<Rightarrow>
              obind (add_qh_to_async_list (rn_qh_manager rn) q (mc_async (wd_machine w1))) (\<lambda>h.
              Inr (rn, w1\<lparr>wd_machine := (wd_machine w1)\<lparr>mc_async := h\<rparr>\<rparr>))
          | None \<Rightarrow> Inr (rn, w1))"

definition poll_requests ::
    "('w, 'a) atomic_waker \<Rightarrow> ('w \<Rightarrow> 'w \<Rightarrow> bool) \<Rightarrow> 'w \<Rightarrow> ('w, 'a) rstate \<Rightarrow> ('w, 'a) rstate outcome" where
  "poll_requests aw ww cx s =
     (let s1 = fold (poll_device ww cx) (device_arcs (fst s)) s
      in obind (ofold (poll_interrupt_endpoint aw ww cx) (rn_interrupt_endpoints (fst s1)) s1) (\<lambda>s2.
         ofold (poll_control_endpoint ww cx) (rn_control_endpoints (fst s2)) s2))"

definition running_poll ::
    "('w, 'a) atomic_waker \<Rightarrow> ('w \<Rightarrow> 'w \<Rightarrow> bool) \<Rightarrow> 'w \<Rightarrow> (duration \<Rightarrow> duration \<Rightarrow> bool) \<Rightarrow> (nat \<Rightarrow> machine \<Rightarrow> machine)
      \<Rightarrow> ('w, 'a) rstate \<Rightarrow> ('w, 'a) rstate outcome" where
  "running_poll aw ww cx elapsed hw s =
     obind (poll_requests aw ww cx (poll_irq aw cx s)) (\<lambda>s1.
     reset_loop aw ww cx elapsed hw 0 s1)"

subsection \<open>The loop of the runner\<close>

text \<open>One iteration of the loop in \<^verbatim>\<open>run\<close>: the new state, and whether the loop goes on at once, sleeps until an
  instant, or waits for a waker.\<close>

datatype run_status = Loops | Sleeps duration | Waits

definition run_step ::
    "('w, 'a) atomic_waker \<Rightarrow> ('w \<Rightarrow> 'w \<Rightarrow> bool) \<Rightarrow> 'w \<Rightarrow> (duration \<Rightarrow> duration \<Rightarrow> bool) \<Rightarrow> (nat \<Rightarrow> machine \<Rightarrow> machine)
      \<Rightarrow> RunnerState \<times> ('w, 'a) world \<Rightarrow> (run_status \<times> RunnerState \<times> ('w, 'a) world) outcome" where
  "run_step aw ww cx elapsed hw = (\<lambda>(st, w).
     let settle = (\<lambda>(r, w'). Inr (case r of
                     Continue st' \<Rightarrow> (Loops, st', w')
                   | DelayUntil d \<Rightarrow> (Sleeps d, st, w')
                   | Pending \<Rightarrow> (Waits, st, w')))
     in case st of
          Stopped e \<Rightarrow> settle (run_stopped ww cx w)
        | Stopping t config \<Rightarrow> obind (run_stopping t config w) settle
        | Resetting t config \<Rightarrow> obind (run_resetting t config w) settle
        | Running rn \<Rightarrow> obind (running_poll aw ww cx elapsed hw (rn, w)) (\<lambda>(rn', w').
                          Inr (Waits, Running rn', w')))"

subsection \<open>The stack\<close>

definition Stack_new :: "('w, 'a) atomic_waker \<Rightarrow> machine \<Rightarrow> RunnerState \<times> ('w, 'a) world" where
  "Stack_new aw mc =
     (Runner_new,
      \<lparr>wd_machine = mc, wd_control = ControlSharedState_default,
       wd_root_ports = replicate (unat (HcsParams_n_ports (hcs_params (mc_caps mc)))) RootPortSharedState_default,
       wd_irq = IrqHandlerSharedState_default aw,
       wd_devices = (\<lambda>_. DeviceSharedState_default), wd_interrupt = (\<lambda>_. InterruptEndpointSharedState_default),
       wd_control_eps = (\<lambda>_. ControlEndpointSharedState_default), wd_oneshots = (\<lambda>_. oneshot aw),
       wd_fresh = 0, wd_woken = []\<rparr>)"

subsection \<open>Effects of the signals\<close>

text \<open>
  The contract of an operation that signals the task behind a number: the signal is set, the
  others are as before, and a task that waited there is woken.
\<close>

locale signal_sink =
  fixes send :: "nat \<Rightarrow> 's \<Rightarrow> 's"
    and sig :: "'s \<Rightarrow> nat \<Rightarrow> (unit, 'w) signal_state"
    and woken :: "'s \<Rightarrow> 'w list"
  assumes sig_send: "sig (send a s) b = (if b = a then SigSignaled () else sig s b)"
    and woken_send: "set (woken (send a s)) = set (woken s) \<union> {v. sig s a = SigWaiting v}"
begin

lemma sig_fold: "sig (fold send as s) b = (if b \<in> set as then SigSignaled () else sig s b)"
  by (induction as arbitrary: s) (auto simp: sig_send)

lemma woken_fold: "set (woken (fold send as s)) = set (woken s) \<union> {v. \<exists>a \<in> set as. sig s a = SigWaiting v}"
  by (induction as arbitrary: s) (auto simp: sig_send woken_send)

end

lemma Signal_signal_eq: "Signal_signal v st = (SigSignaled v, case st of SigWaiting x \<Rightarrow> [x] | _ \<Rightarrow> [])"
  by (cases st) simp_all

lemma fold_frame: "(\<And>x s. f (g x s) = f s) \<Longrightarrow> f (fold g xs s) = f s"
  by (induction xs arbitrary: s) simp_all

interpretation device_sink: signal_sink signal_device_int "\<lambda>w a. ds_usb_int_signal (wd_devices w a)" wd_woken
  by unfold_locales (auto simp: signal_device_int_def Signal_signal_eq split: signal_state.split)

interpretation interrupt_sink: signal_sink signal_interrupt_int "\<lambda>w a. ies_int_signal (wd_interrupt w a)" wd_woken
  by unfold_locales (auto simp: signal_interrupt_int_def Signal_signal_eq split: signal_state.split)

interpretation control_sink: signal_sink signal_control_int "\<lambda>w a. ces_int_signal (wd_control_eps w a)" wd_woken
  by unfold_locales (auto simp: signal_control_int_def Signal_signal_eq split: signal_state.split)

lemma signal_device_int_frame [simp]:
  "wd_interrupt (signal_device_int a w) = wd_interrupt w" "wd_control_eps (signal_device_int a w) = wd_control_eps w"
  "ds_req_signal (wd_devices (signal_device_int a w) b) = ds_req_signal (wd_devices w b)"
  "wd_machine (signal_device_int a w) = wd_machine w" "wd_root_ports (signal_device_int a w) = wd_root_ports w"
  "wd_oneshots (signal_device_int a w) = wd_oneshots w" "wd_irq (signal_device_int a w) = wd_irq w" "wd_fresh (signal_device_int a w) = wd_fresh w"
  by (simp_all add: signal_device_int_def split: prod.split)

lemma signal_interrupt_int_frame [simp]:
  "wd_devices (signal_interrupt_int a w) = wd_devices w" "wd_control_eps (signal_interrupt_int a w) = wd_control_eps w"
  "ies_req_signal (wd_interrupt (signal_interrupt_int a w) b) = ies_req_signal (wd_interrupt w b)"
  "wd_machine (signal_interrupt_int a w) = wd_machine w" "wd_root_ports (signal_interrupt_int a w) = wd_root_ports w"
  "wd_oneshots (signal_interrupt_int a w) = wd_oneshots w" "wd_irq (signal_interrupt_int a w) = wd_irq w" "wd_fresh (signal_interrupt_int a w) = wd_fresh w"
  by (simp_all add: signal_interrupt_int_def split: prod.split)

lemma signal_control_int_frame [simp]:
  "wd_devices (signal_control_int a w) = wd_devices w" "wd_interrupt (signal_control_int a w) = wd_interrupt w"
  "ces_req_signal (wd_control_eps (signal_control_int a w) b) = ces_req_signal (wd_control_eps w b)"
  "wd_machine (signal_control_int a w) = wd_machine w" "wd_root_ports (signal_control_int a w) = wd_root_ports w"
  "wd_oneshots (signal_control_int a w) = wd_oneshots w" "wd_irq (signal_control_int a w) = wd_irq w" "wd_fresh (signal_control_int a w) = wd_fresh w"
  by (simp_all add: signal_control_int_def split: prod.split)

text \<open>Who is told of a transfer interrupt: every device and every endpoint the runner knows.\<close>

lemma dispatch_usb_int_effect:
  "ds_usb_int_signal (wd_devices (dispatch_usb_int rn w) a)
     = (if a \<in> set (device_arcs rn) then SigSignaled () else ds_usb_int_signal (wd_devices w a))"
  "ies_int_signal (wd_interrupt (dispatch_usb_int rn w) a)
     = (if a \<in> set (rn_interrupt_endpoints rn) then SigSignaled () else ies_int_signal (wd_interrupt w a))"
  "ces_int_signal (wd_control_eps (dispatch_usb_int rn w) a)
     = (if a \<in> set (rn_control_endpoints rn) then SigSignaled () else ces_int_signal (wd_control_eps w a))"
  "set (wd_woken (dispatch_usb_int rn w)) = set (wd_woken w)
     \<union> {v. \<exists>a \<in> set (device_arcs rn). ds_usb_int_signal (wd_devices w a) = SigWaiting v}
     \<union> {v. \<exists>a \<in> set (rn_interrupt_endpoints rn). ies_int_signal (wd_interrupt w a) = SigWaiting v}
     \<union> {v. \<exists>a \<in> set (rn_control_endpoints rn). ces_int_signal (wd_control_eps w a) = SigWaiting v}"
  by (simp_all add: dispatch_usb_int_def device_sink.sig_fold interrupt_sink.sig_fold control_sink.sig_fold
      control_sink.woken_fold interrupt_sink.woken_fold device_sink.woken_fold
      fold_frame [of wd_devices] fold_frame [of wd_interrupt] fold_frame [of wd_control_eps])

lemma dispatch_usb_int_frame [simp]:
  "wd_machine (dispatch_usb_int rn w) = wd_machine w" "wd_root_ports (dispatch_usb_int rn w) = wd_root_ports w"
  "wd_oneshots (dispatch_usb_int rn w) = wd_oneshots w" "wd_irq (dispatch_usb_int rn w) = wd_irq w"
  "wd_fresh (dispatch_usb_int rn w) = wd_fresh w"
  by (simp_all add: dispatch_usb_int_def fold_frame [of wd_machine] fold_frame [of wd_root_ports]
      fold_frame [of wd_oneshots] fold_frame [of wd_irq] fold_frame [of wd_fresh])

lemma async_advance_frame:
  "wd_devices (snd (async_advance aw (rn, w))) = wd_devices w"
  "wd_interrupt (snd (async_advance aw (rn, w))) = wd_interrupt w"
  "wd_control_eps (snd (async_advance aw (rn, w))) = wd_control_eps w"
  "wd_root_ports (snd (async_advance aw (rn, w))) = wd_root_ports w"
  "wd_fresh (snd (async_advance aw (rn, w))) = wd_fresh w"
  "set (wd_woken w) \<subseteq> set (wd_woken (snd (async_advance aw (rn, w))))"
  by (auto simp: async_advance_def upd_usb_cmd_def upd_regs_def split: prod.split)

lemma signal_port_changed_frame [simp]:
  "wd_devices (signal_port_changed i w) = wd_devices w" "wd_interrupt (signal_port_changed i w) = wd_interrupt w"
  "wd_control_eps (signal_port_changed i w) = wd_control_eps w" "wd_fresh (signal_port_changed i w) = wd_fresh w"
  by (simp_all add: signal_port_changed_def split: prod.split)

lemma signal_port_changed_woken: "set (wd_woken w) \<subseteq> set (wd_woken (signal_port_changed i w))"
  by (auto simp: signal_port_changed_def upd_root_port_def split: prod.split)

lemma fold_port_changed:
  "wd_devices (fold signal_port_changed is w) = wd_devices w"
  "wd_interrupt (fold signal_port_changed is w) = wd_interrupt w"
  "wd_control_eps (fold signal_port_changed is w) = wd_control_eps w"
  "wd_fresh (fold signal_port_changed is w) = wd_fresh w"
  "set (wd_woken w) \<subseteq> set (wd_woken (fold signal_port_changed is w))"
  by (simp_all add: fold_frame [of wd_devices] fold_frame [of wd_interrupt] fold_frame [of wd_control_eps]
      fold_frame [of wd_fresh])
    (induction "is" arbitrary: w, simp, metis (no_types, lifting) fold_simps(2) signal_port_changed_woken subset_trans)

text \<open>A poll that finds a transfer interrupt passes it on.\<close>

lemma poll_irq_dispatches:
  assumes "new_usb_int (wd_irq w) \<or> new_usb_err_int (wd_irq w)" "poll_irq aw cx (rn, w) = (rn', w')"
  shows "a \<in> set (device_arcs rn) \<Longrightarrow> ds_usb_int_signal (wd_devices w' a) = SigSignaled ()"
    and "a \<in> set (rn_interrupt_endpoints rn) \<Longrightarrow> ies_int_signal (wd_interrupt w' a) = SigSignaled ()"
    and "a \<in> set (rn_control_endpoints rn) \<Longrightarrow> ces_int_signal (wd_control_eps w' a) = SigSignaled ()"
    and "a \<in> set (rn_control_endpoints rn) \<Longrightarrow> ces_int_signal (wd_control_eps w a) = SigWaiting v \<Longrightarrow> v \<in> set (wd_woken w')"
    and "a \<in> set (rn_interrupt_endpoints rn) \<Longrightarrow> ies_int_signal (wd_interrupt w a) = SigWaiting v \<Longrightarrow> v \<in> set (wd_woken w')"
proof -
  define irq where "irq = (wd_irq w)\<lparr>runner_waker := aw_register aw cx (runner_waker (wd_irq w))\<rparr>"
  define w2 where "w2 = dispatch_usb_int rn (w\<lparr>wd_irq := snd (take_irq_flags irq)\<rparr>)"
  define s3 where "s3 = (if new_async_advance irq then async_advance aw (rn, w2) else (rn, w2))"
  have w': "w' = (if new_port_change_detect irq then fold signal_port_changed [0..<length (wd_root_ports (snd s3))] (snd s3)
      else snd s3)"
    using assms unfolding poll_irq_def irq_def w2_def s3_def
    by (auto simp: take_irq_flags_def Let_def)
  have eq: "wd_devices w' = wd_devices w2" "wd_interrupt w' = wd_interrupt w2" "wd_control_eps w' = wd_control_eps w2"
    by (simp_all add: w' s3_def fold_port_changed async_advance_frame)
  have sub: "set (wd_woken w2) \<subseteq> set (wd_woken w')"
    using fold_port_changed(5) async_advance_frame(6) [of w2 aw rn] by (fastforce simp: w' s3_def)
  show "ds_usb_int_signal (wd_devices w' a) = SigSignaled ()" if "a \<in> set (device_arcs rn)"
    using that by (simp add: eq w2_def dispatch_usb_int_effect)
  show "ies_int_signal (wd_interrupt w' a) = SigSignaled ()" if "a \<in> set (rn_interrupt_endpoints rn)"
    using that by (simp add: eq w2_def dispatch_usb_int_effect)
  show "ces_int_signal (wd_control_eps w' a) = SigSignaled ()" if "a \<in> set (rn_control_endpoints rn)"
    using that by (simp add: eq w2_def dispatch_usb_int_effect)
  show "v \<in> set (wd_woken w')"
    if "a \<in> set (rn_control_endpoints rn)" "ces_int_signal (wd_control_eps w a) = SigWaiting v"
    using that sub by (auto simp: w2_def dispatch_usb_int_effect)
  show "v \<in> set (wd_woken w')"
    if "a \<in> set (rn_interrupt_endpoints rn)" "ies_int_signal (wd_interrupt w a) = SigWaiting v"
    using that sub by (auto simp: w2_def dispatch_usb_int_effect)
qed

subsection \<open>Endpoints of new devices\<close>

lemma poll_irq_control:
  assumes "poll_irq aw cx (rn, w) = (rn', w')"
  shows "rn_control_endpoints rn' = rn_control_endpoints rn"
proof -
  have "rn_control_endpoints (fst (async_advance aw (rn, v))) = rn_control_endpoints rn" for v
    by (simp add: async_advance_def split: prod.split)
  with assms show ?thesis by (auto simp: poll_irq_def take_irq_flags_def Let_def split: if_splits)
qed

lemma ofold_frame:
  assumes "ofold f xs s = Inr s'" "\<And>x s s'. f x s = Inr s' \<Longrightarrow> g s' = g s"
  shows "g s' = g s"
  using assms(1) by (induction xs arbitrary: s) (auto simp: obind_eq_Inr_iff dest: assms(2))

lemma poll_requests_control:
  assumes "poll_requests aw ww cx s = Inr s'"
  shows "rn_control_endpoints (fst s') = rn_control_endpoints (fst s)"
proof -
  let ?g = "\<lambda>s :: ('a, 'b) rstate. rn_control_endpoints (fst s)"
  have d: "?g (poll_device ww cx a t) = ?g t" for a t
    by (cases t) (simp add: poll_device_def Let_def split: prod.split option.split)
  have i: "?g t' = ?g t" if "poll_interrupt_endpoint aw ww cx a t = Inr t'" for a t t'
    using that by (cases t) (auto simp: poll_interrupt_endpoint_def Let_def obind_eq_Inr_iff case_prod_beta split: option.splits)
  have c: "?g t' = ?g t" if "poll_control_endpoint ww cx a t = Inr t'" for a t t'
    using that by (cases t) (auto simp: poll_control_endpoint_def Let_def obind_eq_Inr_iff split: prod.splits option.splits)
  obtain s2 where s2: "ofold (poll_interrupt_endpoint aw ww cx)
        (rn_interrupt_endpoints (fst (fold (poll_device ww cx) (device_arcs (fst s)) s)))
        (fold (poll_device ww cx) (device_arcs (fst s)) s) = Inr s2"
      "ofold (poll_control_endpoint ww cx) (rn_control_endpoints (fst s2)) s2 = Inr s'"
    using assms by (auto simp: poll_requests_def Let_def obind_eq_Inr_iff)
  have "?g s' = ?g s2" by (rule ofold_frame [OF s2(2), of ?g]) (rule c)
  also have "\<dots> = ?g (fold (poll_device ww cx) (device_arcs (fst s)) s)" by (rule ofold_frame [OF s2(1), of ?g]) (rule i)
  also have "\<dots> = ?g s" by (rule fold_frame) (rule d)
  finally show ?thesis .
qed

lemma scan_ports_frame:
  "scan_ports ww cx is v = (r, v') \<Longrightarrow> wd_control_eps v' = wd_control_eps v \<and> wd_fresh v' = wd_fresh v"
  by (induction "is" arbitrary: v) (auto simp: Let_def split: prod.splits option.splits)

lemma update_port_reset_frame:
  assumes "update_port_reset i x v = Inr v'"
  shows "wd_control_eps v' = wd_control_eps v" "wd_fresh v' = wd_fresh v" "wd_interrupt v' = wd_interrupt v"
    "wd_woken v' = wd_woken v"
  using update_port_reset_Inr(4) [OF assms] by (simp_all add: upd_regs_def)

lemma send_set_address_frame:
  assumes "send_set_address req (rn, w) = Inr (a, rn', w')"
  shows "wd_control_eps w' = wd_control_eps w" "wd_interrupt w' = wd_interrupt w" "regs w' = regs w"
    and "mc_periodic (wd_machine w') = mc_periodic (wd_machine w)" "wd_fresh w' = wd_fresh w" "wd_woken w' = wd_woken w"
    and "rn_control_endpoints rn' = rn_control_endpoints rn"
  using assms by (auto simp: send_set_address_def Let_def obind_eq_Inr_iff split: prod.splits)

lemma reset_step_endpoints:
  assumes "reset_step aw ww cx elapsed (rn, w) = Inr (b, rn', w')"
  shows "(rn_control_endpoints rn' = rn_control_endpoints rn \<and> wd_control_eps w' = wd_control_eps w \<and> wd_fresh w \<le> wd_fresh w')
    \<or> (rn_control_endpoints rn' = rn_control_endpoints rn @ [Suc (wd_fresh w)]
       \<and> wd_control_eps w' = (wd_control_eps w)(Suc (wd_fresh w) := ControlEndpointSharedState_default)
       \<and> wd_fresh w' = Suc (Suc (wd_fresh w)))"
  using assms
proof (cases rule: reset_step_cases)
  case (accept i req w1 p d)
  then show ?thesis using scan_ports_frame [OF accept(3)] update_port_reset_frame [OF accept(5)] by simp
next
  case (deliver rd a rx sh)
  then show ?thesis using signal_root_res_Inr(6,9) [OF deliver(4)] by simp
qed (auto simp: scan_ports_frame update_port_reset_frame send_set_address_frame signal_root_res_Inr(6,9))

text \<open>Endpoints beyond those in \<open>old\<close> are fresh: nobody has polled or signalled them.\<close>

definition new_endpoints_fresh :: "nat list \<Rightarrow> ('w, 'a) rstate \<Rightarrow> bool" where
  "new_endpoints_fresh old = (\<lambda>(rn, w).
     \<forall>a \<in> set (rn_control_endpoints rn) - set old.
       a < wd_fresh w \<and> wd_control_eps w a = ControlEndpointSharedState_default)"

lemma new_endpoints_fresh_step:
  assumes "reset_step aw ww cx elapsed s = Inr (b, s')" "new_endpoints_fresh old s"
  shows "new_endpoints_fresh old s'"
proof -
  obtain rn w rn' w' where s: "s = (rn, w)" "s' = (rn', w')" by (cases s; cases s')
  show ?thesis
    using reset_step_endpoints [OF assms(1) [unfolded s]] assms(2)
    unfolding s new_endpoints_fresh_def by (elim disjE) (auto dest: less_le_trans intro: less_SucI)
qed

lemma new_endpoints_fresh_loop:
  "reset_loop aw ww cx elapsed hw k s = Inr s' \<Longrightarrow> new_endpoints_fresh old s \<Longrightarrow> new_endpoints_fresh old s'"
proof (induction aw ww cx elapsed hw k s rule: reset_loop.induct)
  case (1 aw ww cx elapsed hw k s)
  have hw: "new_endpoints_fresh old (with_hw (hw k) s)"
    using "1.prems"(2) by (simp add: new_endpoints_fresh_def with_hw_def case_prod_beta)
  show ?case
  proof (cases "reset_step aw ww cx elapsed (with_hw (hw k) s)")
    case (Inl e)
    with "1.prems" show ?thesis by (simp add: reset_loop.simps [of aw ww cx elapsed hw k s])
  next
    case (Inr r)
    obtain b t where r: "r = (b, t)" by (cases r)
    have t: "new_endpoints_fresh old t" using new_endpoints_fresh_step [OF Inr [unfolded r] hw] .
    show ?thesis
    proof (cases b)
      case True
      with "1.prems" Inr r have "reset_loop aw ww cx elapsed hw (Suc k) t = Inr s'"
        by (simp add: reset_loop.simps [of aw ww cx elapsed hw k s])
      with "1.IH" Inr r True t show ?thesis by simp
    next
      case False
      with "1.prems" Inr r t show ?thesis
        by (simp add: reset_loop.simps [of aw ww cx elapsed hw k s])
    qed
  qed
qed

text \<open>C34: The control endpoint of a device whose reset completes in a poll is not listened to when that poll ends: it is
  added to the list behind the loop that polls the endpoints, so its request signal holds no waker, and
  when the user loads the device, the request wakes nobody.  The runner sees it only when something
  else wakes it.\<close>

theorem new_endpoint_wakes_nobody:
  assumes "running_poll aw ww cx elapsed hw (rn, w) = Inr (rn', w')"
    and "a \<in> set (rn_control_endpoints rn')" "a \<notin> set (rn_control_endpoints rn)"
    and "ControlEndpoint_load ep m (mc_async (wd_machine w'), wd_control_eps w' a) = Inr (ep', (h', sh'), woken)"
  shows "woken = [] \<and> signal_content (ces_req_signal sh') = Some m"
proof -
  obtain s1 where s1: "poll_requests aw ww cx (poll_irq aw cx (rn, w)) = Inr s1"
      "reset_loop aw ww cx elapsed hw 0 s1 = Inr (rn', w')"
    using assms(1) by (auto simp: running_poll_def obind_eq_Inr_iff)
  have "rn_control_endpoints (fst s1) = rn_control_endpoints rn"
    using poll_requests_control [OF s1(1)] poll_irq_control [of aw cx rn w] by (metis prod.collapse)
  then have "new_endpoints_fresh (rn_control_endpoints rn) s1"
    by (cases s1) (simp add: new_endpoints_fresh_def)
  from new_endpoints_fresh_loop [OF s1(2) this] assms(2,3)
  have "wd_control_eps w' a = ControlEndpointSharedState_default"
    by (auto simp: new_endpoints_fresh_def)
  with assms(4) show ?thesis
    by (auto simp: ControlEndpoint_load_def obind_eq_Inr_iff Let_def ControlEndpointSharedState_default_def Signal_default_def)
qed

text \<open>A device on port 0 whose queue head has just been removed.\<close>

definition example_removed_world :: "(nat, nat option) world" where
  "example_removed_world = (example_port_world 0x1005)\<lparr>wd_fresh := 5,
     wd_oneshots := \<lambda>_. \<lparr>os_stored = True, os_cell = Some (), os_waker = None, os_sender_alive = False\<rparr>\<rparr>"

definition example_removing :: running where
  "example_removing = example_running (Some (example_resetting (WaitForQhRemove 1 4)))"

lemma example_removed_poll:
  "\<exists>rn' w'. running_poll option_waker (=) 7 (\<le>) (\<lambda>_. id) (example_removing, example_removed_world) = Inr (rn', w')
     \<and> rn_control_endpoints rn' = [6]"
proof -
  let ?w = "snd (poll_irq option_waker 7 (example_removing, example_removed_world))"
  have irq: "poll_irq option_waker 7 (example_removing, example_removed_world)
      = (example_removing, example_removed_world\<lparr>wd_irq := (wd_irq example_removed_world)\<lparr>runner_waker := Some 7\<rparr>\<rparr>)"
    by (simp add: poll_irq_def take_irq_flags_def Let_def example_removed_world_def example_port_world_def
        example_world_def IrqHandlerSharedState_default_def option_waker_def)
  have req: "poll_requests option_waker (=) 7 (example_removing, ?w) = Inr (example_removing, ?w)"
    by (simp add: poll_requests_def device_arcs_def example_removing_def example_running_def map_filter_def)
  have "\<exists>rn' w'. reset_loop option_waker (=) 7 (\<le>) (\<lambda>_. id) 0 (example_removing, ?w) = Inr (rn', w')
      \<and> rn_control_endpoints rn' = [6]"
    unfolding irq
    by (subst reset_loop.simps)
      (simp add: with_hw_def reset_step_def example_removing_def example_running_def example_resetting_def
        example_removed_world_def example_port_world_def example_world_def wait_for_qh_remove_def Let_def
        OneshotReceiver_poll_def option_waker_def signal_root_res_def index_list_def RootPortSharedState_default_def
        Signal_default_def upd_root_port_def reset_loop.simps)
  with req irq show ?thesis by (simp add: running_poll_def)
qed

theorem new_endpoint_wakes_nobody_witness:
  "\<exists>rn' w'. running_poll option_waker (=) 7 (\<le>) (\<lambda>_. id) (example_removing, example_removed_world) = Inr (rn', w')
     \<and> (\<exists>ep' h' sh'. ControlEndpoint_load \<lparr>ce_device_address = 1, ce_endpoint_number = 0, ce_ctrl_ds_segment = LOWER_4_G\<rparr>
          (example_mem 0x80) (mc_async (wd_machine w'), wd_control_eps w' 6) = Inr (ep', (h', sh'), []))"
proof -
  let ?ep = "\<lparr>ce_device_address = 1, ce_endpoint_number = 0, ce_ctrl_ds_segment = LOWER_4_G\<rparr>"
  obtain rn' w' where p: "running_poll option_waker (=) 7 (\<le>) (\<lambda>_. id) (example_removing, example_removed_world) = Inr (rn', w')"
      "rn_control_endpoints rn' = [6]"
    using example_removed_poll by blast
  obtain ep' h' sh' woken where l: "ControlEndpoint_load ?ep (example_mem 0x80)
      (mc_async (wd_machine w'), wd_control_eps w' 6) = Inr (ep', (h', sh'), woken)"
    by (cases "Signal_signal (example_mem 0x80) (ces_req_signal (wd_control_eps w' 6))")
      (simp add: ControlEndpoint_load_def control_qh_def uint_new_def Let_def)
  have "6 \<in> set (rn_control_endpoints rn')" "6 \<notin> set (rn_control_endpoints example_removing)"
    using p(2) by (simp_all add: example_removing_def example_running_def)
  from new_endpoint_wakes_nobody [OF p(1) this l] p(1) l show ?thesis by auto
qed

end
