(* ===== verification/Interrupt_Path.thy ===== *)
theory Interrupt_Path
  imports Running
begin

text \<open>
  The way of an interrupt from the controller to the task that waits for it: the interrupt handler
  (\<^verbatim>\<open>irq_handler.rs\<close>) stores the event and wakes the runner, the runner's poll (\<^verbatim>\<open>runner.rs\<close>) passes it to the signals of the endpoints, and
  the endpoint's task (\<^verbatim>\<open>control_endpoint.rs\<close>, \<^verbatim>\<open>interrupt_endpoint.rs\<close>) reads its descriptor again.  The parts are those of the
  theories \<open>Irq_Handler\<close>, \<open>Running\<close> and \<open>Control_Endpoint\<close>; here they are put together.  The
  same way leads from a port change to the task in \<^verbatim>\<open>wait_until_connected\<close> (\<^verbatim>\<open>root_port.rs\<close>).
\<close>

subsection \<open>The handler on the whole state\<close>

definition irq :: "('w, 'a) atomic_waker \<Rightarrow> ('w, 'a) world \<Rightarrow> ('w, 'a) world" where
  "irq aw w =
     (case handle_irq aw (usb_sts (regs w)) (wd_irq w) of (sh, v, woken) \<Rightarrow>
        (upd_regs (\<lambda>r. r\<lparr>usb_sts := usb_sts_hw_write v (usb_sts r)\<rparr>) w)
          \<lparr>wd_irq := sh, wd_woken := wd_woken w @ (case woken of None \<Rightarrow> [] | Some x \<Rightarrow> [x])\<rparr>)"

subsection \<open>What the rest of a poll keeps\<close>

text \<open>The rest of the poll forgets no waker it called and takes back no interrupt signal of an endpoint in use.\<close>

definition keeps_signals :: "('w, 'a) rstate \<Rightarrow> ('w, 'a) rstate \<Rightarrow> bool" where
  "keeps_signals = (\<lambda>(rn, w) (rn', w').
     wd_fresh w \<le> wd_fresh w' \<and> set (wd_woken w) \<subseteq> set (wd_woken w')
     \<and> (\<forall>a < wd_fresh w. ces_int_signal (wd_control_eps w' a) = ces_int_signal (wd_control_eps w a))
     \<and> (\<forall>a. ies_int_signal (wd_interrupt w' a) = ies_int_signal (wd_interrupt w a))
     \<and> map port_changed_signal (wd_root_ports w') = map port_changed_signal (wd_root_ports w))"

lemma keeps_signals_refl [simp]: "keeps_signals s s"
  by (simp add: keeps_signals_def case_prod_beta)

lemma keeps_signals_trans [trans]: "keeps_signals s t \<Longrightarrow> keeps_signals t u \<Longrightarrow> keeps_signals s u"
  by (fastforce simp: keeps_signals_def case_prod_beta)

lemma keeps_signals_fold: "(\<And>x s. keeps_signals s (f x s)) \<Longrightarrow> keeps_signals s (fold f xs s)"
proof (induction xs arbitrary: s)
  case (Cons x xs)
  have "keeps_signals s (f x s)" by (rule Cons.prems)
  also have "keeps_signals (f x s) (fold f xs (f x s))" using Cons.prems by (rule Cons.IH)
  finally show ?case by simp
qed simp

lemma keeps_signals_ofold:
  assumes f: "\<And>x s s'. f x s = Inr s' \<Longrightarrow> keeps_signals s s'" and "ofold f xs s = Inr s'"
  shows "keeps_signals s s'"
  using assms(2)
proof (induction xs arbitrary: s)
  case (Cons x xs)
  then obtain t where t: "f x s = Inr t" "ofold f xs t = Inr s'" by (auto simp: obind_eq_Inr_iff)
  from f [OF t(1)] Cons.IH [OF t(2)] show ?case by (rule keeps_signals_trans)
qed simp

lemma keeps_signals_poll_device: "keeps_signals s (poll_device ww cx a s)"
  by (cases s) (simp add: poll_device_def keeps_signals_def Let_def split: prod.split option.split)

lemma keeps_signals_poll_interrupt_endpoint:
  "poll_interrupt_endpoint aw ww cx a s = Inr s' \<Longrightarrow> keeps_signals s s'"
  by (cases s) (auto simp: poll_interrupt_endpoint_def keeps_signals_def Let_def obind_eq_Inr_iff case_prod_beta
      split: option.splits)

lemma keeps_signals_poll_control_endpoint:
  "poll_control_endpoint ww cx a s = Inr s' \<Longrightarrow> keeps_signals s s'"
  by (cases s) (auto simp: poll_control_endpoint_def keeps_signals_def Let_def obind_eq_Inr_iff
      split: prod.splits option.splits)

lemma keeps_signals_poll_requests:
  assumes "poll_requests aw ww cx s = Inr s'"
  shows "keeps_signals s s'"
proof -
  define s1 where "s1 = fold (poll_device ww cx) (device_arcs (fst s)) s"
  obtain s2 where s2: "ofold (poll_interrupt_endpoint aw ww cx) (rn_interrupt_endpoints (fst s1)) s1 = Inr s2"
      "ofold (poll_control_endpoint ww cx) (rn_control_endpoints (fst s2)) s2 = Inr s'"
    using assms by (auto simp: poll_requests_def Let_def obind_eq_Inr_iff s1_def)
  have "keeps_signals s s1" unfolding s1_def by (rule keeps_signals_fold) (rule keeps_signals_poll_device)
  also have "keeps_signals s1 s2" using keeps_signals_poll_interrupt_endpoint s2(1) by (rule keeps_signals_ofold)
  also have "keeps_signals s2 s'" using keeps_signals_poll_control_endpoint s2(2) by (rule keeps_signals_ofold)
  finally show ?thesis .
qed

lemma map_update_same: "f (g (xs ! i)) = f (xs ! i) \<Longrightarrow> map f (xs[i := g (xs ! i)]) = map f xs"
  by (cases "i < length xs") (simp_all add: map_update list_update_same_conv list_update_beyond)

lemma signal_root_res_keeps:
  assumes "signal_root_res i v w = Inr w'"
  shows "set (wd_woken w) \<subseteq> set (wd_woken w') \<and> wd_interrupt w' = wd_interrupt w
    \<and> map port_changed_signal (wd_root_ports w') = map port_changed_signal (wd_root_ports w)"
  using assms by (auto simp: signal_root_res_def obind_eq_Inr_iff upd_root_port_def map_update_same split: prod.splits)

lemma scan_ports_keeps:
  "scan_ports ww cx is v = (r, v') \<Longrightarrow> set (wd_woken v) \<subseteq> set (wd_woken v') \<and> wd_interrupt v' = wd_interrupt v
    \<and> map port_changed_signal (wd_root_ports v') = map port_changed_signal (wd_root_ports v)"
proof (induction "is" arbitrary: v)
  case (Cons i "is")
  obtain c sig ws where p: "Signal_poll_wait ww cx (root_req_signal (wd_root_ports v ! i)) = (c, sig, ws)"
    by (cases "Signal_poll_wait ww cx (root_req_signal (wd_root_ports v ! i))") auto
  with Cons.prems Cons.IH [of "upd_root_port i (\<lambda>p. p\<lparr>root_req_signal := sig\<rparr>) ws v"] show ?case
    by (cases c) (auto simp: upd_root_port_def map_update_same)
qed simp

lemma reset_step_woken:
  assumes "reset_step aw ww cx elapsed (rn, w) = Inr (b, rn', w')"
  shows "set (wd_woken w) \<subseteq> set (wd_woken w') \<and> wd_interrupt w' = wd_interrupt w
    \<and> map port_changed_signal (wd_root_ports w') = map port_changed_signal (wd_root_ports w)"
  using assms
proof (cases rule: reset_step_cases)
  case (accept i req w1 p d)
  then show ?thesis
    using scan_ports_keeps [OF accept(3)] update_port_reset_frame [OF accept(5)] update_port_reset_Inr(1) [OF accept(5)] by simp
next
  case (deliver rd a rx sh)
  then show ?thesis using signal_root_res_keeps [OF deliver(4)] by simp
qed (auto simp: update_port_reset_frame update_port_reset_Inr(1) send_set_address_frame send_set_address_Inr(1)
    dest: scan_ports_keeps signal_root_res_keeps)

lemma keeps_signals_reset_step:
  assumes "reset_step aw ww cx elapsed s = Inr (b, s')"
  shows "keeps_signals s s'"
proof -
  obtain rn w rn' w' where s: "s = (rn, w)" "s' = (rn', w')" by (cases s; cases s')
  show ?thesis
    using reset_step_endpoints [OF assms [unfolded s]] reset_step_woken [OF assms [unfolded s]]
    unfolding s keeps_signals_def by auto
qed

lemma keeps_signals_hw: "keeps_signals (with_hw hw s) s' \<longleftrightarrow> keeps_signals s s'"
  by (simp add: keeps_signals_def with_hw_def case_prod_beta)

lemma keeps_signals_reset_loop:
  "reset_loop aw ww cx elapsed hw k s = Inr s' \<Longrightarrow> keeps_signals s s'"
proof (induction aw ww cx elapsed hw k s rule: reset_loop.induct)
  case (1 aw ww cx elapsed hw k s)
  then obtain b t where st: "reset_step aw ww cx elapsed (with_hw (hw k) s) = Inr (b, t)"
    by (cases "reset_step aw ww cx elapsed (with_hw (hw k) s)") (auto simp: reset_loop.simps [of aw ww cx elapsed hw k s])
  have kt: "keeps_signals s t" using keeps_signals_reset_step [OF st] by (simp add: keeps_signals_hw)
  show ?case
  proof (cases b)
    case True
    with "1.prems" st have "reset_loop aw ww cx elapsed hw (Suc k) t = Inr s'"
      by (simp add: reset_loop.simps [of aw ww cx elapsed hw k s])
    with "1.IH" st True have "keeps_signals t s'" by simp
    with kt show ?thesis by (rule keeps_signals_trans)
  next
    case False
    with "1.prems" st kt show ?thesis by (simp add: reset_loop.simps [of aw ww cx elapsed hw k s])
  qed
qed

lemma running_poll_keeps:
  assumes "running_poll aw ww cx elapsed hw s = Inr s'"
  shows "keeps_signals (poll_irq aw cx s) s'"
proof -
  obtain s1 where "poll_requests aw ww cx (poll_irq aw cx s) = Inr s1" "reset_loop aw ww cx elapsed hw 0 s1 = Inr s'"
    using assms by (auto simp: running_poll_def obind_eq_Inr_iff)
  then show ?thesis using keeps_signals_trans keeps_signals_poll_requests keeps_signals_reset_loop by metis
qed

subsection \<open>From the controller to the task\<close>

lemma irq_effect:
  assumes "atomic_waker_ok aw" "runner_waker (wd_irq w) = aw_register aw cx wk"
  shows "set (wd_woken (irq aw w)) = insert cx (set (wd_woken w))"
    and "new_usb_int (wd_irq (irq aw w)) \<longleftrightarrow> new_usb_int (wd_irq w) \<or> bit (usb_sts (regs w)) 0"
    and "new_usb_err_int (wd_irq (irq aw w)) \<longleftrightarrow> new_usb_err_int (wd_irq w) \<or> bit (usb_sts (regs w)) 1"
    and "wd_control_eps (irq aw w) = wd_control_eps w" "wd_interrupt (irq aw w) = wd_interrupt w"
    and "wd_fresh (irq aw w) = wd_fresh w"
proof -
  obtain wk' where "aw_wake aw (aw_register aw cx wk) = (Some cx, wk')"
    using assms(1) by (cases "aw_wake aw (aw_register aw cx wk)") (auto simp: atomic_waker_ok_def, metis fst_conv)
  then show "set (wd_woken (irq aw w)) = insert cx (set (wd_woken w))"
    "new_usb_int (wd_irq (irq aw w)) \<longleftrightarrow> new_usb_int (wd_irq w) \<or> bit (usb_sts (regs w)) 0"
    "new_usb_err_int (wd_irq (irq aw w)) \<longleftrightarrow> new_usb_err_int (wd_irq w) \<or> bit (usb_sts (regs w)) 1"
    "wd_control_eps (irq aw w) = wd_control_eps w" "wd_interrupt (irq aw w) = wd_interrupt w"
    "wd_fresh (irq aw w) = wd_fresh w"
    using assms(2) by (auto simp: irq_def handle_irq_def irq_store_def bitfield_defs flag_get_def upd_regs_def)
qed

lemma fold_port_changed_signal:
  assumes "i \<in> set is" "i < length (wd_root_ports w)"
  shows "port_changed_signal (wd_root_ports (fold signal_port_changed is w) ! i) = SigSignaled ()
    \<and> length (wd_root_ports (fold signal_port_changed is w)) = length (wd_root_ports w)
    \<and> (port_changed_signal (wd_root_ports w ! i) = SigWaiting v \<longrightarrow> v \<in> set (wd_woken (fold signal_port_changed is w)))"
proof -
  have step: "length (wd_root_ports (signal_port_changed j u)) = length (wd_root_ports u)
      \<and> (i < length (wd_root_ports u) \<longrightarrow> port_changed_signal (wd_root_ports (signal_port_changed j u) ! i)
          = (if i = j then SigSignaled () else port_changed_signal (wd_root_ports u ! i)))
      \<and> (port_changed_signal (wd_root_ports u ! j) = SigWaiting v \<longrightarrow> v \<in> set (wd_woken (signal_port_changed j u)))"
    for j and u :: "('a, 'b) world"
    by (auto simp: signal_port_changed_def Signal_signal_eq upd_root_port_def)
  have "length (wd_root_ports (fold signal_port_changed is u)) = length (wd_root_ports u)
      \<and> port_changed_signal (wd_root_ports (fold signal_port_changed is u) ! i)
          = (if i \<in> set is then SigSignaled () else port_changed_signal (wd_root_ports u ! i))
      \<and> (i \<in> set is \<and> port_changed_signal (wd_root_ports u ! i) = SigWaiting v
          \<longrightarrow> v \<in> set (wd_woken (fold signal_port_changed is u)))"
    if "i < length (wd_root_ports u)" for u :: "('a, 'b) world"
    using that
  proof (induction "is" arbitrary: u)
    case (Cons j "is")
    note ih = Cons.IH [of "signal_port_changed j u"]
    have "set (wd_woken (signal_port_changed j u)) \<subseteq> set (wd_woken (fold signal_port_changed is (signal_port_changed j u)))"
      by (rule fold_port_changed(5))
    with ih step [of j u] Cons.prems show ?case by (auto split: if_splits)
  qed simp
  with assms show ?thesis by simp
qed

lemma poll_irq_port_change:
  assumes "new_port_change_detect (wd_irq w)" "poll_irq aw cx (rn, w) = (rn', w')" "i < length (wd_root_ports w)"
  shows "length (wd_root_ports w') = length (wd_root_ports w)
    \<and> port_changed_signal (wd_root_ports w' ! i) = SigSignaled ()
    \<and> (port_changed_signal (wd_root_ports w ! i) = SigWaiting v \<longrightarrow> v \<in> set (wd_woken w'))"
proof -
  define sh where "sh = (wd_irq w)\<lparr>runner_waker := aw_register aw cx (runner_waker (wd_irq w))\<rparr>"
  define w1 where "w1 = w\<lparr>wd_irq := snd (take_irq_flags sh)\<rparr>"
  define w2 where "w2 = (if new_usb_int sh \<or> new_usb_err_int sh then dispatch_usb_int rn w1 else w1)"
  define u where "u = snd (if new_async_advance sh then async_advance aw (rn, w2) else (rn, w2))"
  have "wd_root_ports u = wd_root_ports w" by (simp add: u_def w2_def w1_def async_advance_frame)
  moreover have "w' = fold signal_port_changed [0..<length (wd_root_ports u)] u"
    using assms(1,2) unfolding u_def w2_def w1_def sh_def poll_irq_def
    by (auto simp: take_irq_flags_def Let_def)
  ultimately show ?thesis
    using fold_port_changed_signal [of i "[0..<length (wd_root_ports u)]" u v] assms(3) by simp
qed

lemma poll_irq_fresh: "poll_irq aw cx (rn, w) = (rn', w') \<Longrightarrow> wd_fresh w' = wd_fresh w"
  by (auto simp: poll_irq_def take_irq_flags_def Let_def fold_port_changed async_advance_frame split: if_splits)

text \<open>C2: A completed transfer reaches the task that waits for it.  Let the runner wait with its waker \<open>cx\<close>
  registered, a task with waker \<open>v\<close> wait for the interrupt signal of a control endpoint the runner knows, and the controller raise the
  interrupt or the error interrupt of a transfer.  Then the handler wakes the runner; the poll
  that follows wakes the task; and when the task polls again and the descriptor is no longer active, its wait is over.\<close>

theorem completion_interrupt_reaches_waiter:
  assumes "atomic_waker_ok aw" "runner_waker (wd_irq w) = aw_register aw cx wk"
    and "UsbStsReg_usb_int (usb_sts (regs w)) \<or> UsbStsReg_usb_err_int (usb_sts (regs w))"
    and "a \<in> set (rn_control_endpoints rn)" "a < wd_fresh w" "ces_int_signal (wd_control_eps w a) = SigWaiting v"
    and "running_poll aw ww cx elapsed hw (rn, irq aw w) = Inr (rn', w')"
  shows "cx \<in> set (wd_woken (irq aw w)) \<and> v \<in> set (wd_woken w')
    \<and> ces_int_signal (wd_control_eps w' a) = SigSignaled ()
    \<and> (\<forall>active. \<not> active 0 \<or> \<not> active (Suc 0)
        \<longrightarrow> fst (wait_for_qtd_complete_poll ww v active 0 (ces_int_signal (wd_control_eps w' a))))"
proof -
  note i = irq_effect [OF assms(1,2)]
  obtain rn1 w1 where p: "poll_irq aw cx (rn, irq aw w) = (rn1, w1)" by fastforce
  have "new_usb_int (wd_irq (irq aw w)) \<or> new_usb_err_int (wd_irq (irq aw w))"
    using assms(3) by (auto simp: i(2,3) bitfield_defs flag_get_def)
  note d = poll_irq_dispatches [OF this p]
  have "ces_int_signal (wd_control_eps w1 a) = SigSignaled ()" "v \<in> set (wd_woken w1)"
    using d(3,4) assms(4,6) i(4) by auto
  moreover have "keeps_signals (rn1, w1) (rn', w')" using running_poll_keeps [OF assms(7)] p by simp
  moreover have "a < wd_fresh w1" using assms(5) poll_irq_fresh [OF p] i(6) by simp
  ultimately have r: "ces_int_signal (wd_control_eps w' a) = SigSignaled ()" "v \<in> set (wd_woken w')"
    by (auto simp: keeps_signals_def)
  have "fst (wait_for_qtd_complete_poll ww v active 0 (SigSignaled ()))" if "\<not> active 0 \<or> \<not> active (Suc 0)" for active
    using that by (simp add: wait_for_qtd_complete_poll.simps)
  with r i(1) show ?thesis by auto
qed

definition example_waiting_world :: "(nat, nat option) world" where
  "example_waiting_world = (example_port_world 0x1005)
     \<lparr>wd_machine := (wd_machine (example_port_world 0x1005))\<lparr>mc_regs := (mc_regs (wd_machine (example_port_world 0x1005)))\<lparr>usb_sts := 1\<rparr>\<rparr>,
      wd_irq := (IrqHandlerSharedState_default option_waker)\<lparr>runner_waker := Some 7\<rparr>, wd_fresh := 1,
      wd_control_eps := (\<lambda>_. \<lparr>ces_req_signal = SigWaiting 7, ces_int_signal = SigWaiting 9\<rparr>)\<rparr>"

definition example_waiting :: running where
  "example_waiting = (example_running None)\<lparr>rn_control_endpoints := [0]\<rparr>"

lemma example_waiting_poll:
  "\<exists>w'. running_poll option_waker (=) 7 (\<le>) (\<lambda>_. id) (example_waiting, irq option_waker example_waiting_world)
     = Inr (example_waiting, w')"
proof -
  let ?w = "snd (poll_irq option_waker 7 (example_waiting, irq option_waker example_waiting_world))"
  have irq: "poll_irq option_waker 7 (example_waiting, irq option_waker example_waiting_world) = (example_waiting, ?w)"
    "wd_control_eps ?w 0 = \<lparr>ces_req_signal = SigWaiting 7, ces_int_signal = SigSignaled ()\<rparr>"
    "wd_root_ports ?w = [RootPortSharedState_default]"
    by (simp_all add: irq_def handle_irq_def irq_store_def poll_irq_def take_irq_flags_def Let_def example_waiting_def
        example_running_def example_waiting_world_def example_port_world_def example_world_def
        IrqHandlerSharedState_default_def option_waker_def upd_regs_def bitfield_defs flag_get_def
        dispatch_usb_int_def device_arcs_def map_filter_def signal_control_int_def example_machine_def)
  have "\<exists>w1. poll_requests option_waker (=) 7 (example_waiting, ?w) = Inr (example_waiting, w1)
      \<and> wd_root_ports w1 = [RootPortSharedState_default]"
    using irq(2,3) by (simp add: poll_requests_def device_arcs_def example_waiting_def example_running_def map_filter_def
        poll_control_endpoint_def Let_def)
  moreover have "\<exists>w'. reset_loop option_waker (=) 7 (\<le>) (\<lambda>_. id) 0 (example_waiting, w1) = Inr (example_waiting, w')"
    if "wd_root_ports w1 = [RootPortSharedState_default]" for w1 :: "(nat, nat option) world"
    using that by (subst reset_loop.simps)
      (simp add: with_hw_def reset_step_def example_waiting_def example_running_def RootPortSharedState_default_def
        Signal_default_def Let_def)
  ultimately show ?thesis using irq(1) by (fastforce simp: running_poll_def)
qed

theorem completion_interrupt_reaches_waiter_witness:
  "\<exists>w'. running_poll option_waker (=) 7 (\<le>) (\<lambda>_. id) (example_waiting, irq option_waker example_waiting_world)
       = Inr (example_waiting, w')
     \<and> 7 \<in> set (wd_woken (irq option_waker example_waiting_world)) \<and> 9 \<in> set (wd_woken w')"
proof -
  obtain w' where p: "running_poll option_waker (=) 7 (\<le>) (\<lambda>_. id) (example_waiting, irq option_waker example_waiting_world)
       = Inr (example_waiting, w')" using example_waiting_poll by blast
  have "atomic_waker_ok option_waker" by (simp add: atomic_waker_ok_def option_waker_def)
  from completion_interrupt_reaches_waiter [OF this _ _ _ _ _ p, of None 0 9] p show ?thesis
    by (auto simp: example_waiting_def example_running_def example_waiting_world_def option_waker_def bitfield_defs flag_get_def)
qed

text \<open>C15: A device that is plugged in reaches the task that waits for it.  Let the runner wait with its waker \<open>cx\<close> registered, a task with
  waker \<open>v\<close> wait for a change of root port \<open>i\<close>, and the controller report a port change.  Then the handler wakes the runner, the poll that follows wakes
  the task, and \<open>wait_until_connected\<close> returns when the task then reads that the port is connected.\<close>

theorem port_change_reaches_waiter:
  assumes "atomic_waker_ok aw" "runner_waker (wd_irq w) = aw_register aw cx wk"
    and "UsbStsReg_port_change_detect (usb_sts (regs w))"
    and "i < length (wd_root_ports w)" "port_changed_signal (wd_root_ports w ! i) = SigWaiting v"
    and "running_poll aw ww cx elapsed hw (rn, irq aw w) = Inr (rn', w')"
  shows "cx \<in> set (wd_woken (irq aw w)) \<and> v \<in> set (wd_woken w')
    \<and> (\<forall>connected. connected 0 \<or> connected (Suc 0)
        \<longrightarrow> fst (wait_until_connected_poll ww v connected (port_changed_signal (wd_root_ports w' ! i))))"
proof -
  note irq = irq_effect [OF assms(1,2)]
  obtain rn1 w1 where p: "poll_irq aw cx (rn, irq aw w) = (rn1, w1)" by fastforce
  have "new_port_change_detect (wd_irq (irq aw w))" "wd_root_ports (irq aw w) = wd_root_ports w"
    using assms(3) by (auto simp: irq_def handle_irq_def irq_store_def upd_regs_def split: prod.split)
  with poll_irq_port_change [OF _ p, of i v] assms(4,5)
  have "i < length (wd_root_ports w1)" "port_changed_signal (wd_root_ports w1 ! i) = SigSignaled ()" "v \<in> set (wd_woken w1)"
    by simp_all
  moreover have k: "keeps_signals (rn1, w1) (rn', w')" using running_poll_keeps [OF assms(6)] p by simp
  then have "length (wd_root_ports w') = length (wd_root_ports w1)"
      "map port_changed_signal (wd_root_ports w') ! i = map port_changed_signal (wd_root_ports w1) ! i"
    by (auto simp: keeps_signals_def dest: map_eq_imp_length_eq)
  ultimately have r: "port_changed_signal (wd_root_ports w' ! i) = SigSignaled ()" "v \<in> set (wd_woken w')"
    using k by (auto simp: keeps_signals_def)
  have "fst (wait_until_connected_poll ww v connected (SigSignaled ()))" if "connected 0 \<or> connected (Suc 0)" for connected
    using that by (auto simp: wait_until_connected_poll_def wait_for_qtd_complete_poll.simps)
  with r irq(1) show ?thesis by auto
qed

definition example_plugged_world :: "(nat, nat option) world" where
  "example_plugged_world = example_waiting_world
     \<lparr>wd_machine := (wd_machine example_waiting_world)\<lparr>mc_regs := (mc_regs (wd_machine example_waiting_world))\<lparr>usb_sts := 4\<rparr>\<rparr>,
      wd_root_ports := [RootPortSharedState_default\<lparr>port_changed_signal := SigWaiting 5\<rparr>]\<rparr>"

lemma example_plugged_poll:
  "\<exists>w'. running_poll option_waker (=) 7 (\<le>) (\<lambda>_. id) (example_running None, irq option_waker example_plugged_world)
     = Inr (example_running None, w')"
proof -
  let ?w = "snd (poll_irq option_waker 7 (example_running None, irq option_waker example_plugged_world))"
  have irq: "poll_irq option_waker 7 (example_running None, irq option_waker example_plugged_world) = (example_running None, ?w)"
    "wd_root_ports ?w = [RootPortSharedState_default\<lparr>port_changed_signal := SigSignaled ()\<rparr>]"
    by (simp_all add: irq_def handle_irq_def irq_store_def poll_irq_def take_irq_flags_def Let_def example_plugged_world_def
        example_waiting_world_def example_port_world_def example_world_def IrqHandlerSharedState_default_def option_waker_def
        upd_regs_def bitfield_defs flag_get_def example_machine_def signal_port_changed_def upd_root_port_def
        bit_numeral_rec)
  have req: "poll_requests option_waker (=) 7 (example_running None, ?w) = Inr (example_running None, ?w)"
    by (simp add: poll_requests_def device_arcs_def example_running_def map_filter_def)
  have "\<exists>w'. reset_loop option_waker (=) 7 (\<le>) (\<lambda>_. id) 0 (example_running None, ?w) = Inr (example_running None, w')"
    using irq(2) by (subst reset_loop.simps)
      (simp add: with_hw_def reset_step_def example_running_def RootPortSharedState_default_def Signal_default_def Let_def)
  with req irq(1) show ?thesis by (simp add: running_poll_def)
qed

theorem port_change_reaches_waiter_witness:
  "\<exists>w'. running_poll option_waker (=) 7 (\<le>) (\<lambda>_. id) (example_running None, irq option_waker example_plugged_world)
       = Inr (example_running None, w')
     \<and> 7 \<in> set (wd_woken (irq option_waker example_plugged_world)) \<and> 5 \<in> set (wd_woken w')"
proof -
  obtain w' where p: "running_poll option_waker (=) 7 (\<le>) (\<lambda>_. id) (example_running None, irq option_waker example_plugged_world)
       = Inr (example_running None, w')" using example_plugged_poll by blast
  have "atomic_waker_ok option_waker" by (simp add: atomic_waker_ok_def option_waker_def)
  from port_change_reaches_waiter [OF this _ _ _ _ p, of None 0 5] p show ?thesis
    by (auto simp: example_plugged_world_def example_waiting_world_def option_waker_def bitfield_defs flag_get_def bit_numeral_rec)
qed

end
