(* ===== verification/Legacy_Handoff.thy ===== *)
theory Legacy_Handoff
  imports Running
begin

text \<open>
  Finding the controller's legacy support capability and taking the controller over from the BIOS
  (\<^verbatim>\<open>new_ehci.rs\<close>, \<^verbatim>\<open>usb_leg_sup.rs\<close>, \<^verbatim>\<open>pci.rs\<close> and the iterator of \<^verbatim>\<open>lib.rs\<close>).  The user's implementation of \<^verbatim>\<open>PciAccess\<close> is
  the argument \<open>pci\<close>, a record of its four operations on a state; \<open>config_space_ok\<close> says that it accesses
  the bytes of a configuration space.  A capability list may be a cycle, so its traversal is a
  partial function: \<open>None\<close> is an iteration that never ends.
\<close>

subsection \<open>Registers\<close>

type_synonym extended_capability_pointer_reg = u32

definition ExtendedCapabilityPointerReg_capability_id :: "extended_capability_pointer_reg \<Rightarrow> u8" where [bitfield_defs]:
  "ExtendedCapabilityPointerReg_capability_id = bits_get 0"

definition ExtendedCapabilityPointerReg_next_cap_pointer :: "extended_capability_pointer_reg \<Rightarrow> u8" where [bitfield_defs]:
  "ExtendedCapabilityPointerReg_next_cap_pointer = bits_get 8"

definition ExtendedCapabilityPointerReg_capability_specific :: "extended_capability_pointer_reg \<Rightarrow> u16" where [bitfield_defs]:
  "ExtendedCapabilityPointerReg_capability_specific = bits_get 16"

definition ExtendedCapabilityPointerReg_with_capability_specific :: "u16 \<Rightarrow> extended_capability_pointer_reg \<Rightarrow> extended_capability_pointer_reg" where [bitfield_defs]:
  "ExtendedCapabilityPointerReg_with_capability_specific = bits_set 16"

type_synonym usb_leg_sup_reg = u32

definition UsbLegSupReg_bios_owned_semaphore :: "usb_leg_sup_reg \<Rightarrow> bool" where [bitfield_defs]:
  "UsbLegSupReg_bios_owned_semaphore = flag_get 16"

definition UsbLegSupReg_os_owned_semaphor :: "usb_leg_sup_reg \<Rightarrow> bool" where [bitfield_defs]:
  "UsbLegSupReg_os_owned_semaphor = flag_get 24"

definition UsbLegSupReg_with_os_owned_semaphor :: "bool \<Rightarrow> usb_leg_sup_reg \<Rightarrow> usb_leg_sup_reg" where [bitfield_defs]:
  "UsbLegSupReg_with_os_owned_semaphor = flag_set 24"

type_synonym usb_leg_ctl_sts_reg = u32

definition UsbLegCtlStsReg_usb_smi_enable :: "usb_leg_ctl_sts_reg \<Rightarrow> bool" where [bitfield_defs]:
  "UsbLegCtlStsReg_usb_smi_enable = flag_get 0"

definition UsbLegCtlStsReg_with_usb_smi_enable :: "bool \<Rightarrow> usb_leg_ctl_sts_reg \<Rightarrow> usb_leg_ctl_sts_reg" where [bitfield_defs]:
  "UsbLegCtlStsReg_with_usb_smi_enable = flag_set 0"

definition UsbLegCtlStsReg_smi_on_usb_error_enable :: "usb_leg_ctl_sts_reg \<Rightarrow> bool" where [bitfield_defs]:
  "UsbLegCtlStsReg_smi_on_usb_error_enable = flag_get 1"

definition UsbLegCtlStsReg_with_smi_on_usb_error_enable :: "bool \<Rightarrow> usb_leg_ctl_sts_reg \<Rightarrow> usb_leg_ctl_sts_reg" where [bitfield_defs]:
  "UsbLegCtlStsReg_with_smi_on_usb_error_enable = flag_set 1"

definition UsbLegCtlStsReg_smi_on_port_change_enable :: "usb_leg_ctl_sts_reg \<Rightarrow> bool" where [bitfield_defs]:
  "UsbLegCtlStsReg_smi_on_port_change_enable = flag_get 2"

definition UsbLegCtlStsReg_with_smi_on_port_change_enable :: "bool \<Rightarrow> usb_leg_ctl_sts_reg \<Rightarrow> usb_leg_ctl_sts_reg" where [bitfield_defs]:
  "UsbLegCtlStsReg_with_smi_on_port_change_enable = flag_set 2"

definition UsbLegCtlStsReg_smi_on_frame_list_rollover_enable :: "usb_leg_ctl_sts_reg \<Rightarrow> bool" where [bitfield_defs]:
  "UsbLegCtlStsReg_smi_on_frame_list_rollover_enable = flag_get 3"

definition UsbLegCtlStsReg_with_smi_on_frame_list_rollover_enable :: "bool \<Rightarrow> usb_leg_ctl_sts_reg \<Rightarrow> usb_leg_ctl_sts_reg" where [bitfield_defs]:
  "UsbLegCtlStsReg_with_smi_on_frame_list_rollover_enable = flag_set 3"

definition UsbLegCtlStsReg_smi_on_host_system_error_enable :: "usb_leg_ctl_sts_reg \<Rightarrow> bool" where [bitfield_defs]:
  "UsbLegCtlStsReg_smi_on_host_system_error_enable = flag_get 4"

definition UsbLegCtlStsReg_with_smi_on_host_system_error_enable :: "bool \<Rightarrow> usb_leg_ctl_sts_reg \<Rightarrow> usb_leg_ctl_sts_reg" where [bitfield_defs]:
  "UsbLegCtlStsReg_with_smi_on_host_system_error_enable = flag_set 4"

definition UsbLegCtlStsReg_smi_on_async_event_enable :: "usb_leg_ctl_sts_reg \<Rightarrow> bool" where [bitfield_defs]:
  "UsbLegCtlStsReg_smi_on_async_event_enable = flag_get 5"

definition UsbLegCtlStsReg_with_smi_on_async_event_enable :: "bool \<Rightarrow> usb_leg_ctl_sts_reg \<Rightarrow> usb_leg_ctl_sts_reg" where [bitfield_defs]:
  "UsbLegCtlStsReg_with_smi_on_async_event_enable = flag_set 5"

definition UsbLegCtlStsReg_smi_on_os_ownership_enable :: "usb_leg_ctl_sts_reg \<Rightarrow> bool" where [bitfield_defs]:
  "UsbLegCtlStsReg_smi_on_os_ownership_enable = flag_get 13"

definition UsbLegCtlStsReg_with_smi_on_os_ownership_enable :: "bool \<Rightarrow> usb_leg_ctl_sts_reg \<Rightarrow> usb_leg_ctl_sts_reg" where [bitfield_defs]:
  "UsbLegCtlStsReg_with_smi_on_os_ownership_enable = flag_set 13"

definition UsbLegCtlStsReg_smi_on_pci_command_enable :: "usb_leg_ctl_sts_reg \<Rightarrow> bool" where [bitfield_defs]:
  "UsbLegCtlStsReg_smi_on_pci_command_enable = flag_get 14"

definition UsbLegCtlStsReg_with_smi_on_pci_command_enable :: "bool \<Rightarrow> usb_leg_ctl_sts_reg \<Rightarrow> usb_leg_ctl_sts_reg" where [bitfield_defs]:
  "UsbLegCtlStsReg_with_smi_on_pci_command_enable = flag_set 14"

definition UsbLegCtlStsReg_smi_on_bar_enable :: "usb_leg_ctl_sts_reg \<Rightarrow> bool" where [bitfield_defs]:
  "UsbLegCtlStsReg_smi_on_bar_enable = flag_get 15"

definition UsbLegCtlStsReg_with_smi_on_bar_enable :: "bool \<Rightarrow> usb_leg_ctl_sts_reg \<Rightarrow> usb_leg_ctl_sts_reg" where [bitfield_defs]:
  "UsbLegCtlStsReg_with_smi_on_bar_enable = flag_set 15"

definition UsbLegCtlStsReg_smi_on_usb_complete :: "usb_leg_ctl_sts_reg \<Rightarrow> bool" where [bitfield_defs]:
  "UsbLegCtlStsReg_smi_on_usb_complete = flag_get 16"

definition UsbLegCtlStsReg_smi_on_usb_error :: "usb_leg_ctl_sts_reg \<Rightarrow> bool" where [bitfield_defs]:
  "UsbLegCtlStsReg_smi_on_usb_error = flag_get 17"

definition UsbLegCtlStsReg_smi_on_port_change_detect :: "usb_leg_ctl_sts_reg \<Rightarrow> bool" where [bitfield_defs]:
  "UsbLegCtlStsReg_smi_on_port_change_detect = flag_get 18"

definition UsbLegCtlStsReg_smi_on_frame_list_rollover :: "usb_leg_ctl_sts_reg \<Rightarrow> bool" where [bitfield_defs]:
  "UsbLegCtlStsReg_smi_on_frame_list_rollover = flag_get 19"

definition UsbLegCtlStsReg_smi_on_host_system_error :: "usb_leg_ctl_sts_reg \<Rightarrow> bool" where [bitfield_defs]:
  "UsbLegCtlStsReg_smi_on_host_system_error = flag_get 20"

definition UsbLegCtlStsReg_smi_on_async_advance :: "usb_leg_ctl_sts_reg \<Rightarrow> bool" where [bitfield_defs]:
  "UsbLegCtlStsReg_smi_on_async_advance = flag_get 21"

definition UsbLegCtlStsReg_smi_on_os_ownership :: "usb_leg_ctl_sts_reg \<Rightarrow> bool" where [bitfield_defs]:
  "UsbLegCtlStsReg_smi_on_os_ownership = flag_get 29"

definition UsbLegCtlStsReg_with_smi_on_os_ownership :: "bool \<Rightarrow> usb_leg_ctl_sts_reg \<Rightarrow> usb_leg_ctl_sts_reg" where [bitfield_defs]:
  "UsbLegCtlStsReg_with_smi_on_os_ownership = flag_set 29"

definition UsbLegCtlStsReg_smi_on_pci_command :: "usb_leg_ctl_sts_reg \<Rightarrow> bool" where [bitfield_defs]:
  "UsbLegCtlStsReg_smi_on_pci_command = flag_get 30"

definition UsbLegCtlStsReg_with_smi_on_pci_command :: "bool \<Rightarrow> usb_leg_ctl_sts_reg \<Rightarrow> usb_leg_ctl_sts_reg" where [bitfield_defs]:
  "UsbLegCtlStsReg_with_smi_on_pci_command = flag_set 30"

definition UsbLegCtlStsReg_smi_on_bar :: "usb_leg_ctl_sts_reg \<Rightarrow> bool" where [bitfield_defs]:
  "UsbLegCtlStsReg_smi_on_bar = flag_get 31"

definition UsbLegCtlStsReg_with_smi_on_bar :: "bool \<Rightarrow> usb_leg_ctl_sts_reg \<Rightarrow> usb_leg_ctl_sts_reg" where [bitfield_defs]:
  "UsbLegCtlStsReg_with_smi_on_bar = flag_set 31"

definition PCI_CLASS :: u8 where "PCI_CLASS = 0x0C"

definition PCI_SUBCLASS :: u8 where "PCI_SUBCLASS = 0x03"

definition PCI_PROG_IF :: u8 where "PCI_PROG_IF = 0x20"

subsection \<open>The capability list\<close>

record 'p pci_access =
  pci_read_u32 :: "u8 \<Rightarrow> 'p \<Rightarrow> u32 \<times> 'p"
  pci_write_u8 :: "u8 \<Rightarrow> u8 \<Rightarrow> 'p \<Rightarrow> 'p"
  pci_write_u16 :: "u8 \<Rightarrow> u16 \<Rightarrow> 'p \<Rightarrow> 'p"
  pci_write_u32 :: "u8 \<Rightarrow> u32 \<Rightarrow> 'p \<Rightarrow> 'p"

text \<open>\<^verbatim>\<open>NonZero::new\<close>; an optional nonzero value is an option.\<close>

definition nonzero :: "u8 \<Rightarrow> u8 option" where
  "nonzero v = (if v = 0 then None else Some v)"

record capability_info =
  cap_offset :: u8
  cap_id :: u8

type_synonym 'p ext_cap_iter = "'p \<times> u8 option"

definition ExtendedCapabilitiesIterator_new :: "'p \<Rightarrow> capability_regs \<Rightarrow> 'p ext_cap_iter" where
  "ExtendedCapabilitiesIterator_new p caps = (p, nonzero (HccParams_eecp (hcc_params caps)))"

definition ext_cap_next :: "'p pci_access \<Rightarrow> 'p ext_cap_iter \<Rightarrow> capability_info option \<times> 'p ext_cap_iter" where
  "ext_cap_next pci = (\<lambda>(p, capability_pointer).
     case capability_pointer of
       None \<Rightarrow> (None, p, None)
     | Some ptr \<Rightarrow>
         (case pci_read_u32 pci ptr p of (capability_reg, p') \<Rightarrow>
            (Some \<lparr>cap_offset = ptr, cap_id = ExtendedCapabilityPointerReg_capability_id capability_reg\<rparr>,
             p', nonzero (ExtendedCapabilityPointerReg_next_cap_pointer capability_reg))))"

text \<open>\<^verbatim>\<open>for extended_capability in iterator\<close>: the capabilities logged, and the state afterwards.\<close>

partial_function (option) log_capabilities ::
    "'p pci_access \<Rightarrow> 'p ext_cap_iter \<Rightarrow> (capability_info list \<times> 'p) option" where
  "log_capabilities pci it =
     (case ext_cap_next pci it of
        (None, it') \<Rightarrow> Some ([], fst it')
      | (Some c, it') \<Rightarrow> Option.bind (log_capabilities pci it') (\<lambda>(cs, p). Some (c # cs, p)))"

definition UsbLegSup :: u8 where
  "UsbLegSup = 0x1"

text \<open>\<^verbatim>\<open>find_map\<close> stops at the first match.\<close>

partial_function (option) find_usb_leg_sup ::
    "'p pci_access \<Rightarrow> 'p ext_cap_iter \<Rightarrow> (u8 option \<times> 'p) option" where
  "find_usb_leg_sup pci it =
     (case ext_cap_next pci it of
        (None, it') \<Rightarrow> Some (None, fst it')
      | (Some c, it') \<Rightarrow>
          (if cap_id c = UsbLegSup then Some (Some (cap_offset c), fst it')
           else find_usb_leg_sup pci it'))"

subsection \<open>Ownership\<close>

record 'p bios_owned_ehci =
  bo_machine :: machine
  bo_pci_access :: 'p
  bo_usb_leg_sup_offset :: u8

record 'p taking_ownership_ehci =
  to_machine :: machine
  to_pci_access :: 'p
  to_usb_leg_sup_offset :: u8

type_synonym ('w, 'a) stack = "RunnerState \<times> ('w, 'a) world"

datatype ('p, 'w, 'a) AnyEhci = BiosOwned "'p bios_owned_ehci" | OsOwned "('w, 'a) stack"

datatype ('p, 'w, 'a) TryTakeOutput = NotYet "'p taking_ownership_ehci" | Taken "('w, 'a) stack"

definition new_ehci ::
    "('w, 'a) atomic_waker \<Rightarrow> 'p pci_access \<Rightarrow> machine \<Rightarrow> 'p \<Rightarrow> ('p, 'w, 'a) AnyEhci option" where
  "new_ehci aw pci mapped_bar p =
     Option.bind (log_capabilities pci (ExtendedCapabilitiesIterator_new p (mc_caps mapped_bar))) (\<lambda>(_, p1).
     Option.bind (find_usb_leg_sup pci (ExtendedCapabilitiesIterator_new p1 (mc_caps mapped_bar))) (\<lambda>(r, p2).
     case r of
       Some usb_leg_sup_offset \<Rightarrow>
         Some (BiosOwned \<lparr>bo_machine = mapped_bar, bo_pci_access = p2, bo_usb_leg_sup_offset = usb_leg_sup_offset\<rparr>)
     | None \<Rightarrow> Some (OsOwned (Stack_new aw mapped_bar))))"

definition take_ownership :: "'p pci_access \<Rightarrow> 'p bios_owned_ehci \<Rightarrow> 'p taking_ownership_ehci outcome" where
  "take_ownership pci e =
     obind (checked_add (bo_usb_leg_sup_offset e) 3) (\<lambda>offset.
     Inr \<lparr>to_machine = bo_machine e, to_pci_access = pci_write_u8 pci offset 0x1 (bo_pci_access e),
          to_usb_leg_sup_offset = bo_usb_leg_sup_offset e\<rparr>)"

definition try_take ::
    "('w, 'a) atomic_waker \<Rightarrow> 'p pci_access \<Rightarrow> 'p taking_ownership_ehci \<Rightarrow> ('p, 'w, 'a) TryTakeOutput" where
  "try_take aw pci e =
     (case pci_read_u32 pci (to_usb_leg_sup_offset e) (to_pci_access e) of (reg, p') \<Rightarrow>
        if UsbLegSupReg_bios_owned_semaphore reg
        then NotYet (e\<lparr>to_pci_access := p'\<rparr>)
        else Taken (Stack_new aw (to_machine e)))"

subsection \<open>Traversing the list\<close>

text \<open>
  \<open>val p off\<close> is the register at the offset \<open>off\<close> of the configuration space in the state \<open>p\<close>: a read returns
  it and changes nothing, and a byte written at \<open>off + 3\<close> is the top byte of the register.
\<close>

definition config_space_ok :: "'p pci_access \<Rightarrow> ('p \<Rightarrow> u8 \<Rightarrow> u32) \<Rightarrow> bool" where
  "config_space_ok pci val \<longleftrightarrow>
     (\<forall>off p. fst (pci_read_u32 pci off p) = val p off \<and> val (snd (pci_read_u32 pci off p)) = val p)
     \<and> (\<forall>off v p. val (pci_write_u8 pci (off + 3) v p) off = bits_set 24 v (val p off))"

inductive cap_list :: "(u8 \<Rightarrow> u32) \<Rightarrow> u8 option \<Rightarrow> capability_info list \<Rightarrow> bool" for rd where
  cap_end: "cap_list rd None []"
| cap_entry: "cap_list rd (nonzero (ExtendedCapabilityPointerReg_next_cap_pointer (rd ptr))) cs \<Longrightarrow>
     cap_list rd (Some ptr) (\<lparr>cap_offset = ptr, cap_id = ExtendedCapabilityPointerReg_capability_id (rd ptr)\<rparr> # cs)"

inductive_simps cap_list_None: "cap_list rd None cs"

lemma ext_cap_next_Some:
  assumes "config_space_ok pci val"
  obtains p' where "ext_cap_next pci (p, Some ptr)
      = (Some \<lparr>cap_offset = ptr, cap_id = ExtendedCapabilityPointerReg_capability_id (val p ptr)\<rparr>,
         p', nonzero (ExtendedCapabilityPointerReg_next_cap_pointer (val p ptr)))" "val p' = val p"
  using assms by (cases "pci_read_u32 pci ptr p") (auto simp: config_space_ok_def ext_cap_next_def, metis fst_conv snd_conv)

lemma log_capabilities_finds:
  assumes ok: "config_space_ok pci val" and "cap_list rd ptr cs" "val p = rd"
  shows "\<exists>p'. log_capabilities pci (p, ptr) = Some (cs, p') \<and> val p' = rd"
  using assms(2,3)
proof (induction arbitrary: p)
  case cap_end
  then show ?case by (subst log_capabilities.simps) (simp add: ext_cap_next_def)
next
  case (cap_entry ptr cs)
  obtain p1 where p1: "ext_cap_next pci (p, Some ptr)
      = (Some \<lparr>cap_offset = ptr, cap_id = ExtendedCapabilityPointerReg_capability_id (val p ptr)\<rparr>,
         p1, nonzero (ExtendedCapabilityPointerReg_next_cap_pointer (val p ptr)))" "val p1 = val p"
    using ext_cap_next_Some [OF ok] by blast
  from cap_entry.IH [of p1] p1(2) cap_entry.prems obtain p2 where
      "log_capabilities pci (p1, nonzero (ExtendedCapabilityPointerReg_next_cap_pointer (val p ptr))) = Some (cs, p2)" "val p2 = rd"
    by auto
  with p1 cap_entry.prems show ?case by (subst log_capabilities.simps) simp
qed

lemma log_capabilities_sound:
  assumes "log_capabilities pci it = Some r" "config_space_ok pci val"
  shows "cap_list (val (fst it)) (snd it) (fst r)"
proof -
  have "config_space_ok pci val \<longrightarrow> cap_list (val (fst it)) (snd it) (fst r)"
  proof (rule log_capabilities.raw_induct
      [where P = "\<lambda>pci it r. config_space_ok pci val \<longrightarrow> cap_list (val (fst it)) (snd it) (fst r)", OF _ assms(1)], intro impI)
    fix f pci it r
    assume IH: "\<And>pci it r. f pci it = Some r \<Longrightarrow> config_space_ok pci val \<longrightarrow> cap_list (val (fst it)) (snd it) (fst r)"
      and r: "(case ext_cap_next pci it of
          (None, it') \<Rightarrow> Some ([], fst it')
        | (Some c, it') \<Rightarrow> Option.bind (f pci it') (\<lambda>(cs, p). Some (c # cs, p))) = Some r"
      and ok: "config_space_ok pci val"
    obtain p ptr where it: "it = (p, ptr)" by (cases it)
    show "cap_list (val (fst it)) (snd it) (fst r)"
    proof (cases ptr)
      case None
      with r it show ?thesis by (auto simp: ext_cap_next_def intro: cap_end)
    next
      case (Some x)
      obtain p1 where p1: "ext_cap_next pci (p, Some x)
          = (Some \<lparr>cap_offset = x, cap_id = ExtendedCapabilityPointerReg_capability_id (val p x)\<rparr>,
             p1, nonzero (ExtendedCapabilityPointerReg_next_cap_pointer (val p x)))" "val p1 = val p"
        using ext_cap_next_Some [OF ok] by blast
      with r it Some obtain cs q where q: "f pci (p1, nonzero (ExtendedCapabilityPointerReg_next_cap_pointer (val p x))) = Some (cs, q)"
          "fst r = \<lparr>cap_offset = x, cap_id = ExtendedCapabilityPointerReg_capability_id (val p x)\<rparr> # cs"
        by (auto simp: bind_eq_Some_conv)
      from IH [OF q(1)] q(2) it Some p1(2) ok show ?thesis by (auto intro: cap_entry)
    qed
  qed
  with assms(2) show ?thesis by blast
qed

lemma find_usb_leg_sup_finds:
  assumes ok: "config_space_ok pci val" and "cap_list rd ptr cs" "val p = rd"
  shows "\<exists>p'. find_usb_leg_sup pci (p, ptr) = Some (map_option cap_offset (List.find (\<lambda>c. cap_id c = UsbLegSup) cs), p')
    \<and> val p' = rd"
  using assms(2,3)
proof (induction arbitrary: p)
  case cap_end
  then show ?case by (subst find_usb_leg_sup.simps) (simp add: ext_cap_next_def)
next
  case (cap_entry ptr cs)
  obtain p1 where p1: "ext_cap_next pci (p, Some ptr)
      = (Some \<lparr>cap_offset = ptr, cap_id = ExtendedCapabilityPointerReg_capability_id (val p ptr)\<rparr>,
         p1, nonzero (ExtendedCapabilityPointerReg_next_cap_pointer (val p ptr)))" "val p1 = val p"
    using ext_cap_next_Some [OF ok] by blast
  from cap_entry.IH [of p1] p1(2) cap_entry.prems obtain p2 where
      "find_usb_leg_sup pci (p1, nonzero (ExtendedCapabilityPointerReg_next_cap_pointer (val p ptr)))
         = Some (map_option cap_offset (List.find (\<lambda>c. cap_id c = UsbLegSup) cs), p2)" "val p2 = rd"
    by auto
  with p1 cap_entry.prems show ?case by (subst find_usb_leg_sup.simps) simp
qed

text \<open>C35: \<open>new_ehci\<close> returns exactly when the controller's capability list ends: then it finds the first
  legacy support capability if there is one, at the offset where the list has it, and otherwise the controller needs
  no handoff and the driver is built at once.  A capability list that runs into a cycle makes it loop
  forever, although the search alone would often have found the capability.\<close>

theorem new_ehci_follows_capabilities:
  assumes "config_space_ok pci val"
  shows "((\<exists>r. new_ehci aw pci mc p = Some r)
       \<longleftrightarrow> (\<exists>cs. cap_list (val p) (nonzero (HccParams_eecp (hcc_params (mc_caps mc)))) cs))
    \<and> (\<forall>cs. cap_list (val p) (nonzero (HccParams_eecp (hcc_params (mc_caps mc)))) cs \<longrightarrow>
         (\<exists>p'. val p' = val p \<and> new_ehci aw pci mc p = Some (case List.find (\<lambda>c. cap_id c = 1) cs of
             Some c \<Rightarrow> BiosOwned \<lparr>bo_machine = mc, bo_pci_access = p', bo_usb_leg_sup_offset = cap_offset c\<rparr>
           | None \<Rightarrow> OsOwned (Stack_new aw mc))))"
proof -
  let ?ptr = "nonzero (HccParams_eecp (hcc_params (mc_caps mc)))"
  have found: "\<exists>p'. val p' = val p \<and> new_ehci aw pci mc p = Some (case List.find (\<lambda>c. cap_id c = 1) cs of
             Some c \<Rightarrow> BiosOwned \<lparr>bo_machine = mc, bo_pci_access = p', bo_usb_leg_sup_offset = cap_offset c\<rparr>
           | None \<Rightarrow> OsOwned (Stack_new aw mc))" if c: "cap_list (val p) ?ptr cs" for cs
  proof -
    obtain p1 where p1: "log_capabilities pci (p, ?ptr) = Some (cs, p1)" "val p1 = val p"
      using log_capabilities_finds [OF assms c refl] by blast
    obtain p2 where "find_usb_leg_sup pci (p1, ?ptr)
        = Some (map_option cap_offset (List.find (\<lambda>c. cap_id c = 1) cs), p2)" "val p2 = val p"
      using find_usb_leg_sup_finds [OF assms c p1(2)] by (auto simp: UsbLegSup_def)
    with p1 show ?thesis
      by (intro exI [of _ p2]) (auto simp: new_ehci_def ExtendedCapabilitiesIterator_new_def split: option.split)
  qed
  moreover have "\<exists>cs. cap_list (val p) ?ptr cs" if "new_ehci aw pci mc p = Some r" for r
  proof -
    from that obtain x where "log_capabilities pci (p, ?ptr) = Some x"
      by (auto simp: new_ehci_def ExtendedCapabilitiesIterator_new_def bind_eq_Some_conv)
    from log_capabilities_sound [OF this assms] show ?thesis by auto
  qed
  ultimately show ?thesis by blast
qed

definition example_pci :: "(u8 \<Rightarrow> u32) pci_access" where
  "example_pci = \<lparr>pci_read_u32 = \<lambda>off p. (p off, p),
     pci_write_u8 = \<lambda>off v p. p(off - 3 := bits_set 24 v (p (off - 3))),
     pci_write_u16 = \<lambda>off v p. p(off := bits_set 0 v (p off)), pci_write_u32 = \<lambda>off v p. p(off := v)\<rparr>"

text \<open>A controller whose only capability is legacy support, owned by the BIOS.\<close>

definition example_config_space :: "u8 \<Rightarrow> u32" where
  "example_config_space = (\<lambda>_. 0)(0x68 := 0x10001)"

definition example_legacy_machine :: machine where
  "example_legacy_machine = example_machine\<lparr>mc_caps := (mc_caps example_machine)\<lparr>hcc_params := 0x6800\<rparr>\<rparr>"

lemma example_config_space_ok: "config_space_ok example_pci id"
  by (simp add: config_space_ok_def example_pci_def)

theorem new_ehci_follows_capabilities_witness:
  "\<exists>p'. new_ehci option_waker example_pci example_legacy_machine example_config_space
     = Some (BiosOwned \<lparr>bo_machine = example_legacy_machine, bo_pci_access = p', bo_usb_leg_sup_offset = 0x68\<rparr>)"
proof -
  have ptr: "nonzero (HccParams_eecp (hcc_params (mc_caps example_legacy_machine))) = Some 0x68"
    by (simp add: example_legacy_machine_def nonzero_def bitfield_defs bits_get_def)
  have reg: "ExtendedCapabilityPointerReg_capability_id (example_config_space 0x68) = 1"
      "nonzero (ExtendedCapabilityPointerReg_next_cap_pointer (example_config_space 0x68)) = None"
    by (simp_all add: example_config_space_def nonzero_def bitfield_defs bits_get_def)
  have "cap_list example_config_space (Some 0x68) [\<lparr>cap_offset = 0x68, cap_id = 1\<rparr>]"
    using cap_entry [where rd = example_config_space and ptr = "0x68" and cs = "[]"] cap_end reg by simp
  then show ?thesis
    using new_ehci_follows_capabilities [OF example_config_space_ok, where aw = option_waker
        and mc = example_legacy_machine and p = example_config_space]
    by (fastforce simp: ptr)
qed

subsection \<open>The handshake\<close>

text \<open>C36: Taking the controller over follows the semaphore protocol: asking for ownership sets the OS semaphore of the
  legacy support register and leaves the BIOS semaphore as it is; as long as the BIOS holds its
  semaphore an attempt gives the request back unchanged, and once it is clear the driver is built, in its initial
  state.  A capability in the last three bytes of the configuration space would overflow the offset.\<close>

theorem ownership_handshake:
  assumes "config_space_ok pci val"
  shows "if unat (bo_usb_leg_sup_offset e) + 3 < 256
    then \<exists>t. take_ownership pci e = Inr t
      \<and> UsbLegSupReg_os_owned_semaphor (val (to_pci_access t) (bo_usb_leg_sup_offset e))
      \<and> (UsbLegSupReg_bios_owned_semaphore (val (to_pci_access t) (bo_usb_leg_sup_offset e))
          \<longleftrightarrow> UsbLegSupReg_bios_owned_semaphore (val (bo_pci_access e) (bo_usb_leg_sup_offset e)))
      \<and> (\<forall>p. (if UsbLegSupReg_bios_owned_semaphore (val p (bo_usb_leg_sup_offset e))
              then \<exists>p'. val p' = val p \<and> try_take aw pci (t\<lparr>to_pci_access := p\<rparr>) = NotYet (t\<lparr>to_pci_access := p'\<rparr>)
              else try_take aw pci (t\<lparr>to_pci_access := p\<rparr>) = Taken (Stack_new aw (bo_machine e))))
    else take_ownership pci e = Inl ArithmeticOverflow"
proof (cases "unat (bo_usb_leg_sup_offset e) + 3 < 256")
  case False
  then show ?thesis by (simp add: take_ownership_def checked_add_def)
next
  case True
  let ?off = "bo_usb_leg_sup_offset e"
  let ?p = "pci_write_u8 pci (?off + 3) 1 (bo_pci_access e)"
  let ?t = "\<lparr>to_machine = bo_machine e, to_pci_access = ?p, to_usb_leg_sup_offset = ?off\<rparr>"
  have t: "take_ownership pci e = Inr ?t" using True by (simp add: take_ownership_def checked_add_def)
  have w: "val ?p ?off = bits_set 24 (1 :: u8) (val (bo_pci_access e) ?off)"
    using assms by (simp add: config_space_ok_def)
  have sem: "UsbLegSupReg_os_owned_semaphor (val ?p ?off)"
    "UsbLegSupReg_bios_owned_semaphore (val ?p ?off) \<longleftrightarrow> UsbLegSupReg_bios_owned_semaphore (val (bo_pci_access e) ?off)"
    by (simp_all add: w bitfield_defs flag_get_def bit_bits_set)
  have att: "if UsbLegSupReg_bios_owned_semaphore (val p ?off)
      then \<exists>p'. val p' = val p \<and> try_take aw pci (?t\<lparr>to_pci_access := p\<rparr>) = NotYet (?t\<lparr>to_pci_access := p'\<rparr>)
      else try_take aw pci (?t\<lparr>to_pci_access := p\<rparr>) = Taken (Stack_new aw (bo_machine e))" for p
  proof -
    obtain reg p' where r: "pci_read_u32 pci ?off p = (reg, p')" by fastforce
    then have "reg = val p ?off" "val p' = val p"
      using assms by (auto simp: config_space_ok_def) (metis fst_conv, metis snd_conv)
    with r show ?thesis by (auto simp: try_take_def)
  qed
  show ?thesis
    unfolding if_P [OF True]
  proof (intro exI [of _ ?t] conjI allI t)
    fix p
    show "if UsbLegSupReg_bios_owned_semaphore (val p ?off)
      then \<exists>p'. val p' = val p \<and> try_take aw pci (?t\<lparr>to_pci_access := p\<rparr>) = NotYet (?t\<lparr>to_pci_access := p'\<rparr>)
      else try_take aw pci (?t\<lparr>to_pci_access := p\<rparr>) = Taken (Stack_new aw (bo_machine e))"
      by (rule att)
  qed (simp_all add: sem)
qed

theorem ownership_handshake_witness:
  "\<exists>t. take_ownership example_pci \<lparr>bo_machine = example_legacy_machine, bo_pci_access = example_config_space,
        bo_usb_leg_sup_offset = 0x68\<rparr> = Inr t
     \<and> UsbLegSupReg_os_owned_semaphor (to_pci_access t 0x68)
     \<and> try_take option_waker example_pci (t\<lparr>to_pci_access := (\<lambda>_. 0)\<rparr>) = Taken (Stack_new option_waker example_legacy_machine)"
  using ownership_handshake [OF example_config_space_ok, of "\<lparr>bo_machine = example_legacy_machine,
      bo_pci_access = example_config_space, bo_usb_leg_sup_offset = 0x68\<rparr>" option_waker]
  by (auto simp: bitfield_defs bitfield)

end
