(* ===== verification/Reference_Parser.thy ===== *)
theory Reference_Parser
  imports Descriptors
begin

text \<open>
  A reference for the parser of configuration descriptors (\<^verbatim>\<open>device_info.rs\<close>), which moves a position through the
  bytes in two nested loops.  The reference first cuts the bytes into descriptors (\<open>descriptors\<close>: each is what
  remains of the bytes from its first byte on) and then works on the list: the endpoints of an interface are the first ones
  behind it, as many as it announces, and what is of another type is passed over.
\<close>

function descriptors :: "bytes \<Rightarrow> bytes list" where
  "descriptors (l # t # r) = (l # t # r) # (if l = 0 then [] else descriptors (drop (unat l) (l # t # r)))"
| "descriptors [] = []"
| "descriptors [l] = []"
  by pat_completeness auto
termination
  by (relation "measure length") (auto simp: unat_gt_0 diff_less)

definition of_type :: "DescriptorType \<Rightarrow> bytes \<Rightarrow> bool" where
  "of_type t b \<longleftrightarrow> b ! 1 = u8_from_DescriptorType t"

text \<open>Take the first \<open>n\<close> descriptors of a type, with what lies behind each; \<open>item\<close> reads one and what belongs to it.\<close>

primrec take_items :: "DescriptorType \<Rightarrow> (bytes \<Rightarrow> bytes list \<Rightarrow> ('i \<times> bytes list) option) \<Rightarrow> nat
    \<Rightarrow> bytes list \<Rightarrow> ('i list \<times> bytes list) option" where
  "take_items t item 0 ds = Some ([], ds)"
| "take_items t item (Suc n) ds =
     (case dropWhile (\<lambda>b. \<not> of_type t b) ds of
        [] \<Rightarrow> None
      | b # ds1 \<Rightarrow> Option.bind (item b ds1) (\<lambda>(x, ds2).
          map_option (\<lambda>(xs, ds3). (x # xs, ds3)) (take_items t item n ds2)))"

definition endpoint_item :: "bytes \<Rightarrow> bytes list \<Rightarrow> (endpoint_info \<times> bytes list) option" where
  "endpoint_item b ds = map_option (\<lambda>e. (EndpointInfo_of e, ds)) (EndpointDescriptor_from_bytes (take 7 b))"

definition interface_item :: "bytes \<Rightarrow> bytes list \<Rightarrow> (interface_info \<times> bytes list) option" where
  "interface_item b ds =
     Option.bind (InterfaceDescriptor_from_bytes (take 9 b)) (\<lambda>i.
     map_option (\<lambda>(es, ds'). (InterfaceInfo_of i es, ds'))
       (take_items DescriptorType_Endpoint endpoint_item (unat (if_b_num_endpoints i)) ds))"

definition reference_configuration :: "bytes \<Rightarrow> configuration_info option" where
  "reference_configuration d =
     Option.bind (ConfigurationDescriptor_from_bytes (take 9 d)) (\<lambda>cfg.
     map_option (\<lambda>(is, _). \<lparr>ci_number = cfg_b_configuration_value cfg, ci_name = None,
         ci_attributes = cfg_bm_attributes cfg, ci_max_power = cfg_b_max_power cfg, ci_interfaces = is\<rparr>)
       (take_items DescriptorType_Interface interface_item (unat (cfg_b_num_interfaces cfg)) (descriptors (drop 9 d))))"

subsection \<open>Positions and descriptors\<close>

lemma descriptors_drop:
  assumes "p + 2 \<le> length d" "d ! p \<noteq> 0"
  shows "descriptors (drop p d) = drop p d # descriptors (drop (p + unat (d ! p)) d)"
proof -
  have e: "drop p d = d ! p # d ! Suc p # drop (Suc (Suc p)) d"
    using assms(1) by (simp add: Cons_nth_drop_Suc)
  show ?thesis
    using descriptors.simps(1) [of "d ! p" "d ! Suc p" "drop (Suc (Suc p)) d"] assms(2)
    unfolding e [symmetric] by (simp add: add.commute)
qed

lemma descriptors_end: "length d < p + 2 \<Longrightarrow> descriptors (drop p d) = []"
  by (cases "drop p d" rule: descriptors.cases) (auto dest!: arg_cong [of _ _ length])

lemma from_bytes_length:
  "EndpointDescriptor_from_bytes b = Some e \<Longrightarrow> length b = 7"
  "InterfaceDescriptor_from_bytes b = Some i \<Longrightarrow> length b = 9"
  "ConfigurationDescriptor_from_bytes b = Some c \<Longrightarrow> length b = 9"
  by (auto elim: EndpointDescriptor_from_bytes.elims InterfaceDescriptor_from_bytes.elims
      ConfigurationDescriptor_from_bytes.elims)

lemma take_items_skip: "\<not> of_type t b \<Longrightarrow> take_items t item (Suc n) (b # ds) = take_items t item (Suc n) ds"
  by simp

lemma take_items_take: "of_type t b \<Longrightarrow> take_items t item (Suc n) (b # ds) =
    Option.bind (item b ds) (\<lambda>(x, ds2). map_option (\<lambda>(xs, ds3). (x # xs, ds3)) (take_items t item n ds2))"
  by simp

lemma take_items_Nil: "take_items t item (Suc n) [] = None"
  by simp

lemma obind_slice_cases:
  assumes "\<And>b y. f b = Some y \<Longrightarrow> length b = n" "0 < n"
  shows "(case f (take n (drop p d)) of Some y \<Rightarrow> obind (slice_range d p n) (\<lambda>s. unwrap_opt (f s)) = Inr y
    | None \<Rightarrow> \<exists>e. obind (slice_range d p n) (\<lambda>s. unwrap_opt (f s)) = Inl e)"
  using assms(1) [of "take n (drop p d)"] assms(2) by (auto simp: slice_range_def split: option.split) fastforce

lemma endpoint_at_cases:
  "case EndpointDescriptor_from_bytes (take 7 (drop p d)) of Some y \<Rightarrow> endpoint_at d p = Inr y
    | None \<Rightarrow> \<exists>e. endpoint_at d p = Inl e"
  unfolding endpoint_at_def by (rule obind_slice_cases) (simp_all add: from_bytes_length)

lemma interface_at_cases:
  "case InterfaceDescriptor_from_bytes (take 9 (drop p d)) of Some y \<Rightarrow> interface_at d p = Inr y
    | None \<Rightarrow> \<exists>e. interface_at d p = Inl e"
  unfolding interface_at_def by (rule obind_slice_cases) (simp_all add: from_bytes_length)

lemma header_cases:
  "case ConfigurationDescriptor_from_bytes (take 9 d) of
      Some y \<Rightarrow> obind (slice_range d 0 9) (\<lambda>s. unwrap_opt (ConfigurationDescriptor_from_bytes s)) = Inr y
    | None \<Rightarrow> \<exists>e. obind (slice_range d 0 9) (\<lambda>s. unwrap_opt (ConfigurationDescriptor_from_bytes s)) = Inl e"
  using obind_slice_cases [where f = ConfigurationDescriptor_from_bytes and n = 9 and p = 0 and d = d] by (simp add: from_bytes_length)

declare take_items.simps(2) [simp del]

definition nonzero_lengths :: "bytes list \<Rightarrow> bool" where
  "nonzero_lengths ds = list_all (\<lambda>b. b ! 0 \<noteq> 0) ds"

lemma descriptors_step:
  assumes "nonzero_lengths (descriptors (drop p d))" "p + 2 \<le> length d"
  shows "d ! p \<noteq> 0" "descriptors (drop p d) = drop p d # descriptors (drop (p + unat (d ! p)) d)"
    and "nonzero_lengths (descriptors (drop (p + unat (d ! p)) d))" "length d - (p + unat (d ! p)) < length d - p"
    and "of_type t (drop p d) \<longleftrightarrow> d ! (p + 1) = u8_from_DescriptorType t"
proof -
  have "drop p d = d ! p # d ! Suc p # drop (Suc (Suc p)) d"
    using assms(2) by (simp add: Cons_nth_drop_Suc)
  then have "\<exists>ds. descriptors (drop p d) = drop p d # ds" "(drop p d) ! 0 = d ! p" by (auto split: if_splits)
  then show nz: "d ! p \<noteq> 0" using assms(1) by (auto simp: nonzero_lengths_def)
  show eq: "descriptors (drop p d) = drop p d # descriptors (drop (p + unat (d ! p)) d)"
    by (rule descriptors_drop [OF assms(2) nz])
  show "nonzero_lengths (descriptors (drop (p + unat (d ! p)) d))"
    using assms(1) unfolding eq by (simp add: nonzero_lengths_def)
  have "0 < unat (d ! p)" using nz by (simp add: unat_gt_0)
  then show "length d - (p + unat (d ! p)) < length d - p" using assms(2) by linarith
  show "of_type t (drop p d) \<longleftrightarrow> d ! (p + 1) = u8_from_DescriptorType t"
    using assms(2) by (simp add: of_type_def)
qed

subsection \<open>The loops\<close>

lemma endpoint_loop_takes:
  assumes "nonzero_lengths (descriptors (drop p d))"
  shows "case take_items DescriptorType_Endpoint endpoint_item (n - i) (descriptors (drop p d)) of
      None \<Rightarrow> \<exists>e. endpoint_loop d n p i acc = Some (Inl e)
    | Some (es, ds) \<Rightarrow> \<exists>q \<ge> p. endpoint_loop d n p i acc = Some (Inr (q, acc @ es))
        \<and> ds = descriptors (drop q d) \<and> nonzero_lengths ds"
  using assms
proof (induction "length d - p" arbitrary: p i acc rule: less_induct)
  case less
  show ?case
  proof (cases "n - i")
    case 0
    with less.prems show ?thesis by (subst endpoint_loop.simps) auto
  next
    case (Suc k)
    then have i: "i < n" "n - Suc i = k" by simp_all
    show ?thesis
    proof (cases "p + 2 \<le> length d")
      case False
      then show ?thesis
        using i Suc by (subst endpoint_loop.simps) (simp add: common_at_def slice_range_def descriptors_end take_items_Nil)
    next
      case True
      note st = descriptors_step [OF less.prems True]
      have c: "common_at d p = Inr \<lparr>cd_b_length = d ! p, cd_b_descriptor_type = d ! (p + 1)\<rparr>"
        using True by (simp add: common_at_Inr_iff)
      note ih = less.hyps [OF st(4) st(3)]
      show ?thesis
      proof (cases "of_type DescriptorType_Endpoint (drop p d)")
        case False
        then have "endpoint_loop d n p i acc = endpoint_loop d n (p + unat (d ! p)) i acc"
          using i c st(5) by (subst endpoint_loop.simps) simp
        with ih [of i acc] False Suc show ?thesis
          by (auto simp: st(2) take_items_skip split: option.splits)
      next
        case T: True
        show ?thesis
        proof (cases "EndpointDescriptor_from_bytes (take 7 (drop p d))")
          case None
          with T c i Suc st(5) endpoint_at_cases [where p = p and d = d] show ?thesis
            by (subst endpoint_loop.simps) (auto simp: st(2) take_items_take endpoint_item_def)
        next
          case (Some ed)
          then have "endpoint_loop d n p i acc
              = endpoint_loop d n (p + unat (d ! p)) (Suc i) (acc @ [EndpointInfo_of ed])"
            using T i c st(5) endpoint_at_cases [where p = p and d = d] by (subst endpoint_loop.simps) simp
          with ih [of "Suc i" "acc @ [EndpointInfo_of ed]"] T Some Suc i(2) show ?thesis
            by (auto simp: st(2) take_items_take endpoint_item_def split: option.splits)
        qed
      qed
    qed
  qed
qed

lemma interface_loop_takes:
  assumes "nonzero_lengths (descriptors (drop p d))"
  shows "case take_items DescriptorType_Interface interface_item (n - i) (descriptors (drop p d)) of
      None \<Rightarrow> \<exists>e. interface_loop d n p i acc = Some (Inl e)
    | Some (is, ds) \<Rightarrow> interface_loop d n p i acc = Some (Inr (acc @ is))"
  using assms
proof (induction "length d - p" arbitrary: p i acc rule: less_induct)
  case less
  show ?case
  proof (cases "n - i")
    case 0
    with less.prems show ?thesis by (subst interface_loop.simps) auto
  next
    case (Suc k)
    then have i: "i < n" "n - Suc i = k" by simp_all
    show ?thesis
    proof (cases "p + 2 \<le> length d")
      case False
      then show ?thesis
        using i Suc by (subst interface_loop.simps) (simp add: common_at_def slice_range_def descriptors_end take_items_Nil)
    next
      case True
      note st = descriptors_step [OF less.prems True]
      let ?q = "p + unat (d ! p)"
      have c: "common_at d p = Inr \<lparr>cd_b_length = d ! p, cd_b_descriptor_type = d ! (p + 1)\<rparr>"
        using True by (simp add: common_at_Inr_iff)
      have ih: "case take_items DescriptorType_Interface interface_item (n - i) (descriptors (drop q d)) of
          None \<Rightarrow> \<exists>e. interface_loop d n q i acc = Some (Inl e)
        | Some (is, ds) \<Rightarrow> interface_loop d n q i acc = Some (Inr (acc @ is))"
        if "?q \<le> q" "nonzero_lengths (descriptors (drop q d))" for q i acc
      proof (rule less.hyps [OF _ that(2)])
        show "length d - q < length d - p" using that(1) st(4) by linarith
      qed
      show ?thesis
      proof (cases "of_type DescriptorType_Interface (drop p d)")
        case False
        then have "interface_loop d n p i acc = interface_loop d n ?q i acc"
          using i c st(5) by (subst interface_loop.simps) simp
        with ih [OF order_refl st(3), of i acc] False Suc show ?thesis
          by (auto simp: st(2) take_items_skip split: option.splits)
      next
        case T: True
        show ?thesis
        proof (cases "InterfaceDescriptor_from_bytes (take 9 (drop p d))")
          case None
          with T c i Suc st(5) interface_at_cases [where p = p and d = d] show ?thesis
            by (subst interface_loop.simps) (auto simp: st(2) take_items_take interface_item_def)
        next
          case (Some idesc)
          let ?m = "unat (if_b_num_endpoints idesc)"
          have at: "interface_at d p = Inr idesc" using Some interface_at_cases [where p = p and d = d] by simp
          note e = endpoint_loop_takes [OF st(3), where n = ?m and i = 0 and acc = "[]", simplified]
          show ?thesis
          proof (cases "take_items DescriptorType_Endpoint endpoint_item ?m (descriptors (drop ?q d))")
            case None
            with Some T at c i Suc st(5) e show ?thesis
              by (subst interface_loop.simps) (auto simp: st(2) take_items_take interface_item_def)
          next
            case T': (Some r)
            obtain es ds where r: "r = (es, ds)" by fastforce
            with T' e obtain q where q: "?q \<le> q" "endpoint_loop d ?m ?q 0 [] = Some (Inr (q, es))"
                "ds = descriptors (drop q d)" "nonzero_lengths ds" by auto
            have "interface_loop d n p i acc = interface_loop d n q (Suc i) (acc @ [InterfaceInfo_of idesc es])"
              using T i c st(5) at q(2) by (subst interface_loop.simps) simp
            with ih [OF q(1), of "Suc i" "acc @ [InterfaceInfo_of idesc es]"] q(3,4) T T' Some r Suc i(2)
            show ?thesis by (auto simp: st(2) take_items_take interface_item_def split: option.splits)
          qed
        qed
      qed
    qed
  qed
qed

text \<open>C23: The parser of configuration descriptors, with its position and its two loops, is equivalent to the reference that first
  cuts the bytes into descriptors: on every byte string without a descriptor of length zero, well formed or not, it returns the
  configuration the reference gives, and panics exactly when the reference gives none (too few
  interfaces or endpoints, or one that is cut off).\<close>

theorem parser_equals_reference:
  assumes "nonzero_lengths (descriptors (drop 9 d))"
  shows "case reference_configuration d of
      Some c \<Rightarrow> ConfigurationInfo_from_descriptor d = Some (Inr c)
    | None \<Rightarrow> \<exists>e. ConfigurationInfo_from_descriptor d = Some (Inl e)"
proof (cases "ConfigurationDescriptor_from_bytes (take 9 d)")
  case None
  then show ?thesis
    using header_cases [of d]
    by (auto simp: reference_configuration_def ConfigurationInfo_from_descriptor_def)
next
  case (Some cfg)
  then have "obind (slice_range d 0 9) (\<lambda>s. unwrap_opt (ConfigurationDescriptor_from_bytes s)) = Inr cfg"
    using header_cases [of d] by simp
  with Some interface_loop_takes [OF assms, where n = "unat (cfg_b_num_interfaces cfg)" and i = 0 and acc = "[]"]
  show ?thesis
    by (auto simp: reference_configuration_def ConfigurationInfo_from_descriptor_def split: option.splits)
qed

theorem parser_equals_reference_witness:
  "\<exists>e. ConfigurationInfo_from_descriptor [9, 2, 18, 0, 1, 1, 0, 128, 50, 9, 4, 0, 0, 1, 3, 1, 2, 0, 2, 7] = Some (Inl e)"
  using parser_equals_reference [of "[9, 2, 18, 0, 1, 1, 0, 128, 50, 9, 4, 0, 0, 1, 3, 1, 2, 0, 2, 7]"]
  by (simp add: nonzero_lengths_def reference_configuration_def of_type_def interface_item_def
      take_items.simps(2))

end
