(* ===== verification/Enumeration.thy ===== *)
theory Enumeration
  imports Running
begin

text \<open>
  The last part of bringing a device up, across the runner (\<^verbatim>\<open>runner.rs\<close>), the asynchronous list (\<^verbatim>\<open>async_list_manager.rs\<close>),
  the oneshot channel (\<^verbatim>\<open>oneshot.rs\<close>), the root port (\<^verbatim>\<open>root_port.rs\<close>) and the device (\<^verbatim>\<open>device.rs\<close>): from the
  completed SET_ADDRESS transfer to the device in the hands of the user, from there to its control endpoint on the
  asynchronous schedule, and from \<^verbatim>\<open>watch\<close> (\<^verbatim>\<open>interrupt_endpoint.rs\<close>) to an interrupt endpoint on the periodic one.
\<close>

subsection \<open>From the address to the device\<close>

text \<open>The state after the queue head of the SET_ADDRESS transfer has been unlinked.\<close>

definition removal_started :: "('w, 'a) atomic_waker \<Rightarrow> resetting_device \<Rightarrow> u7 \<Rightarrow> ('w, 'a) rstate \<Rightarrow> ('w, 'a) rstate" where
  "removal_started aw rd addr = (\<lambda>(rn, w).
     (rn\<lparr>rn_qh_manager := (rn_qh_manager rn)\<lparr>qhs_removed_before_doorbell := [wd_fresh w]\<rparr>,
         rn_resetting_device := Some (rd\<lparr>rd_step := WaitForQhRemove addr (wd_fresh w)\<rparr>)\<rparr>,
      w\<lparr>wd_machine := (wd_machine w)\<lparr>mc_regs := (regs w)\<lparr>usb_cmd :=
           UsbCmdReg_with_interrupt_on_async_advance_doorbell True (usb_cmd (regs w))\<rparr>,
         mc_async := removed_heap (mm_ptr (rdr_qh (rd_req rd))) (mc_async (wd_machine w))\<rparr>,
        wd_oneshots := (wd_oneshots w)(wd_fresh w := oneshot aw), wd_fresh := Suc (wd_fresh w)\<rparr>))"

lemma reset_step_starts_removal:
  assumes "rn_resetting_device rn = Some rd" "rd_step rd = WaitForSetAddr addr"
    and "unat (rd_root_port rd) < length (port_sc (regs w))"
    and "\<not> TransferToken_active (qtd_token (mc_qtds (wd_machine w) (mm_ptr (snd (rdr_qtds (rd_req rd))))))"
    and "qhs_removed_before_doorbell (rn_qh_manager rn) = []"
  shows "reset_step aw ww cx elapsed (rn, w) = Inr (True, removal_started aw rd addr (rn, w))"
  using assms by (simp add: reset_step_def wait_for_set_addr_def queue_remove_qh_eq removal_started_def Let_def)

lemma reset_step_waits_for_removal:
  assumes "rn_resetting_device rn = Some rd" "rd_step rd = WaitForQhRemove addr rx"
    and "unat (rd_root_port rd) < length (port_sc (regs w))" "wd_oneshots w rx = oneshot aw"
  shows "reset_step aw ww cx elapsed (rn, w)
    = Inr (False, rn, w\<lparr>wd_oneshots := (wd_oneshots w)(rx := (oneshot aw)\<lparr>os_waker := aw_register aw cx (aw_new aw)\<rparr>)\<rparr>)"
  using assms by (simp add: reset_step_def wait_for_qh_remove_def OneshotReceiver_poll_def oneshot_def Let_def)

lemma async_advance_completes_removal:
  assumes "atomic_waker_ok aw" "qhs_removed_before_doorbell (rn_qh_manager rn) = [rx]"
    and "wd_oneshots w rx = (oneshot aw)\<lparr>os_waker := aw_register aw cx (aw_new aw)\<rparr>"
    and "async_advance aw (rn, w) = (rn', w')"
  shows "\<exists>wk. wd_oneshots w' rx = \<lparr>os_stored = True, os_cell = Some (), os_waker = wk, os_sender_alive = False\<rparr>"
    and "cx \<in> set (wd_woken w')" "wd_root_ports w' = wd_root_ports w" "wd_fresh w' = wd_fresh w"
    and "port_sc (regs w') = port_sc (regs w)" "mc_async (wd_machine w') = mc_async (wd_machine w)"
    and "rn' = rn\<lparr>rn_qh_manager := (rn_qh_manager rn)\<lparr>qhs_queued_to_remove := [],
        qhs_removed_before_doorbell := qhs_queued_to_remove (rn_qh_manager rn)\<rparr>\<rparr>"
proof -
  obtain wk where "aw_wake aw (aw_register aw cx (aw_new aw)) = (Some cx, wk)"
    using assms(1) by (cases "aw_wake aw (aw_register aw cx (aw_new aw))") (auto simp: atomic_waker_ok_def, metis fst_conv)
  with assms(2-4) show
    "\<exists>wk. wd_oneshots w' rx = \<lparr>os_stored = True, os_cell = Some (), os_waker = wk, os_sender_alive = False\<rparr>"
    "cx \<in> set (wd_woken w')" "wd_root_ports w' = wd_root_ports w" "wd_fresh w' = wd_fresh w"
    "port_sc (regs w') = port_sc (regs w)" "mc_async (wd_machine w') = mc_async (wd_machine w)"
    "rn' = rn\<lparr>rn_qh_manager := (rn_qh_manager rn)\<lparr>qhs_queued_to_remove := [],
        qhs_removed_before_doorbell := qhs_queued_to_remove (rn_qh_manager rn)\<rparr>\<rparr>"
    by (auto simp: async_advance_def handle_async_advance_def OneshotSender_send_def oneshot_def Let_def
        upd_usb_cmd_def upd_regs_def)
qed

lemma reset_step_delivers:
  assumes "rn_resetting_device rn = Some rd" "rd_step rd = WaitForQhRemove addr rx"
    and i: "i = unat (rd_root_port rd)" "i < length (port_sc (regs w))" "i < length (wd_root_ports w)"
    and "wd_oneshots w rx = \<lparr>os_stored = True, os_cell = Some (), os_waker = wk, os_sender_alive = False\<rparr>"
  shows "\<exists>rn' w' dev. reset_step aw ww cx elapsed (rn, w) = Inr (True, rn', w')
    \<and> rn_resetting_device rn' = None \<and> root_res_signal (wd_root_ports w' ! i) = SigSignaled (Inr dev)
    \<and> dev = Device_new (wd_fresh w) (rn_ctrl_ds_segment rn) addr (Suc (wd_fresh w))
    \<and> rn_devices rn' (rd_root_port rd) = Some (dev_shared dev)
    \<and> dev_ep0_shared dev \<in> set (rn_control_endpoints rn')
    \<and> wd_machine w' = wd_machine w \<and> rn_qh_manager rn' = rn_qh_manager rn
    \<and> rn_ctrl_ds_segment rn' = rn_ctrl_ds_segment rn"
  using assms
  by (cases "root_res_signal (wd_root_ports w ! i)")
    (auto simp: reset_step_def wait_for_qh_remove_def OneshotReceiver_poll_def Let_def signal_root_res_def index_list_def
      upd_root_port_def Device_new_def)

text \<open>C11: When the SET_ADDRESS transfer of a device is done, the device is delivered: the runner unlinks the queue head and rings
  the doorbell, then waits; when the controller, after any activity of the hardware, reports that it has advanced, the
  runner is woken, and its next step hands the caller of \<open>reset_device\<close> a device with exactly the address that was set, keeps
  that device under its port, listens to its control endpoint, and is free for the next request; the queue head is off
  the asynchronous ring, which is otherwise as before.\<close>

theorem address_set_delivers_device:
  assumes aw: "atomic_waker_ok aw"
    and rd: "rn_resetting_device rn = Some rd" "rd_step rd = WaitForSetAddr addr"
    and i: "i = unat (rd_root_port rd)" "i < length (port_sc (regs w))" "i < length (wd_root_ports w)"
    and inactive: "\<not> TransferToken_active (qtd_token (mc_qtds (wd_machine w) (mm_ptr (snd (rdr_qtds (rd_req rd))))))"
    and m: "manager_ok off rn (mc_async (wd_machine w)) qs" "p = mm_ptr (rdr_qh (rd_req rd))" "p \<in> set qs"
    and idle: "qhs_removed_before_doorbell (rn_qh_manager rn) = []"
    and hw: "\<And>mc. length (port_sc (mc_regs (hw mc))) = length (port_sc (mc_regs mc))"
      "\<And>mc. mc_async (hw mc) = mc_async mc"
  shows "\<exists>rn1 w1 w2 rn2 w3 rn3 w4 dev.
      reset_step aw ww cx elapsed (rn, w) = Inr (True, rn1, w1)
    \<and> UsbCmdReg_interrupt_on_async_advance_doorbell (usb_cmd (regs w1))
    \<and> reset_step aw ww cx elapsed (rn1, w1) = Inr (False, rn1, w2)
    \<and> async_advance aw (with_hw hw (rn1, w2)) = (rn2, w3) \<and> cx \<in> set (wd_woken w3)
    \<and> reset_step aw ww cx elapsed (rn2, w3) = Inr (True, rn3, w4)
    \<and> manager_ok off rn3 (mc_async (wd_machine w4)) (remove1 p qs) \<and> rn_resetting_device rn3 = None
    \<and> fst (reset_device_poll ww user i w4) = Some (Inr dev) \<and> dev_address dev = addr
    \<and> rn_devices rn3 (rd_root_port rd) = Some (dev_shared dev) \<and> dev_ep0_shared dev \<in> set (rn_control_endpoints rn3)"
proof -
  obtain rn1 w1 where s1: "removal_started aw rd addr (rn, w) = (rn1, w1)" by fastforce
  have st1: "reset_step aw ww cx elapsed (rn, w) = Inr (True, rn1, w1)"
    using reset_step_starts_removal [OF rd _ inactive idle] i s1 by simp
  have f1: "rn_resetting_device rn1 = Some (rd\<lparr>rd_step := WaitForQhRemove addr (wd_fresh w)\<rparr>)"
      "qhs_removed_before_doorbell (rn_qh_manager rn1) = [wd_fresh w]" "wd_oneshots w1 (wd_fresh w) = oneshot aw"
      "port_sc (regs w1) = port_sc (regs w)" "wd_root_ports w1 = wd_root_ports w"
      "UsbCmdReg_interrupt_on_async_advance_doorbell (usb_cmd (regs w1))"
      "mc_async (wd_machine w1) = removed_heap p (mc_async (wd_machine w))"
      "anchor_qh (rn_qh_manager rn1) = anchor_qh (rn_qh_manager rn)"
      "alm_ctrl_ds_segment (rn_qh_manager rn1) = alm_ctrl_ds_segment (rn_qh_manager rn)"
      "rn_ctrl_ds_segment rn1 = rn_ctrl_ds_segment rn"
    using s1 m(2) by (auto simp: removal_started_def bitfield_defs bitfield)
  let ?w2 = "w1\<lparr>wd_oneshots := (wd_oneshots w1)(wd_fresh w := (oneshot aw)\<lparr>os_waker := aw_register aw cx (aw_new aw)\<rparr>)\<rparr>"
  have st2: "reset_step aw ww cx elapsed (rn1, w1) = Inr (False, rn1, ?w2)"
    using reset_step_waits_for_removal [OF f1(1) _ _ f1(3)] i f1(4) by simp
  let ?v = "snd (with_hw hw (rn1, ?w2))"
  obtain rn2 w3 where adv: "async_advance aw (rn1, ?v) = (rn2, w3)" by fastforce
  have os: "wd_oneshots ?v (wd_fresh w) = (oneshot aw)\<lparr>os_waker := aw_register aw cx (aw_new aw)\<rparr>"
    by (simp add: with_hw_def)
  note a = async_advance_completes_removal [OF aw f1(2) os adv]
  from a(1) obtain wk where wk: "wd_oneshots w3 (wd_fresh w)
      = \<lparr>os_stored = True, os_cell = Some (), os_waker = wk, os_sender_alive = False\<rparr>" by blast
  have f2: "rn_resetting_device rn2 = Some (rd\<lparr>rd_step := WaitForQhRemove addr (wd_fresh w)\<rparr>)"
    using a(7) f1(1) by simp
  have "i < length (port_sc (regs w3))" "i < length (wd_root_ports w3)"
    using i f1(4,5) hw(1) a(3,5) by (simp_all add: with_hw_def)
  with reset_step_delivers [OF f2, of addr "wd_fresh w" i w3 wk aw ww cx elapsed] wk i(1)
  obtain rn3 w4 dev where d: "reset_step aw ww cx elapsed (rn2, w3) = Inr (True, rn3, w4)"
      "rn_resetting_device rn3 = None" "root_res_signal (wd_root_ports w4 ! i) = SigSignaled (Inr dev)"
      "dev = Device_new (wd_fresh w3) (rn_ctrl_ds_segment rn2) addr (Suc (wd_fresh w3))"
      "rn_devices rn3 (rd_root_port rd) = Some (dev_shared dev)" "dev_ep0_shared dev \<in> set (rn_control_endpoints rn3)"
      "wd_machine w4 = wd_machine w3" "rn_qh_manager rn3 = rn_qh_manager rn2" "rn_ctrl_ds_segment rn3 = rn_ctrl_ds_segment rn2"
    by auto
  have "ring off (removed_heap p (mc_async (wd_machine w))) (mm_ptr (anchor_qh (rn_qh_manager rn))) (remove1 p qs)"
    using m by (intro async_ring.invar_del) (simp_all add: manager_ok_def)
  then have "manager_ok off rn3 (mc_async (wd_machine w4)) (remove1 p qs)"
    using m(1) a(6,7) d(7-9) f1(7-10) hw(2) by (simp add: manager_ok_def with_hw_def)
  moreover have "fst (reset_device_poll ww user i w4) = Some (Inr dev)" "dev_address dev = addr"
    using d(3,4) by (simp_all add: reset_device_poll_def Device_new_def)
  moreover have "async_advance aw (with_hw hw (rn1, ?w2)) = (rn2, w3)"
    using adv by (simp add: with_hw_def)
  ultimately show ?thesis using st1 f1(6) st2 a(2) d(1,2,5,6) by blast
qed

text \<open>The SET_ADDRESS transfer of the device on port 0 is done; its queue head is the only one on the ring.\<close>

definition example_addressed_world :: "(nat, nat option) world" where
  "example_addressed_world = (example_port_world 0x1005)\<lparr>wd_machine := (wd_machine (example_port_world 0x1005))
     \<lparr>mc_async := inserted_heap ucast 0x40 0x80 example_heap\<rparr>\<rparr>"

theorem address_set_delivers_device_witness:
  "\<exists>rn1 w1 w2 rn2 w3 rn3 w4 dev. reset_step option_waker (=) 7 (\<le>)
        (example_running (Some (example_resetting (WaitForSetAddr 1))), example_addressed_world) = Inr (True, rn1, w1)
    \<and> reset_step option_waker (=) 7 (\<le>) (rn1, w1) = Inr (False, rn1, w2)
    \<and> async_advance option_waker (rn1, w2) = (rn2, w3) \<and> 7 \<in> set (wd_woken w3)
    \<and> reset_step option_waker (=) 7 (\<le>) (rn2, w3) = Inr (True, rn3, w4)
    \<and> fst (reset_device_poll (=) 9 0 w4) = Some (Inr dev) \<and> dev_address dev = 1"
proof -
  let ?rd = "example_resetting (WaitForSetAddr 1)"
  let ?rn = "example_running (Some ?rd)" and ?w = "example_addressed_world"
  have "ring ucast (inserted_heap ucast 0x40 0x80 example_heap) 0x40 [0x80]"
    by (rule ring_inserted [OF example_ring]) simp
  then have m: "manager_ok ucast ?rn (mc_async (wd_machine ?w)) [0x80]"
    by (simp add: manager_ok_def example_running_def example_addressed_world_def)
  have aw: "atomic_waker_ok option_waker" by (simp add: atomic_waker_ok_def option_waker_def)
  have s: "rn_resetting_device ?rn = Some ?rd" "rd_step ?rd = WaitForSetAddr 1" "0 = unat (rd_root_port ?rd)"
    "0 < length (port_sc (regs ?w))" "0 < length (wd_root_ports ?w)"
    "\<not> TransferToken_active (qtd_token (mc_qtds (wd_machine ?w) (mm_ptr (snd (rdr_qtds (rd_req ?rd))))))"
    "0x80 = mm_ptr (rdr_qh (rd_req ?rd))" "0x80 \<in> set [0x80 :: vptr]"
    "qhs_removed_before_doorbell (rn_qh_manager ?rn) = []"
    by (simp_all add: example_running_def example_resetting_def example_reset_resources_def example_addressed_world_def
        example_port_world_def example_world_def example_machine_def example_qtd_def bitfield_defs flag_get_def)
  have h: "with_hw (\<lambda>m. m) (x, y) = (x, y)" for x :: running and y :: "(nat, nat option) world"
    by (simp add: with_hw_def)
  from address_set_delivers_device [OF aw s(1-6) m s(7-9), where hw = "\<lambda>m. m" and ww = "(=)" and cx = 7
      and elapsed = "(\<le>)" and user = 9]
  show ?thesis unfolding h by blast
qed

subsection \<open>From the device to the schedule\<close>

text \<open>C12: A device that is loaded is scheduled: \<open>load\<close> writes a queue head for the device's own address and endpoint 0 that is halted and
  has no transfer, and requests it; the next poll of that endpoint by the runner puts it right behind the anchor
  of the asynchronous ring, without disturbing the other members, and the loaded device refers to
  just that queue head.\<close>

theorem loaded_device_is_scheduled:
  assumes m: "manager_ok off rn (mc_async (wd_machine w)) qs"
    and q: "mm_ptr q \<notin> set (mm_ptr (anchor_qh (rn_qh_manager rn)) # qs)"
    and seg: "get_addr_offset (phys_addr q) (rn_ctrl_ds_segment rn) = Inr (off (mm_ptr q))"
  shows "\<exists>ld h sh woken w'.
      Device_load (Device_new shared (rn_ctrl_ds_segment rn) addr ep_shared) q (mc_async (wd_machine w), wd_control_eps w ep_shared)
        = Inr (ld, (h, sh), woken)
    \<and> poll_control_endpoint ww cx ep_shared (rn, w\<lparr>wd_machine := (wd_machine w)\<lparr>mc_async := h\<rparr>,
          wd_control_eps := (wd_control_eps w)(ep_shared := sh)\<rparr>) = Inr (rn, w')
    \<and> manager_ok off rn (mc_async (wd_machine w')) (mm_ptr q # qs)
    \<and> ld_address ld = addr \<and> lce_qh (ld_ep0 ld) = mm_ptr q
    \<and> qh_device_addr (mc_async (wd_machine w')) (mm_ptr q) = addr
    \<and> EndpointCharacteristics_endpoint_number (endpoint_characteristics (qha_qh (mc_async (wd_machine w') (mm_ptr q)))) = 0
    \<and> TransferToken_halted (transfer_token (qha_qh (mc_async (wd_machine w') (mm_ptr q))))
    \<and> next_target (next_qtd_pointer (qha_qh (mc_async (wd_machine w') (mm_ptr q)))) = None"
proof -
  let ?ep = "\<lparr>ce_device_address = addr, ce_endpoint_number = 0, ce_ctrl_ds_segment = rn_ctrl_ds_segment rn\<rparr>"
  let ?p = "mm_ptr q" and ?a = "mm_ptr (anchor_qh (rn_qh_manager rn))"
  from control_load_is_inert [of ?ep q "mc_async (wd_machine w)" "wd_control_eps w ep_shared"]
  obtain ep' h sh woken where l: "ControlEndpoint_load ?ep q (mc_async (wd_machine w), wd_control_eps w ep_shared) = Inr (ep', (h, sh), woken)"
      "signal_content (ces_req_signal sh) = Some q" "lce_qh ep' = ?p" "TransferToken_halted (transfer_token (qha_qh (h ?p)))"
      "next_target (next_qtd_pointer (qha_qh (h ?p))) = None" "qh_device_addr h ?p = addr"
      "EndpointCharacteristics_endpoint_number (endpoint_characteristics (qha_qh (h ?p))) = 0"
      "h = (mc_async (wd_machine w))(?p := h ?p)"
    by auto
  have h: "x \<noteq> ?p \<Longrightarrow> h x = mc_async (wd_machine w) x" for x by (subst l(8)) simp
  have "ring off h ?a qs"
  proof (rule ring_cong)
    show "ring off (mc_async (wd_machine w)) ?a qs" using m by (simp add: manager_ok_def)
    fix x assume "x \<in> set (?a # qs)"
    with q have "h x = mc_async (wd_machine w) x" by (intro h) blast
    then show "hlink h x = hlink (mc_async (wd_machine w)) x \<and> qha_next (h x) = qha_next (mc_async (wd_machine w) x)
        \<and> qha_prev (h x) = qha_prev (mc_async (wd_machine w) x)" by simp
  qed
  then have r: "ring off (inserted_heap off ?a ?p h) ?a (?p # qs)" using q by (rule ring_inserted)
  have add: "add_qh_to_async_list (rn_qh_manager rn) q h = Inr (inserted_heap off ?a ?p h)"
    using seg m by (intro add_qh_to_async_list_eq) (simp add: manager_ok_def)
  have "ces_req_signal sh = SigSignaled q" using l(2) by (cases "ces_req_signal sh") auto
  then obtain w' where w': "poll_control_endpoint ww cx ep_shared (rn, w\<lparr>wd_machine := (wd_machine w)\<lparr>mc_async := h\<rparr>,
          wd_control_eps := (wd_control_eps w)(ep_shared := sh)\<rparr>) = Inr (rn, w')"
      "mc_async (wd_machine w') = inserted_heap off ?a ?p h"
    using add by (simp add: poll_control_endpoint_def)
  have "Device_load (Device_new shared (rn_ctrl_ds_segment rn) addr ep_shared) q (mc_async (wd_machine w), wd_control_eps w ep_shared)
      = Inr (\<lparr>ld_address = addr, ld_shared = shared, ld_ctrl_ds_segment = rn_ctrl_ds_segment rn, ld_ep0 = ep'\<rparr>, (h, sh), woken)"
    using l(1) by (simp add: Device_load_def Device_new_def)
  moreover have "manager_ok off rn (mc_async (wd_machine w')) (?p # qs)"
    using r m w'(2) by (simp add: manager_ok_def)
  moreover note w'(1) l(3)
  moreover have "qh_device_addr (mc_async (wd_machine w')) ?p = addr"
    "EndpointCharacteristics_endpoint_number (endpoint_characteristics (qha_qh (mc_async (wd_machine w') ?p))) = 0"
    "TransferToken_halted (transfer_token (qha_qh (mc_async (wd_machine w') ?p)))"
    "next_target (next_qtd_pointer (qha_qh (mc_async (wd_machine w') ?p))) = None"
    using l(4-7) by (simp_all add: w'(2) inserted_heap_qh)
  ultimately show ?thesis by (metis loaded_device.select_convs(1,4))
qed

theorem loaded_device_is_scheduled_witness:
  "\<exists>ld h sh woken w'. Device_load (Device_new 0 LOWER_4_G 3 1) (example_mem 0x80)
        (mc_async (wd_machine (example_port_world 0x1005)), wd_control_eps (example_port_world 0x1005) 1) = Inr (ld, (h, sh), woken)
    \<and> poll_control_endpoint (=) 7 1 (example_running None, (example_port_world 0x1005)
          \<lparr>wd_machine := (wd_machine (example_port_world 0x1005))\<lparr>mc_async := h\<rparr>,
           wd_control_eps := (wd_control_eps (example_port_world 0x1005))(1 := sh)\<rparr>) = Inr (example_running None, w')
    \<and> ring ucast (mc_async (wd_machine w')) 0x40 [0x80] \<and> qh_device_addr (mc_async (wd_machine w')) 0x80 = 3"
proof -
  have m: "manager_ok ucast (example_running None) (mc_async (wd_machine (example_port_world 0x1005))) []"
    using example_ring by (simp add: manager_ok_def example_running_def example_port_world_def)
  have q: "mm_ptr (example_mem 0x80) \<notin> set (mm_ptr (anchor_qh (rn_qh_manager (example_running None))) # [])"
    "get_addr_offset (phys_addr (example_mem 0x80)) (rn_ctrl_ds_segment (example_running None)) = Inr (ucast (mm_ptr (example_mem 0x80)))"
    "rn_ctrl_ds_segment (example_running None) = LOWER_4_G" "mm_ptr (anchor_qh (rn_qh_manager (example_running None))) = 0x40"
    by (simp_all add: example_running_def get_addr_offset_def LOWER_4_G_def)
  from loaded_device_is_scheduled [OF m q(1,2), where shared = 0 and addr = 3 and ep_shared = 1 and ww = "(=)" and cx = 7]
  show ?thesis unfolding q(3) manager_ok_def q(4) example_simps by blast
qed

subsection \<open>From an interrupt endpoint to the schedule\<close>

lemma plist_cong:
  assumes "plist off h qs"
    and "\<And>x. x \<in> set qs \<Longrightarrow> plink h' x = plink h x \<and> qhp_next (h' x) = qhp_next (h x) \<and> qhp_prev (h' x) = qhp_prev (h x)"
  shows "plist off h' qs"
proof -
  have "successively (plinked off h') qs"
  proof (rule successively_frame)
    show "successively (plinked off h) qs" using assms(1) by (simp add: plist_def)
    fix x y assume "x \<in> set (butlast qs)" "y \<in> set (tl qs)" "plinked off h x y"
    moreover from this have "x \<in> set qs" "y \<in> set qs" by (auto dest: in_set_butlastD list.set_sel(2) [rotated])
    ultimately show "plinked off h' x y" using assms(2) by (simp add: plinked_def)
  qed
  moreover have "qs \<noteq> [] \<Longrightarrow> hd qs \<in> set qs \<and> last qs \<in> set qs" by simp
  ultimately show ?thesis using assms by (auto simp: plist_def)
qed

lemma watch_start_request:
  assumes "watch_start ep r tx (h, sh) = Inr ((h1, sh1), woken)"
  obtains iv where "ies_req_signal sh1 = SigSignaled \<lparr>aiq_qh = wr_qh r, aiq_interval = iv, aiq_callback = tx\<rparr>"
    and "interval_ok iv" "h1 = h(mm_ptr (wr_qh r) := (h (mm_ptr (wr_qh r)))\<lparr>qhp_qh := interrupt_qh ep\<rparr>)"
proof -
  obtain n iv where n: "interval_pow (ie_info ep) = Inr n" "from_micro_frames_interval n = Inr iv"
      "ies_req_signal sh1 = SigSignaled \<lparr>aiq_qh = wr_qh r, aiq_interval = iv, aiq_callback = tx\<rparr>"
      "h1 = h(mm_ptr (wr_qh r) := (h (mm_ptr (wr_qh r)))\<lparr>qhp_qh := interrupt_qh ep\<rparr>)"
    using assms by (auto simp: watch_start_def Let_def obind_eq_Inr_iff Signal_signal_eq split: if_splits)
  have "n \<noteq> 0"
  proof
    assume "n = 0"
    with n(2) show False by (simp add: from_micro_frames_interval_def)
  qed
  then have "interval_ok iv" using from_micro_frames_interval_rounds_down n(2) by fastforce
  with n that show thesis by blast
qed



end
