(* ===== verification/Poll_Safety.thy ===== *)
theory Poll_Safety
  imports Enumeration Interrupt_Path
begin

text \<open>
  A poll of the running state (\<^verbatim>\<open>runner.rs\<close>) does not panic.  The state the runner works on is well formed when the
  queue heads and requests that the tasks left in the signals are memory of their own: none is on a
  list, no two are the same, each lies in the segment.  Every part of a poll keeps this state, and with an
  address left for every reset asked for no part of it panics.
\<close>

subsection \<open>Claims on the asynchronous list\<close>

text \<open>Where a queue head waits to be put on the asynchronous list: in the request of a root port, in the device in reset, or in
  the request of a control endpoint.\<close>

datatype claimant = RootReq nat | InReset | ControlEp nat

text \<open>The ring has all of \<open>on\<close> as members; the queue heads claimed in \<open>c\<close> are off it, different, and in the segment.\<close>

definition schedule_ok ::
    "(vptr \<Rightarrow> u32) \<Rightarrow> ctrl_ds_segment \<Rightarrow> vptr \<Rightarrow> async_heap \<Rightarrow> (claimant \<Rightarrow> mapped_mem option) \<Rightarrow> vptr set \<Rightarrow> bool" where
  "schedule_ok off seg a h c on \<longleftrightarrow>
     (\<exists>qs. ring off h a qs \<and> on \<subseteq> set qs
        \<and> (\<forall>s q. c s = Some q \<longrightarrow> mm_ptr q \<notin> set (a # qs) \<and> get_addr_offset (phys_addr q) seg = Inr (off (mm_ptr q))))
     \<and> (\<forall>s t p q. c s = Some p \<longrightarrow> c t = Some q \<longrightarrow> mm_ptr p = mm_ptr q \<longrightarrow> s = t)"

lemma schedule_okI:
  assumes "ring off h a qs" "on \<subseteq> set qs"
    and "\<And>s q. c s = Some q \<Longrightarrow> mm_ptr q \<notin> set (a # qs) \<and> get_addr_offset (phys_addr q) seg = Inr (off (mm_ptr q))"
    and "\<And>s t p q. c s = Some p \<Longrightarrow> c t = Some q \<Longrightarrow> mm_ptr p = mm_ptr q \<Longrightarrow> s = t"
  shows "schedule_ok off seg a h c on"
  using assms unfolding schedule_ok_def by blast

lemma schedule_okE:
  assumes "schedule_ok off seg a h c on"
  obtains qs where "ring off h a qs" "on \<subseteq> set qs"
    "\<And>s q. c s = Some q \<Longrightarrow> mm_ptr q \<notin> set (a # qs) \<and> get_addr_offset (phys_addr q) seg = Inr (off (mm_ptr q))"
    "\<And>s t p q. c s = Some p \<Longrightarrow> c t = Some q \<Longrightarrow> mm_ptr p = mm_ptr q \<Longrightarrow> s = t"
  using assms unfolding schedule_ok_def by blast

lemma schedule_ok_mono:
  assumes "schedule_ok off seg a h c on" "c' \<subseteq>\<^sub>m c" "hw_keeps h h'" "on' \<subseteq> on"
  shows "schedule_ok off seg a h' c' on'"
  using assms(1)
proof (rule schedule_okE)
  fix qs
  assume qs: "ring off h a qs" "on \<subseteq> set qs"
    "\<And>s q. c s = Some q \<Longrightarrow> mm_ptr q \<notin> set (a # qs) \<and> get_addr_offset (phys_addr q) seg = Inr (off (mm_ptr q))"
    "\<And>s t p q. c s = Some p \<Longrightarrow> c t = Some q \<Longrightarrow> mm_ptr p = mm_ptr q \<Longrightarrow> s = t"
  have c: "c s = Some q" if "c' s = Some q" for s q using assms(2) that by (force simp: map_le_def)
  have "ring off h' a qs" using qs(1) assms(3) unfolding hw_keeps_def by (metis ring_cong)
  moreover have "on' \<subseteq> set qs" using assms(4) qs(2) by blast
  ultimately show ?thesis by (rule schedule_okI) (blast dest: c qs(3), blast dest: c qs(4))
qed

lemma schedule_ok_add:
  assumes "schedule_ok off seg a h c on" "c s = Some q"
    and r: "\<And>qs. ring off h a qs \<Longrightarrow> mm_ptr q \<notin> set (a # qs) \<Longrightarrow> ring off h' a (mm_ptr q # qs)"
  shows "schedule_ok off seg a h' (c(s := None)) (insert (mm_ptr q) on)"
  using assms(1)
proof (rule schedule_okE)
  fix qs
  assume qs: "ring off h a qs" "on \<subseteq> set qs"
    "\<And>s q. c s = Some q \<Longrightarrow> mm_ptr q \<notin> set (a # qs) \<and> get_addr_offset (phys_addr q) seg = Inr (off (mm_ptr q))"
    "\<And>s t p q. c s = Some p \<Longrightarrow> c t = Some q \<Longrightarrow> mm_ptr p = mm_ptr q \<Longrightarrow> s = t"
  have "mm_ptr q \<notin> set (a # qs)" using qs(3) assms(2) by blast
  from r [OF qs(1) this] show ?thesis
  proof (rule schedule_okI)
    show "insert (mm_ptr q) on \<subseteq> set (mm_ptr q # qs)" using qs(2) by auto
    fix t r assume "(c(s := None)) t = Some r"
    then have t: "c t = Some r" "t \<noteq> s" by (auto split: if_splits)
    then show "mm_ptr r \<notin> set (a # mm_ptr q # qs) \<and> get_addr_offset (phys_addr r) seg = Inr (off (mm_ptr r))"
      using qs(4) [OF t(1) assms(2)] qs(3) [OF t(1)] by auto
  qed (auto split: if_splits intro: qs(4))
qed

lemma schedule_ok_remove:
  assumes "schedule_ok off seg a h c {p}"
  shows "schedule_ok off seg a (removed_heap p h) c {}"
  using assms
proof (rule schedule_okE)
  fix qs
  assume qs: "ring off h a qs" "{p} \<subseteq> set qs"
    "\<And>s q. c s = Some q \<Longrightarrow> mm_ptr q \<notin> set (a # qs) \<and> get_addr_offset (phys_addr q) seg = Inr (off (mm_ptr q))"
    "\<And>s t p q. c s = Some p \<Longrightarrow> c t = Some q \<Longrightarrow> mm_ptr p = mm_ptr q \<Longrightarrow> s = t"
  have "ring off (removed_heap p h) a (remove1 p qs)" using async_ring.invar_del [OF qs(1)] qs(2) by simp
  then show ?thesis
  proof (rule schedule_okI)
    fix s q assume "c s = Some q"
    from qs(3) [OF this] set_remove1_subset [of p qs]
    show "mm_ptr q \<notin> set (a # remove1 p qs) \<and> get_addr_offset (phys_addr q) seg = Inr (off (mm_ptr q))" by auto
  qed (simp, rule qs(4))
qed

lemma schedule_ok_move:
  assumes "schedule_ok off seg a h c on" "c t = None"
  shows "schedule_ok off seg a h (c(s := None, t := c s)) on"
  using assms(1)
proof (rule schedule_okE)
  fix qs
  assume qs: "ring off h a qs" "on \<subseteq> set qs"
    "\<And>s q. c s = Some q \<Longrightarrow> mm_ptr q \<notin> set (a # qs) \<and> get_addr_offset (phys_addr q) seg = Inr (off (mm_ptr q))"
    "\<And>s t p q. c s = Some p \<Longrightarrow> c t = Some q \<Longrightarrow> mm_ptr p = mm_ptr q \<Longrightarrow> s = t"
  let ?c = "c(s := None, t := c s)"
  have old: "c (if x = t then s else x) = Some q" if "?c x = Some q" for x q
    using that by (auto split: if_splits)
  have src: "x = t \<or> x \<noteq> s" if "?c x = Some q" for x q using that by (auto split: if_splits)
  from qs(1,2) show ?thesis
  proof (rule schedule_okI)
    fix x q assume "?c x = Some q"
    from qs(3) [OF old [OF this]]
    show "mm_ptr q \<notin> set (a # qs) \<and> get_addr_offset (phys_addr q) seg = Inr (off (mm_ptr q))" .
  next
    fix x y p q assume x: "?c x = Some p" and y: "?c y = Some q" and "mm_ptr p = mm_ptr q"
    from qs(4) [OF old [OF x] old [OF y] this(3)] src [OF x] src [OF y] show "x = y" by (auto split: if_splits)
  qed
qed

subsection \<open>Claims on the periodic list\<close>

definition periodic_ok ::
    "(vptr \<Rightarrow> u32) \<Rightarrow> periodic_list_manager \<Rightarrow> periodic_heap \<Rightarrow> (nat \<Rightarrow> add_interrupt_qh_req option) \<Rightarrow> bool" where
  "periodic_ok off m h c \<longleftrightarrow>
     (\<exists>ps. plm_ok off (m, h) ps
        \<and> (\<forall>a r. c a = Some r \<longrightarrow> addable off m ps (aiq_qh r) \<and> interval_ok (aiq_interval r)))
     \<and> (\<forall>a b r s. c a = Some r \<longrightarrow> c b = Some s \<longrightarrow> mm_ptr (aiq_qh r) = mm_ptr (aiq_qh s) \<longrightarrow> a = b)"

definition hw_keeps_periodic :: "periodic_heap \<Rightarrow> periodic_heap \<Rightarrow> bool" where
  "hw_keeps_periodic h h' \<longleftrightarrow>
     (\<forall>x. plink h' x = plink h x \<and> qhp_next (h' x) = qhp_next (h x) \<and> qhp_prev (h' x) = qhp_prev (h x))"

lemma hw_keeps_periodic_refl [simp]: "hw_keeps_periodic h h"
  by (simp add: hw_keeps_periodic_def)

lemma periodic_ok_mono:
  assumes "periodic_ok off m h c" "c' \<subseteq>\<^sub>m c" "hw_keeps_periodic h h'"
  shows "periodic_ok off m h' c'"
proof -
  have c: "c s = Some q" if "c' s = Some q" for s q using assms(2) that by (auto simp: map_le_def dom_def)
  obtain ps where ps: "plm_ok off (m, h) ps" "\<And>a r. c a = Some r \<Longrightarrow> addable off m ps (aiq_qh r) \<and> interval_ok (aiq_interval r)"
    using assms(1) unfolding periodic_ok_def by blast
  have "plist off h' ps" using ps(1) assms(3) unfolding plm_ok_def hw_keeps_periodic_def by (auto intro: plist_cong)
  then have "plm_ok off (m, h') ps" using ps(1) by (simp add: plm_ok_def cong: option.case_cong)
  then show ?thesis using ps(2) assms(1) c unfolding periodic_ok_def by blast
qed

lemma add_qh_segment: "add_qh q iv (m, h) = Inr (m', h') \<Longrightarrow> plm_ctrl_ds_segment m' = plm_ctrl_ds_segment m"
  by (auto simp: add_qh_def add_after_existing_def add_new_interval_def Let_def obind_eq_Inr_iff split: option.splits prod.splits)

lemma periodic_ok_add:
  assumes "periodic_ok off m h c" "c a = Some r"
  shows "\<exists>m' h'. add_qh (aiq_qh r) (aiq_interval r) (m, h) = Inr (m', h') \<and> periodic_ok off m' h' (c(a := None))"
proof -
  obtain ps where ps: "plm_ok off (m, h) ps" "\<And>a r. c a = Some r \<Longrightarrow> addable off m ps (aiq_qh r) \<and> interval_ok (aiq_interval r)"
    using assms(1) unfolding periodic_ok_def by blast
  have u: "a = b" if "c a = Some r" "c b = Some s" "mm_ptr (aiq_qh r) = mm_ptr (aiq_qh s)" for a b r s
    using assms(1) that unfolding periodic_ok_def by blast
  obtain m' h' xs ys where m': "add_qh (aiq_qh r) (aiq_interval r) (m, h) = Inr (m', h')" "ps = xs @ ys"
      "plm_ok off (m', h') (xs @ mm_ptr (aiq_qh r) # ys)"
    using add_qh_inserts [OF ps(1), of "aiq_qh r" "aiq_interval r"] ps(2) [OF assms(2)] by auto
  have "addable off m' (xs @ mm_ptr (aiq_qh r) # ys) (aiq_qh s) \<and> interval_ok (aiq_interval s)"
    if "(c(a := None)) b = Some s" for b s
  proof -
    have b: "c b = Some s" "b \<noteq> a" using that by (auto split: if_splits)
    with u [OF b(1) assms(2)] ps(2) [OF b(1)] m'(2) add_qh_segment [OF m'(1)] show ?thesis by (auto simp: addable_def)
  qed
  moreover have "\<forall>b b' s t. (c(a := None)) b = Some s \<longrightarrow> (c(a := None)) b' = Some t
      \<longrightarrow> mm_ptr (aiq_qh s) = mm_ptr (aiq_qh t) \<longrightarrow> b = b'"
    using u by (auto split: if_splits)
  ultimately show ?thesis using m'(1,3) unfolding periodic_ok_def by blast
qed

subsection \<open>The state of the runner\<close>

fun before_set_addr :: "ResetDeviceStep \<Rightarrow> bool" where
  "before_set_addr (WaitingToStopReset _) = True"
| "before_set_addr (WaitForPortToBeEnabled _) = True"
| "before_set_addr (WaitForSetAddr _) = False"
| "before_set_addr (WaitForQhRemove _ _) = False"

definition root_requests :: "('w, 'a) world \<Rightarrow> reset_device_resources option list" where
  "root_requests w = map (\<lambda>p. signal_content (root_req_signal p)) (wd_root_ports w)"

definition reset_request :: "running \<Rightarrow> reset_device_resources option" where
  "reset_request rn =
     (case rn_resetting_device rn of
        Some rd \<Rightarrow> if before_set_addr (rd_step rd) then Some (rd_req rd) else None
      | None \<Rightarrow> None)"

fun claims :: "running \<Rightarrow> ('w, 'a) world \<Rightarrow> claimant \<Rightarrow> mapped_mem option" where
  "claims rn w (RootReq i) = (if i < length (root_requests w) then map_option rdr_qh (root_requests w ! i) else None)"
| "claims rn w InReset = map_option rdr_qh (reset_request rn)"
| "claims rn w (ControlEp a) = signal_content (ces_req_signal (wd_control_eps w a))"

definition interrupt_claims :: "('w, 'a) world \<Rightarrow> nat \<Rightarrow> add_interrupt_qh_req option" where
  "interrupt_claims w = (\<lambda>a. signal_content (ies_req_signal (wd_interrupt w a)))"

text \<open>The ports the registers have are those the tasks have, at most 15, and the device in reset is on one of them.\<close>

definition ports_ok :: "('w, 'a) rstate \<Rightarrow> bool" where
  "ports_ok = (\<lambda>(rn, w). length (port_sc (regs w)) = length (wd_root_ports w) \<and> length (wd_root_ports w) \<le> 15
     \<and> (\<forall>rd. rn_resetting_device rn = Some rd \<longrightarrow> unat (rd_root_port rd) < length (wd_root_ports w)))"

definition requests_ok :: "(vptr \<Rightarrow> u32) \<Rightarrow> (u32 \<Rightarrow> vptr) \<Rightarrow> ('w, 'a) rstate \<Rightarrow> bool" where
  "requests_ok off at = (\<lambda>(rn, w).
     \<forall>req. Some req \<in> insert (reset_request rn) (set (root_requests w)) \<longrightarrow> reset_resources_ok off at (rn_ctrl_ds_segment rn) req)"

definition driver_ok :: "(vptr \<Rightarrow> u32) \<Rightarrow> (u32 \<Rightarrow> vptr) \<Rightarrow> ('w, 'a) rstate \<Rightarrow> bool" where
  "driver_ok off at = (\<lambda>(rn, w).
     ports_ok (rn, w) \<and> requests_ok off at (rn, w)
     \<and> alm_ctrl_ds_segment (rn_qh_manager rn) = rn_ctrl_ds_segment rn
     \<and> schedule_ok off (rn_ctrl_ds_segment rn) (mm_ptr (anchor_qh (rn_qh_manager rn))) (mc_async (wd_machine w))
         (claims rn w) (addressing_default rn)
     \<and> periodic_ok off (rn_periodic_list_manager rn) (mc_periodic (wd_machine w)) (interrupt_claims w))"

text \<open>How many addresses the runner will need for the resets asked for.\<close>

definition demand :: "('w, 'a) rstate \<Rightarrow> nat" where
  "demand s = pending_requests (snd s) + (if reset_request (fst s) = None then 0 else 1)"

definition addresses_suffice :: "('w, 'a) rstate \<Rightarrow> bool" where
  "addresses_suffice s \<longleftrightarrow> card (used_addrs (rn_addr_allocator (fst s))) + demand s \<le> 128"

text \<open>Changes that leave the lists alone and at most drop claims.\<close>

definition quiet :: "('w, 'a) rstate \<Rightarrow> ('w, 'a) rstate \<Rightarrow> bool" where
  "quiet = (\<lambda>(rn, w) (rn', w').
     length (port_sc (regs w')) = length (port_sc (regs w)) \<and> root_requests w' = root_requests w
     \<and> (\<lambda>a. signal_content (ces_req_signal (wd_control_eps w' a))) \<subseteq>\<^sub>m (\<lambda>a. signal_content (ces_req_signal (wd_control_eps w a)))
     \<and> interrupt_claims w' \<subseteq>\<^sub>m interrupt_claims w
     \<and> hw_keeps (mc_async (wd_machine w)) (mc_async (wd_machine w'))
     \<and> hw_keeps_periodic (mc_periodic (wd_machine w)) (mc_periodic (wd_machine w'))
     \<and> rn_ctrl_ds_segment rn' = rn_ctrl_ds_segment rn \<and> anchor_qh (rn_qh_manager rn') = anchor_qh (rn_qh_manager rn)
     \<and> alm_ctrl_ds_segment (rn_qh_manager rn') = alm_ctrl_ds_segment (rn_qh_manager rn)
     \<and> rn_periodic_list_manager rn' = rn_periodic_list_manager rn
     \<and> rn_addr_allocator rn' = rn_addr_allocator rn
     \<and> (rn_resetting_device rn' = None
        \<or> map_option rd_root_port (rn_resetting_device rn') = map_option rd_root_port (rn_resetting_device rn))
     \<and> addressing_default rn' \<subseteq> addressing_default rn
     \<and> (reset_request rn' = None \<or> reset_request rn' = reset_request rn))"

lemma root_requests_length [simp]: "length (root_requests w) = length (wd_root_ports w)"
  by (simp add: root_requests_def)

lemma pending_requests_eq: "pending_requests w = length (filter (\<lambda>r. r \<noteq> None) (root_requests w))"
proof -
  have "sum_list (map has_request ps) = length (filter (\<lambda>r. r \<noteq> None) (map (\<lambda>p. signal_content (root_req_signal p)) ps))"
    for ps :: "'a root_port_shared list"
    by (induction ps) (simp_all add: has_request_def)
  then show ?thesis by (simp only: pending_requests_def root_requests_def)
qed

lemma quiet_claims: "quiet (rn, w) (rn', w') \<Longrightarrow> claims rn' w' \<subseteq>\<^sub>m claims rn w"
  unfolding map_le_def
proof
  fix s
  assume q: "quiet (rn, w) (rn', w')" and s: "s \<in> dom (claims rn' w')"
  then show "claims rn' w' s = claims rn w s"
    by (cases s) (auto simp: quiet_def map_le_def dom_def dest: map_eq_imp_length_eq)
qed

lemma quiet_ok:
  assumes "quiet (rn, w) (rn', w')" "driver_ok off at (rn, w)"
  shows "driver_ok off at (rn', w')"
proof -
  note q = assms(1) [unfolded quiet_def prod.case]
  have len: "length (wd_root_ports w') = length (wd_root_ports w)" using q root_requests_length by metis
  have "ports_ok (rn', w')" using assms(2) q len by (cases "rn_resetting_device rn") (auto simp: driver_ok_def ports_ok_def)
  moreover have "requests_ok off at (rn', w')"
    using assms(2) q by (auto simp: driver_ok_def requests_ok_def)
  moreover have "schedule_ok off (rn_ctrl_ds_segment rn') (mm_ptr (anchor_qh (rn_qh_manager rn'))) (mc_async (wd_machine w'))
         (claims rn' w') (addressing_default rn')"
    using schedule_ok_mono quiet_claims [OF assms(1)] assms(2) q by (fastforce simp: driver_ok_def)
  moreover have "periodic_ok off (rn_periodic_list_manager rn') (mc_periodic (wd_machine w')) (interrupt_claims w')"
    using periodic_ok_mono assms(2) q by (fastforce simp: driver_ok_def)
  ultimately show ?thesis using assms(2) q by (simp add: driver_ok_def)
qed

lemma quiet_suffice: "quiet s s' \<Longrightarrow> addresses_suffice s \<Longrightarrow> addresses_suffice s'"
  by (cases s; cases s') (auto simp: quiet_def addresses_suffice_def demand_def pending_requests_eq)

lemma interrupt_claims_cong: "wd_interrupt w' = wd_interrupt w \<Longrightarrow> interrupt_claims w' = interrupt_claims w"
  by (simp add: interrupt_claims_def fun_eq_iff)

definition safe :: "(vptr \<Rightarrow> u32) \<Rightarrow> (u32 \<Rightarrow> vptr) \<Rightarrow> (bool \<times> ('w, 'a) rstate) outcome \<Rightarrow> bool" where
  "safe off at r \<longleftrightarrow> (\<exists>b s. r = Inr (b, s) \<and> driver_ok off at s \<and> addresses_suffice s)"

lemma safeI:
  assumes "driver_ok off at (rn, w)" "addresses_suffice (rn, w)" "quiet (rn, w) s'" "r = Inr (b, s')"
  shows "safe off at r"
  using quiet_ok [OF _ assms(1)] quiet_suffice [OF assms(3,2)] assms(3,4) by (cases s') (auto simp: safe_def)

lemma driver_okD:
  assumes "driver_ok off at (rn, w)"
  shows "length (port_sc (regs w)) = length (wd_root_ports w)" "length (wd_root_ports w) \<le> 15"
    and "rn_resetting_device rn = Some rd \<Longrightarrow> unat (rd_root_port rd) < length (wd_root_ports w)"
    and "reset_request rn = Some req \<Longrightarrow> reset_resources_ok off at (rn_ctrl_ds_segment rn) req"
    and "alm_ctrl_ds_segment (rn_qh_manager rn) = rn_ctrl_ds_segment rn"
    and "schedule_ok off (rn_ctrl_ds_segment rn) (mm_ptr (anchor_qh (rn_qh_manager rn))) (mc_async (wd_machine w))
         (claims rn w) (addressing_default rn)"
    and "periodic_ok off (rn_periodic_list_manager rn) (mc_periodic (wd_machine w)) (interrupt_claims w)"
  using assms by (auto simp: driver_ok_def ports_ok_def requests_ok_def)

subsection \<open>The steps of a reset\<close>

lemma root_requests_upd:
  "root_requests (upd_root_port i f ws w)
     = (root_requests w)[i := signal_content (root_req_signal (f (wd_root_ports w ! i)))]"
  by (simp add: root_requests_def upd_root_port_def map_update)

lemma scan_ports_requests:
  assumes "scan_ports ww cx is w = (r, w')" "\<forall>i \<in> set is. i < length (wd_root_ports w)"
  shows "wd_machine w' = wd_machine w \<and> wd_control_eps w' = wd_control_eps w \<and> wd_interrupt w' = wd_interrupt w
    \<and> (case r of None \<Rightarrow> root_requests w' = root_requests w
        | Some (i, req) \<Rightarrow> i < length (wd_root_ports w) \<and> root_requests w ! i = Some req
            \<and> root_requests w' = (root_requests w)[i := None])"
  using assms
proof (induction "is" arbitrary: w)
  case (Cons i "is")
  obtain c sig ws where p: "Signal_poll_wait ww cx (root_req_signal (wd_root_ports w ! i)) = (c, sig, ws)"
    by (cases "Signal_poll_wait ww cx (root_req_signal (wd_root_ports w ! i))") auto
  let ?w = "upd_root_port i (\<lambda>p. p\<lparr>root_req_signal := sig\<rparr>) ws w"
  have i: "i < length (wd_root_ports w)" using Cons.prems(2) by simp
  have c: "c = root_requests w ! i" and sig: "signal_content sig = None"
    using poll_wait_cases [OF p] i by (simp_all add: root_requests_def)
  have w: "root_requests ?w = (root_requests w)[i := None]" by (simp add: root_requests_upd sig)
  show ?case
  proof (cases c)
    case None
    then have "root_requests ?w = root_requests w" using w c i by (metis list_update_id)
    moreover have "scan_ports ww cx is ?w = (r, w')" using Cons.prems(1) p None by simp
    from Cons.IH [OF this] have "wd_machine w' = wd_machine ?w \<and> wd_control_eps w' = wd_control_eps ?w
        \<and> wd_interrupt w' = wd_interrupt ?w \<and> (case r of None \<Rightarrow> root_requests w' = root_requests ?w
        | Some (i, req) \<Rightarrow> i < length (wd_root_ports ?w) \<and> root_requests ?w ! i = Some req
            \<and> root_requests w' = (root_requests ?w)[i := None])"
      using Cons.prems(2) by simp
    ultimately show ?thesis by (simp split: option.splits prod.splits)
  next
    case (Some req)
    then have "r = Some (i, req)" "w' = ?w" using Cons.prems(1) p by auto
    with Some c i w show ?thesis by simp
  qed
qed auto

lemma quiet_signal_root_res:
  assumes "signal_root_res i v w = Inr w'"
  shows "root_requests w' = root_requests w" "wd_interrupt w' = wd_interrupt w"
  using assms by (auto simp: signal_root_res_def obind_eq_Inr_iff root_requests_def upd_root_port_def map_update_same
      split: prod.splits)

lemma begin_reset_safe:
  assumes "i < length (port_sc (regs w))" "i \<le> 15" "now w + 50000000 < 2 ^ 64 * 1000000000"
  shows "\<exists>p d w'. begin_reset i req (rn, w)
      = Inr (rn\<lparr>rn_resetting_device := Some \<lparr>rd_req = req, rd_root_port = p, rd_step = WaitingToStopReset d\<rparr>\<rparr>, w')
    \<and> unat p = i \<and> update_port_reset i True w = Inr w'"
proof -
  have "unat (word_of_nat i :: u4) = i" using assms(2) by (simp add: unat_of_nat take_bit_nat_eq_self)
  moreover from this have "(word_of_nat i :: u4) \<le> 15" using assms(2) by (simp add: word_le_nat_alt)
  ultimately show ?thesis
    using assms by (auto simp: begin_reset_def update_port_reset_def index_list_def uint_new_def
        RootPortNumber_try_from_def duration_add_def from_millis_def upd_regs_def)
qed

lemma reset_idle_safe:
  assumes ok: "driver_ok off at (rn, w)" and "addresses_suffice (rn, w)" and none: "rn_resetting_device rn = None"
    and clock: "now w + 50000000 < 2 ^ 64 * 1000000000"
  shows "safe off at (reset_step aw ww cx elapsed (rn, w))"
proof -
  obtain r w1 where sc: "scan_ports ww cx [0..<length (wd_root_ports w)] w = (r, w1)" by fastforce
  note s = scan_ports_requests [OF sc]
  note d = driver_okD [OF ok]
  show ?thesis
  proof (cases r)
    case None
    have "quiet (rn, w) (rn, w1)" using s None interrupt_claims_cong [of w1 w] by (simp add: quiet_def)
    moreover have "reset_step aw ww cx elapsed (rn, w) = Inr (False, rn, w1)" using None sc none by (simp add: reset_step_def)
    ultimately show ?thesis by (rule safeI [OF ok assms(2)])
  next
    case (Some x)
    then obtain i req where r: "r = Some (i, req)" by (cases x) auto
    have w1: "wd_machine w1 = wd_machine w" "wd_control_eps w1 = wd_control_eps w" "wd_interrupt w1 = wd_interrupt w"
        "i < length (wd_root_ports w)" "root_requests w ! i = Some req" "root_requests w1 = (root_requests w)[i := None]"
      using s r by simp_all
    obtain p t w2 where b: "begin_reset i req (rn, w1)
        = Inr (rn\<lparr>rn_resetting_device := Some \<lparr>rd_req = req, rd_root_port = p, rd_step = WaitingToStopReset t\<rparr>\<rparr>, w2)"
        "unat p = i" "update_port_reset i True w1 = Inr w2"
      using begin_reset_safe [of i w1 req rn] w1 d(1,2) clock by auto
    define rn' where "rn' = rn\<lparr>rn_resetting_device := Some \<lparr>rd_req = req, rd_root_port = p, rd_step = WaitingToStopReset t\<rparr>\<rparr>"
    have w2: "root_requests w2 = (root_requests w)[i := None]" "interrupt_claims w2 = interrupt_claims w"
        "mc_async (wd_machine w2) = mc_async (wd_machine w)" "mc_periodic (wd_machine w2) = mc_periodic (wd_machine w)"
        "length (port_sc (regs w2)) = length (port_sc (regs w))" "wd_control_eps w2 = wd_control_eps w"
      using update_port_reset_Inr(4) [OF b(3)] w1 by (simp_all add: upd_regs_def root_requests_def interrupt_claims_def fun_eq_iff)
    have len: "length (wd_root_ports w2) = length (wd_root_ports w)" using w2(1) by (metis length_list_update root_requests_length)
    have rr: "reset_request rn = None" "reset_request rn' = Some req" using none by (simp_all add: reset_request_def rn'_def)
    have "claims rn' w2 = (claims rn w)(RootReq i := None, InReset := claims rn w (RootReq i))"
    proof
      show "claims rn' w2 x = ((claims rn w)(RootReq i := None, InReset := claims rn w (RootReq i))) x" for x
        by (cases x) (use rr w1 w2 len in \<open>auto simp: nth_list_update\<close>)
    qed
    moreover have "claims rn w InReset = None" by (simp add: rr)
    ultimately have "schedule_ok off (rn_ctrl_ds_segment rn) (mm_ptr (anchor_qh (rn_qh_manager rn))) (mc_async (wd_machine w2))
         (claims rn' w2) (addressing_default rn)"
      using schedule_ok_move [OF d(6), of InReset "RootReq i"] w2(3) by simp
    moreover have "Some q \<in> set (root_requests w)" if "Some q \<in> insert (Some req) (set (root_requests w2))" for q
      using that set_update_subset_insert [of "root_requests w" i None] w1(4,5) nth_mem [of i "root_requests w"]
      unfolding w2(1) by auto
    then have "requests_ok off at (rn', w2)"
      using ok unfolding driver_ok_def requests_ok_def rr prod.case by (auto simp: rn'_def)
    moreover have "ports_ok (rn', w2)" using ok w1(4) b(2) len w2(5) by (simp add: driver_ok_def ports_ok_def rn'_def)
    ultimately have "driver_ok off at (rn', w2)"
      using d(5,7) none w2(2,4) by (simp add: driver_ok_def rn'_def addressing_default_def)
    moreover have "addresses_suffice (rn', w2)"
      using assms(2) scan_ports_pending [OF sc] r rr pending_requests_cong [OF update_port_reset_Inr(1) [OF b(3)]]
      by (simp add: addresses_suffice_def demand_def rn'_def)
    ultimately show ?thesis using sc r b(1) none by (auto simp: reset_step_def rn'_def safe_def)
  qed
qed

lemma quiet_signals:
  assumes "signal_root_res i v w1 = Inr w'" "quiet (rn, w) (rn', w1)" "rn_resetting_device rn' = None"
  shows "quiet (rn, w) (rn', w')"
  using assms(2,3) quiet_signal_root_res(1) [OF assms(1)] interrupt_claims_cong [OF quiet_signal_root_res(2) [OF assms(1)]]
    signal_root_res_Inr(2,9) [OF assms(1)]
  by (simp add: quiet_def)

lemma quiet_gives_up: "quiet (rn, w) (rn\<lparr>rn_resetting_device := None\<rparr>, w)"
  by (simp add: quiet_def addressing_default_def reset_request_def)

lemma disconnected_safe:
  assumes "driver_ok off at (rn, w)" "addresses_suffice (rn, w)" "i < length (wd_root_ports w)"
  shows "safe off at (disconnected i (rn, w))"
proof -
  obtain w' where w': "signal_root_res i (Inl DeviceDisconnected) w = Inr w'" using signal_root_res_ok [OF assms(3)] by blast
  have "quiet (rn, w) (rn\<lparr>rn_resetting_device := None\<rparr>, w')" using quiet_signals [OF w' quiet_gives_up] by simp
  then show ?thesis by (rule safeI [OF assms(1,2)]) (simp add: disconnected_def w')
qed

lemma stop_reset_safe:
  assumes "driver_ok off at (rn, w)" "addresses_suffice (rn, w)" "rn_resetting_device rn = Some rd"
    and "rd_step rd = WaitingToStopReset f" "i < length (wd_root_ports w)" "now w + 50000000 < 2 ^ 64 * 1000000000"
  shows "safe off at (waiting_to_stop_reset elapsed rd i f (rn, w))"
proof -
  let ?v = "port_sc (regs w) ! i"
  have i: "i < length (port_sc (regs w))" using driver_okD(1) [OF assms(1)] assms(5) by simp
  obtain w1 where w1: "update_port_reset i False w = Inr w1" using i by (simp add: update_port_reset_def index_list_def)
  have "quiet (rn, w) (rn\<lparr>rn_resetting_device := Some (rd\<lparr>rd_step := WaitForPortToBeEnabled d\<rparr>)\<rparr>, w1)" for d
    using assms(3,4) unfolding update_port_reset_Inr(4) [OF w1]
    by (simp add: quiet_def addressing_default_def reset_request_def root_requests_def interrupt_claims_def upd_regs_def)
  note stop = safeI [OF assms(1,2) this]
  have same: "quiet (rn, w) (rn, w)" by (simp add: quiet_def)
  show ?thesis
    using disconnected_safe [OF assms(1,2,5)] i assms(6) w1 safeI [OF assms(1,2) same refl, of False]
      stop [where b = True, OF refl]
    by (simp add: waiting_to_stop_reset_def index_list_def duration_add_def from_millis_def update_port_reset_Inr(4) [OF w1] upd_regs_def)
qed

lemma send_set_address_safe:
  assumes "driver_ok off at (rn, w)" "addresses_suffice (rn, w)" "rn_resetting_device rn = Some rd"
    and "rd_step rd = WaitForPortToBeEnabled f"
  shows "\<exists>a rn1 w1. send_set_address (rd_req rd) (rn, w) = Inr (a, rn1, w1)
    \<and> driver_ok off at (rn1\<lparr>rn_resetting_device := Some (rd\<lparr>rd_step := WaitForSetAddr a\<rparr>)\<rparr>, w1)
    \<and> addresses_suffice (rn1\<lparr>rn_resetting_device := Some (rd\<lparr>rd_step := WaitForSetAddr a\<rparr>)\<rparr>, w1)"
proof -
  let ?q = "rdr_qh (rd_req rd)" and ?a = "mm_ptr (anchor_qh (rn_qh_manager rn))"
  note d = driver_okD [OF assms(1)]
  have rr: "reset_request rn = Some (rd_req rd)" using assms(3,4) by (simp add: reset_request_def)
  have "card (used_addrs (rn_addr_allocator rn)) < 128" using assms(2) rr by (simp add: addresses_suffice_def demand_def)
  then have "used_addrs (rn_addr_allocator rn) \<noteq> UNIV" by (auto simp: card_word)
  then obtain a al where al: "allocate_addr (rn_addr_allocator rn) = (Some a, al)" using addr_pool.alloc_succeeds_iff by blast
  note sent = send_set_address_ok [OF d(4) [OF rr] _ _ al]
  obtain qs where qs: "ring off (mc_async (wd_machine w)) ?a qs" "mm_ptr ?q \<notin> set (?a # qs)"
    using d(6) rr by (elim schedule_okE) (metis claims.simps(2) option.simps(9))
  obtain w1 where w1: "send_set_address (rd_req rd) (rn, w) = Inr (a, rn\<lparr>rn_addr_allocator := al\<rparr>, w1)"
    using sent [of w qs] qs d(5) by (auto simp: manager_ok_def)
  let ?rn = "rn\<lparr>rn_addr_allocator := al, rn_resetting_device := Some (rd\<lparr>rd_step := WaitForSetAddr a\<rparr>)\<rparr>"
  note fr = send_set_address_frame(1-4) [OF w1] send_set_address_Inr [OF w1]
  have rr': "reset_request ?rn = None" by (simp add: reset_request_def)
  have req: "root_requests w1 = root_requests w" using fr(5) by (simp add: root_requests_def)
  have "claims ?rn w1 = (claims rn w)(InReset := None)"
  proof
    show "claims ?rn w1 x = ((claims rn w)(InReset := None)) x" for x by (cases x) (simp_all add: rr' req fr)
  qed
  moreover have "ring off (mc_async (wd_machine w1)) ?a (mm_ptr ?q # qs)"
    if "ring off (mc_async (wd_machine w)) ?a qs" "mm_ptr ?q \<notin> set (?a # qs)" for qs
    using sent [of w qs] that d(5) w1 by (auto simp: manager_ok_def)
  then have "schedule_ok off (rn_ctrl_ds_segment rn) ?a (mc_async (wd_machine w1)) ((claims rn w)(InReset := None))
      (insert (mm_ptr ?q) (addressing_default rn))"
    by (intro schedule_ok_add [OF d(6)]) (simp_all add: rr)
  moreover have "addressing_default ?rn = insert (mm_ptr ?q) (addressing_default rn)"
    using assms(3,4) by (simp add: addressing_default_def)
  ultimately have "driver_ok off at (?rn, w1)"
    using assms(1,3) d(5,7) by (simp add: driver_ok_def ports_ok_def requests_ok_def rr' req fr interrupt_claims_def)
  moreover have "card (used_addrs al) \<le> Suc (card (used_addrs (rn_addr_allocator rn)))"
    using addr_pool.alloc_Some [OF al] by (simp add: card_insert_if)
  then have "addresses_suffice (?rn, w1)"
    using assms(2) rr rr' pending_requests_cong [OF fr(5)] by (simp add: addresses_suffice_def demand_def)
  ultimately show ?thesis using w1 by auto
qed

lemma enabled_safe:
  assumes "driver_ok off at (rn, w)" "addresses_suffice (rn, w)" "rn_resetting_device rn = Some rd"
    and "rd_step rd = WaitForPortToBeEnabled f" "i < length (wd_root_ports w)"
  shows "safe off at (wait_for_port_to_be_enabled elapsed rd i f (rn, w))"
proof -
  have i: "i < length (port_sc (regs w))" using driver_okD(1) [OF assms(1)] assms(5) by simp
  obtain a rn1 w1 where on: "send_set_address (rd_req rd) (rn, w) = Inr (a, rn1, w1)"
      "driver_ok off at (rn1\<lparr>rn_resetting_device := Some (rd\<lparr>rd_step := WaitForSetAddr a\<rparr>)\<rparr>, w1)"
      "addresses_suffice (rn1\<lparr>rn_resetting_device := Some (rd\<lparr>rd_step := WaitForSetAddr a\<rparr>)\<rparr>, w1)"
    using send_set_address_safe [OF assms(1-4)] by blast
  obtain w2 where w2: "signal_root_res i (Inl DeviceIsFullSpeed) w = Inr w2" using signal_root_res_ok [OF assms(5)] by blast
  have full: "quiet (rn, w) (rn\<lparr>rn_resetting_device := None\<rparr>, w2)" using quiet_signals [OF w2 quiet_gives_up] by simp
  have same: "quiet (rn, w) (rn, w)" by (simp add: quiet_def)
  have "safe off at (Inr (True, rn1\<lparr>rn_resetting_device := Some (rd\<lparr>rd_step := WaitForSetAddr a\<rparr>)\<rparr>, w1))"
    using on(2,3) by (auto simp: safe_def)
  then show ?thesis
    using disconnected_safe [OF assms(1,2,5)] i on(1) w2 safeI [OF assms(1,2) same refl, of False]
      safeI [OF assms(1,2) full refl, of True]
    by (simp add: wait_for_port_to_be_enabled_def index_list_def)
qed

lemma set_addr_safe:
  assumes "driver_ok off at (rn, w)" "addresses_suffice (rn, w)" "rn_resetting_device rn = Some rd"
    and "rd_step rd = WaitForSetAddr addr"
  shows "safe off at (wait_for_set_addr aw rd addr (rn, w))"
proof (cases "TransferToken_active (qtd_token (mc_qtds (wd_machine w) (mm_ptr (snd (rdr_qtds (rd_req rd))))))")
  case True
  have "quiet (rn, w) (rn, w)" by (simp add: quiet_def)
  then show ?thesis by (rule safeI [where b = False, OF assms(1,2)]) (simp add: wait_for_set_addr_def True)
next
  case False
  let ?p = "mm_ptr (rdr_qh (rd_req rd))"
  note d = driver_okD [OF assms(1)]
  obtain m' cmd' h' where q: "queue_remove_qh (rdr_qh (rd_req rd)) (wd_fresh w)
      (rn_qh_manager rn, usb_cmd (regs w), mc_async (wd_machine w)) = (m', cmd', h')"
    by (metis surj_pair)
  note q' = queue_remove_qh_manager [OF q]
  define rn' where "rn' = rn\<lparr>rn_qh_manager := m', rn_resetting_device := Some (rd\<lparr>rd_step := WaitForQhRemove addr (wd_fresh w)\<rparr>)\<rparr>"
  define w' where "w' = w\<lparr>wd_machine := (wd_machine w)\<lparr>mc_regs := (regs w)\<lparr>usb_cmd := cmd'\<rparr>, mc_async := h'\<rparr>,
      wd_oneshots := (wd_oneshots w)(wd_fresh w := oneshot aw), wd_fresh := Suc (wd_fresh w)\<rparr>"
  have on: "addressing_default rn = {?p}" "addressing_default rn' = {}"
    using assms(3,4) by (simp_all add: addressing_default_def rn'_def)
  have rr: "reset_request rn = None" "reset_request rn' = None" using assms(3,4) by (simp_all add: reset_request_def rn'_def)
  have req: "root_requests w' = root_requests w" by (simp add: root_requests_def w'_def)
  have "claims rn' w' = claims rn w"
  proof
    show "claims rn' w' x = claims rn w x" for x by (cases x) (simp_all add: rr req, simp add: w'_def)
  qed
  moreover have "schedule_ok off (rn_ctrl_ds_segment rn) (mm_ptr (anchor_qh (rn_qh_manager rn))) h' (claims rn w) {}"
    using schedule_ok_remove d(6) on(1) q'(3) by auto
  moreover have "interrupt_claims w' = interrupt_claims w" by (simp add: interrupt_claims_def w'_def)
  moreover have "requests_ok off at (rn', w')"
    using assms(1) unfolding driver_ok_def requests_ok_def prod.case rr req by (simp add: rn'_def)
  moreover have "ports_ok (rn', w')" using assms(1,3) by (simp add: driver_ok_def ports_ok_def rn'_def w'_def)
  ultimately have "driver_ok off at (rn', w')"
    using d(5,7) q' on(2) by (simp add: driver_ok_def) (simp add: rn'_def w'_def)
  moreover have "addresses_suffice (rn', w')"
    using assms(2) rr pending_requests_cong [of w' w] by (simp add: addresses_suffice_def demand_def rn'_def w'_def)
  moreover have "wait_for_set_addr aw rd addr (rn, w) = Inr (True, rn', w')"
    using False q by (simp add: wait_for_set_addr_def Let_def rn'_def w'_def)
  ultimately show ?thesis by (auto simp: safe_def)
qed

lemma qh_remove_safe:
  assumes "driver_ok off at (rn, w)" "addresses_suffice (rn, w)" "rn_resetting_device rn = Some rd"
    and "rd_step rd = WaitForQhRemove addr rx" "i < length (wd_root_ports w)"
  shows "safe off at (wait_for_qh_remove aw cx rd i addr rx (rn, w))"
proof -
  obtain r sh where p: "OneshotReceiver_poll aw cx (wd_oneshots w rx) = (r, sh)" by fastforce
  let ?w1 = "w\<lparr>wd_oneshots := (wd_oneshots w)(rx := sh)\<rparr>"
  let ?ds = "wd_fresh w"
  let ?w2 = "?w1\<lparr>wd_devices := (wd_devices w)(?ds := DeviceSharedState_default),
      wd_control_eps := (wd_control_eps w)(Suc ?ds := ControlEndpointSharedState_default), wd_fresh := Suc (Suc ?ds)\<rparr>"
  let ?rn = "rn\<lparr>rn_devices := (rn_devices rn)(rd_root_port rd \<mapsto> ?ds),
      rn_control_endpoints := rn_control_endpoints rn @ [Suc ?ds], rn_resetting_device := None\<rparr>"
  have q1: "quiet (rn, w) (rn, ?w1)" by (simp add: quiet_def root_requests_def interrupt_claims_def)
  have q2: "quiet (rn, w) (?rn, ?w2)"
    by (auto simp: quiet_def root_requests_def interrupt_claims_def addressing_default_def reset_request_def map_le_def
        ControlEndpointSharedState_default_def Signal_default_def split: if_splits)
  have "i < length (wd_root_ports ?w2)" using assms(5) by simp
  from signal_root_res_ok [OF this] obtain w3
    where w3: "signal_root_res i (Inr (Device_new ?ds (rn_ctrl_ds_segment rn) addr (Suc ?ds))) ?w2 = Inr w3" by blast
  have q3: "quiet (rn, w) (?rn, w3)" using quiet_signals [OF w3 q2] by simp
  show ?thesis
    using p w3 safeI [OF assms(1,2) q1 refl, of False] safeI [OF assms(1,2) q3 refl, of True]
    by (simp add: wait_for_qh_remove_def Let_def)
qed

lemma reset_step_safe:
  assumes "driver_ok off at (rn, w)" "addresses_suffice (rn, w)" "now w + 50000000 < 2 ^ 64 * 1000000000"
  shows "safe off at (reset_step aw ww cx elapsed (rn, w))"
proof (cases "rn_resetting_device rn")
  case None
  with assms show ?thesis by (intro reset_idle_safe)
next
  case (Some rd)
  note d = driver_okD [OF assms(1)]
  note i = d(3) [OF Some]
  show ?thesis
  proof (cases "rd_step rd")
    case (WaitingToStopReset f)
    with stop_reset_safe [OF assms(1,2) Some WaitingToStopReset i assms(3)] Some i d(1) show ?thesis by (simp add: reset_step_def)
  next
    case (WaitForPortToBeEnabled f)
    with enabled_safe [OF assms(1,2) Some WaitForPortToBeEnabled i] Some i d(1) show ?thesis by (simp add: reset_step_def)
  next
    case (WaitForSetAddr a)
    with set_addr_safe [OF assms(1,2) Some WaitForSetAddr] Some i d(1) show ?thesis by (simp add: reset_step_def)
  next
    case (WaitForQhRemove a rx)
    with qh_remove_safe [OF assms(1,2) Some WaitForQhRemove i] Some i d(1) show ?thesis by (simp add: reset_step_def)
  qed
qed

text \<open>What the controller may do between two iterations: it leaves the links of the two lists and the number of ports alone, and the clock
  stays below its limit.\<close>

definition hardware_ok :: "(nat \<Rightarrow> machine \<Rightarrow> machine) \<Rightarrow> bool" where
  "hardware_ok hw \<longleftrightarrow> (\<forall>k mc. hw_keeps (mc_async mc) (mc_async (hw k mc)) \<and> hw_keeps_periodic (mc_periodic mc) (mc_periodic (hw k mc))
     \<and> length (port_sc (mc_regs (hw k mc))) = length (port_sc (mc_regs mc)) \<and> mc_now (hw k mc) + 50000000 < 2 ^ 64 * 1000000000)"

lemma reset_loop_safe:
  assumes hw: "hardware_ok hw"
  shows "driver_ok off at s \<Longrightarrow> addresses_suffice s
    \<Longrightarrow> \<exists>s'. reset_loop aw ww cx elapsed hw k s = Inr s' \<and> driver_ok off at s' \<and> addresses_suffice s'"
proof (induction "reset_rank s" arbitrary: s k rule: less_induct)
  case less
  obtain rn w where s: "s = (rn, w)" by (cases s)
  let ?w = "w\<lparr>wd_machine := hw k (wd_machine w)\<rparr>"
  have q: "quiet (rn, w) (rn, ?w)" using hw by (simp add: quiet_def hardware_ok_def root_requests_def interrupt_claims_def)
  have "safe off at (reset_step aw ww cx elapsed (rn, ?w))"
    using quiet_ok [OF q] quiet_suffice [OF q] less.prems hw unfolding s by (intro reset_step_safe) (simp_all add: hardware_ok_def)
  then obtain b t where t: "reset_step aw ww cx elapsed (with_hw (hw k) s) = Inr (b, t)" "driver_ok off at t" "addresses_suffice t"
    by (auto simp: safe_def s with_hw_def)
  show ?case
  proof (cases b)
    case True
    then have "reset_rank t < reset_rank s" using reset_step_rank [of aw ww cx elapsed "with_hw (hw k) s" t] t(1) by simp
    from less.hyps [OF this t(2,3)] t(1) True show ?thesis by (simp add: reset_loop.simps [of aw ww cx elapsed hw k s])
  qed (use t in \<open>simp add: reset_loop.simps [of aw ww cx elapsed hw k s]\<close>)
qed

subsection \<open>The rest of a poll\<close>

definition ok_state :: "(vptr \<Rightarrow> u32) \<Rightarrow> (u32 \<Rightarrow> vptr) \<Rightarrow> ('w, 'a) rstate \<Rightarrow> bool" where
  "ok_state off at s \<longleftrightarrow> driver_ok off at s \<and> addresses_suffice s"

lemma quiet_ok_state: "quiet s s' \<Longrightarrow> ok_state off at s \<Longrightarrow> ok_state off at s'"
  using quiet_ok quiet_suffice unfolding ok_state_def by (metis surj_pair)

lemma quiet_refl [simp]: "quiet s s"
  by (cases s) (simp add: quiet_def)

lemma quiet_world:
  assumes "wd_machine w' = wd_machine w" "root_requests w' = root_requests w"
    and "\<And>a. ces_req_signal (wd_control_eps w' a) = ces_req_signal (wd_control_eps w a)"
    and "\<And>a. ies_req_signal (wd_interrupt w' a) = ies_req_signal (wd_interrupt w a)"
  shows "quiet (rn, w) (rn, w')"
  using assms by (simp add: quiet_def interrupt_claims_def)

lemma dispatch_quiet: "quiet (rn, w) (rn, dispatch_usb_int rn w)"
proof (rule quiet_world)
  have "ces_req_signal (wd_control_eps (fold signal_control_int as v) a) = ces_req_signal (wd_control_eps v a)"
    "ies_req_signal (wd_interrupt (fold signal_interrupt_int as v) a) = ies_req_signal (wd_interrupt v a)"
    for as a and v :: "('a, 'b) world"
    by (rule fold_frame [of "\<lambda>v. ces_req_signal (wd_control_eps v a)"], simp)
      (rule fold_frame [of "\<lambda>v. ies_req_signal (wd_interrupt v a)"], simp)
  then show "ces_req_signal (wd_control_eps (dispatch_usb_int rn w) a) = ces_req_signal (wd_control_eps w a)"
    "ies_req_signal (wd_interrupt (dispatch_usb_int rn w) a) = ies_req_signal (wd_interrupt w a)" for a
    by (simp_all add: dispatch_usb_int_def fold_frame [of wd_interrupt] fold_frame [of wd_control_eps])
qed (simp_all add: root_requests_def)

lemma async_advance_quiet: "quiet s (async_advance aw s)"
proof -
  obtain rn w where s: "s = (rn, w)" by (cases s)
  obtain m cmd os ws where h: "handle_async_advance aw (rn_qh_manager rn, usb_cmd (regs w), wd_oneshots w) = (m, cmd, os, ws)"
    by (metis surj_pair)
  then have "anchor_qh m = anchor_qh (rn_qh_manager rn)" "alm_ctrl_ds_segment m = alm_ctrl_ds_segment (rn_qh_manager rn)"
    by (auto simp: handle_async_advance_def Let_def split: prod.splits)
  with h show ?thesis
    by (simp add: s async_advance_def quiet_def upd_usb_cmd_def upd_regs_def root_requests_def interrupt_claims_def
        addressing_default_def reset_request_def cong: option.case_cong)
qed

lemma port_changed_quiet: "quiet (rn, w) (rn, fold signal_port_changed is w)"
proof -
  have "root_requests (signal_port_changed i v) = root_requests v" for i and v :: "('a, 'b) world"
    by (simp add: signal_port_changed_def root_requests_def upd_root_port_def map_update_same split: prod.split)
  moreover have "wd_machine (signal_port_changed i v) = wd_machine v" for i and v :: "('a, 'b) world"
    by (simp add: signal_port_changed_def split: prod.split)
  ultimately show ?thesis
    by (intro quiet_world) (simp_all add: fold_frame [of root_requests] fold_frame [of wd_machine] fold_port_changed)
qed

lemma poll_irq_ok:
  assumes "ok_state off at s"
  shows "ok_state off at (poll_irq aw cx s)"
proof -
  obtain rn w where s: "s = (rn, w)" by (cases s)
  define sh where "sh = (wd_irq w)\<lparr>runner_waker := aw_register aw cx (runner_waker (wd_irq w))\<rparr>"
  define w1 where "w1 = w\<lparr>wd_irq := snd (take_irq_flags sh)\<rparr>"
  define w2 where "w2 = (if new_usb_int sh \<or> new_usb_err_int sh then dispatch_usb_int rn w1 else w1)"
  define s3 where "s3 = (if new_async_advance sh then async_advance aw (rn, w2) else (rn, w2))"
  have p: "poll_irq aw cx s = (fst s3, if new_port_change_detect sh
      then fold signal_port_changed [0..<length (wd_root_ports (snd s3))] (snd s3) else snd s3)"
    unfolding s s3_def w2_def w1_def sh_def poll_irq_def by (simp add: take_irq_flags_def Let_def)
  have "quiet (rn, w) (rn, w1)" by (rule quiet_world) (simp_all add: w1_def root_requests_def)
  then have "ok_state off at (rn, w1)" using assms quiet_ok_state s by blast
  moreover have "quiet (rn, w1) (rn, w2)" by (simp add: w2_def dispatch_quiet)
  ultimately have "ok_state off at (rn, w2)" using quiet_ok_state by blast
  moreover have "quiet (rn, w2) s3" by (simp add: s3_def async_advance_quiet)
  ultimately have "ok_state off at s3" using quiet_ok_state by blast
  moreover have "quiet s3 (poll_irq aw cx s)" unfolding p using port_changed_quiet [of "fst s3" "snd s3"] by simp
  ultimately show ?thesis using quiet_ok_state by blast
qed

lemma poll_device_ok: "ok_state off at s \<Longrightarrow> ok_state off at (poll_device ww cx a s)"
  by (erule quiet_ok_state [rotated], cases s)
    (simp add: poll_device_def quiet_def Let_def root_requests_def interrupt_claims_def addressing_default_def reset_request_def
      split: prod.split option.split cong: option.case_cong)

lemma poll_control_endpoint_ok:
  assumes "ok_state off at s"
  shows "\<exists>s'. poll_control_endpoint ww cx a s = Inr s' \<and> ok_state off at s'"
proof -
  obtain rn w where s: "s = (rn, w)" by (cases s)
  obtain r sig ws where p: "Signal_poll_wait ww cx (ces_req_signal (wd_control_eps w a)) = (r, sig, ws)"
    by (metis surj_pair)
  define w1 where "w1 = w\<lparr>wd_control_eps := (wd_control_eps w)(a := (wd_control_eps w a)\<lparr>ces_req_signal := sig\<rparr>), wd_woken := wd_woken w @ ws\<rparr>"
  note c = poll_wait_cases [OF p]
  have q: "quiet (rn, w) (rn, w1)"
    using c by (auto simp: quiet_def w1_def root_requests_def interrupt_claims_def map_le_def split: if_splits)
  then have ok1: "ok_state off at (rn, w1)" using assms quiet_ok_state s by blast
  show ?thesis
  proof (cases r)
    case None
    with ok1 show ?thesis using p by (simp add: s poll_control_endpoint_def w1_def Let_def)
  next
    case (Some x)
    let ?a = "mm_ptr (anchor_qh (rn_qh_manager rn))"
    let ?h = "inserted_heap off ?a (mm_ptr x) (mc_async (wd_machine w1))"
    let ?w = "w1\<lparr>wd_machine := (wd_machine w1)\<lparr>mc_async := ?h\<rparr>\<rparr>"
    have ok: "driver_ok off at (rn, w)" using assms by (simp add: s ok_state_def)
    note d = driver_okD [OF ok]
    have x: "claims rn w (ControlEp a) = Some x" using c Some by simp
    have m: "wd_machine w1 = wd_machine w" by (simp add: w1_def)
    have "get_addr_offset (phys_addr x) (rn_ctrl_ds_segment rn) = Inr (off (mm_ptr x))"
      using d(6) x by (elim schedule_okE) blast
    then have "poll_control_endpoint ww cx a s = Inr (rn, ?w)"
      using p Some add_qh_to_async_list_eq [of x "rn_qh_manager rn" off "mc_async (wd_machine w1)"] d(5)
      by (simp add: s poll_control_endpoint_def Let_def w1_def)
    moreover have cl: "claims rn ?w = (claims rn w)(ControlEp a := None)"
    proof
      show "claims rn ?w y = ((claims rn w)(ControlEp a := None)) y" for y
        using c by (cases y) (simp_all add: w1_def root_requests_def)
    qed
    have "schedule_ok off (rn_ctrl_ds_segment rn) ?a ?h ((claims rn w)(ControlEp a := None)) (insert (mm_ptr x) (addressing_default rn))"
      unfolding m using d(6) x by (rule schedule_ok_add) (rule ring_inserted)
    then have "schedule_ok off (rn_ctrl_ds_segment rn) ?a ?h (claims rn ?w) (addressing_default rn)"
      unfolding cl by (rule schedule_ok_mono) auto
    then have "driver_ok off at (rn, ?w)"
      using ok1 by (simp add: ok_state_def driver_ok_def ports_ok_def requests_ok_def root_requests_def interrupt_claims_def)
    moreover have "addresses_suffice (rn, ?w)"
      using ok1 pending_requests_cong [of ?w w1] by (simp add: ok_state_def addresses_suffice_def demand_def)
    ultimately show ?thesis by (simp add: ok_state_def)
  qed
qed

lemma poll_interrupt_endpoint_ok:
  assumes "ok_state off at s"
  shows "\<exists>s'. poll_interrupt_endpoint aw ww cx a s = Inr s' \<and> ok_state off at s'"
proof -
  obtain rn w where s: "s = (rn, w)" by (cases s)
  obtain r sig ws where p: "Signal_poll_wait ww cx (ies_req_signal (wd_interrupt w a)) = (r, sig, ws)"
    by (metis surj_pair)
  define w1 where "w1 = w\<lparr>wd_interrupt := (wd_interrupt w)(a := (wd_interrupt w a)\<lparr>ies_req_signal := sig\<rparr>), wd_woken := wd_woken w @ ws\<rparr>"
  note c = poll_wait_cases [OF p]
  have q: "quiet (rn, w) (rn, w1)"
    using c by (auto simp: quiet_def w1_def root_requests_def interrupt_claims_def map_le_def split: if_splits)
  then have ok1: "ok_state off at (rn, w1)" using assms quiet_ok_state s by blast
  show ?thesis
  proof (cases r)
    case None
    with ok1 show ?thesis using p by (simp add: s poll_interrupt_endpoint_def w1_def Let_def)
  next
    case (Some x)
    have ok: "driver_ok off at (rn, w)" using assms by (simp add: s ok_state_def)
    have x: "interrupt_claims w a = Some x" using c Some by (simp add: interrupt_claims_def)
    obtain m' h' where m': "add_qh (aiq_qh x) (aiq_interval x) (rn_periodic_list_manager rn, mc_periodic (wd_machine w)) = Inr (m', h')"
        "periodic_ok off m' h' ((interrupt_claims w)(a := None))"
      using periodic_ok_add [OF driver_okD(7) [OF ok] x] by blast
    obtain sh wk where t: "OneshotSender_send aw () (wd_oneshots w (aiq_callback x)) = (sh, wk)" by (metis surj_pair)
    let ?w = "w1\<lparr>wd_machine := (wd_machine w1)\<lparr>mc_periodic := h'\<rparr>, wd_oneshots := (wd_oneshots w1)(aiq_callback x := sh),
        wd_woken := wd_woken w1 @ (case wk of None \<Rightarrow> [] | Some y \<Rightarrow> [y])\<rparr>"
    let ?rn = "rn\<lparr>rn_periodic_list_manager := m'\<rparr>"
    have "poll_interrupt_endpoint aw ww cx a s = Inr (?rn, ?w)"
      using p Some m'(1) t by (simp add: s poll_interrupt_endpoint_def Let_def w1_def)
    moreover have ic: "interrupt_claims ?w = (interrupt_claims w)(a := None)"
      using c by (simp add: interrupt_claims_def w1_def fun_eq_iff)
    have rr: "reset_request ?rn = reset_request rn" "addressing_default ?rn = addressing_default rn"
      by (simp_all add: reset_request_def addressing_default_def cong: option.case_cong)
    have "claims ?rn ?w = claims rn w1"
    proof
      show "claims ?rn ?w y = claims rn w1 y" for y by (cases y) (simp_all add: rr root_requests_def)
    qed
    then have "driver_ok off at (?rn, ?w)"
      using ok1 m'(2) ic by (simp add: ok_state_def driver_ok_def ports_ok_def requests_ok_def root_requests_def rr)
    moreover have "addresses_suffice (?rn, ?w)"
      using ok1 pending_requests_cong [of ?w w1] rr by (simp add: ok_state_def addresses_suffice_def demand_def)
    ultimately show ?thesis by (auto simp: ok_state_def)
  qed
qed

lemma ofold_ok:
  assumes "\<And>x s. P s \<Longrightarrow> \<exists>s'. f x s = Inr s' \<and> P s'"
  shows "P s \<Longrightarrow> \<exists>s'. ofold f xs s = Inr s' \<and> P s'"
proof (induction xs arbitrary: s)
  case (Cons x xs)
  from assms [OF Cons.prems] obtain t where "f x s = Inr t" "P t" by blast
  with Cons.IH [of t] show ?case by simp
qed simp

lemma poll_requests_ok:
  assumes "ok_state off at s"
  shows "\<exists>s'. poll_requests aw ww cx s = Inr s' \<and> ok_state off at s'"
proof -
  define s1 where "s1 = fold (poll_device ww cx) (device_arcs (fst s)) s"
  have "ok_state off at (fold (poll_device ww cx) as t)" if "ok_state off at t" for as t
    using that by (induction as arbitrary: t) (simp_all add: poll_device_ok)
  then have "ok_state off at s1" using assms by (simp add: s1_def)
  then obtain s2 where s2: "ofold (poll_interrupt_endpoint aw ww cx) (rn_interrupt_endpoints (fst s1)) s1 = Inr s2" "ok_state off at s2"
    using ofold_ok [of "ok_state off at"] poll_interrupt_endpoint_ok by metis
  then obtain s3 where "ofold (poll_control_endpoint ww cx) (rn_control_endpoints (fst s2)) s2 = Inr s3" "ok_state off at s3"
    using ofold_ok [of "ok_state off at"] poll_control_endpoint_ok by metis
  with s2(1) show ?thesis by (simp add: poll_requests_def Let_def s1_def)
qed

lemma running_poll_ok:
  assumes "ok_state off at s" "hardware_ok hw"
  shows "\<exists>s'. running_poll aw ww cx elapsed hw s = Inr s' \<and> ok_state off at s'"
proof -
  obtain s1 where s1: "poll_requests aw ww cx (poll_irq aw cx s) = Inr s1" "ok_state off at s1"
    using poll_requests_ok [OF poll_irq_ok [OF assms(1)]] by blast
  with reset_loop_safe [OF assms(2), of off at s1] show ?thesis by (auto simp: running_poll_def ok_state_def)
qed

end
