(* ===== verification/Driver_Runs.thy ===== *)
theory Driver_Runs
  imports Poll_Safety
begin

text \<open>
  Whole runs of the driver after its start: the runner polls (\<^verbatim>\<open>runner.rs\<close>); tasks ask for the reset of a port
  (\<^verbatim>\<open>root_port.rs\<close>), load control endpoints (\<^verbatim>\<open>control_endpoint.rs\<close>) and watch interrupt endpoints (\<^verbatim>\<open>interrupt_endpoint.rs\<close>),
  each with memory of its own; and everything else, the controller and the other parts of the tasks, leaves links
  and requests alone.  In such a run no poll panics.
\<close>

subsection \<open>New claims\<close>

text \<open>Memory for a queue head that is in the segment, on no list and in no request.\<close>

definition unused :: "(vptr \<Rightarrow> u32) \<Rightarrow> ('w, 'a) rstate \<Rightarrow> mapped_mem \<Rightarrow> bool" where
  "unused off = (\<lambda>(rn, w) q.
     get_addr_offset (phys_addr q) (rn_ctrl_ds_segment rn) = Inr (off (mm_ptr q))
     \<and> (\<forall>s p. claims rn w s = Some p \<longrightarrow> mm_ptr p \<noteq> mm_ptr q)
     \<and> (\<forall>qs. ring off (mc_async (wd_machine w)) (mm_ptr (anchor_qh (rn_qh_manager rn))) qs
          \<longrightarrow> mm_ptr q \<notin> set (mm_ptr (anchor_qh (rn_qh_manager rn)) # qs)))"

definition unused_periodic :: "(vptr \<Rightarrow> u32) \<Rightarrow> ('w, 'a) rstate \<Rightarrow> mapped_mem \<Rightarrow> bool" where
  "unused_periodic off = (\<lambda>(rn, w) q.
     (\<forall>a r. interrupt_claims w a = Some r \<longrightarrow> mm_ptr (aiq_qh r) \<noteq> mm_ptr q)
     \<and> (\<forall>ps. plm_ok off (rn_periodic_list_manager rn, mc_periodic (wd_machine w)) ps
          \<longrightarrow> addable off (rn_periodic_list_manager rn) ps q))"

lemma schedule_ok_claim:
  assumes "schedule_ok off seg a h c on" "get_addr_offset (phys_addr q) seg = Inr (off (mm_ptr q))"
    and "\<And>s p. c s = Some p \<Longrightarrow> mm_ptr p \<noteq> mm_ptr q"
    and "\<And>qs. ring off h a qs \<Longrightarrow> mm_ptr q \<notin> set (a # qs)" "\<And>x. x \<noteq> mm_ptr q \<Longrightarrow> h' x = h x"
  shows "schedule_ok off seg a h' (c(s \<mapsto> q)) on"
  using assms(1)
proof (rule schedule_okE)
  fix qs
  assume qs: "ring off h a qs" "on \<subseteq> set qs"
    "\<And>s q. c s = Some q \<Longrightarrow> mm_ptr q \<notin> set (a # qs) \<and> get_addr_offset (phys_addr q) seg = Inr (off (mm_ptr q))"
    "\<And>s t p q. c s = Some p \<Longrightarrow> c t = Some q \<Longrightarrow> mm_ptr p = mm_ptr q \<Longrightarrow> s = t"
  note new = assms(4) [OF qs(1)]
  have "h' x = h x" if "x \<in> set (a # qs)" for x using that new by (intro assms(5)) blast
  then have "ring off h' a qs" by (intro ring_cong [OF qs(1)]) simp
  then show ?thesis using qs(2)
  proof (rule schedule_okI)
    fix t p assume "(c(s \<mapsto> q)) t = Some p"
    then have "p = q \<or> c t = Some p" by (auto split: if_splits)
    then show "mm_ptr p \<notin> set (a # qs) \<and> get_addr_offset (phys_addr p) seg = Inr (off (mm_ptr p))"
      using new assms(2) qs(3) by blast
  next
    fix t u p r assume e: "(c(s \<mapsto> q)) t = Some p" "(c(s \<mapsto> q)) u = Some r" "mm_ptr p = mm_ptr r"
    show "t = u"
      by (cases "t = s"; cases "u = s") (use e in \<open>auto dest: assms(3) qs(4)\<close>)
  qed
qed

lemma periodic_ok_claim:
  assumes "periodic_ok off m h c" "interval_ok (aiq_interval r)"
    and "\<And>a s. c a = Some s \<Longrightarrow> mm_ptr (aiq_qh s) \<noteq> mm_ptr (aiq_qh r)"
    and "\<And>ps. plm_ok off (m, h) ps \<Longrightarrow> addable off m ps (aiq_qh r)" "\<And>x. x \<noteq> mm_ptr (aiq_qh r) \<Longrightarrow> h' x = h x"
  shows "periodic_ok off m h' (c(a \<mapsto> r))"
proof -
  obtain ps where ps: "plm_ok off (m, h) ps" "\<And>a r. c a = Some r \<Longrightarrow> addable off m ps (aiq_qh r) \<and> interval_ok (aiq_interval r)"
    using assms(1) unfolding periodic_ok_def by blast
  have u: "a = b" if "c a = Some r" "c b = Some s" "mm_ptr (aiq_qh r) = mm_ptr (aiq_qh s)" for a b r s
    using assms(1) that unfolding periodic_ok_def by blast
  have "mm_ptr (aiq_qh r) \<notin> set ps" using assms(4) [OF ps(1)] by (simp add: addable_def)
  then have "h' x = h x" if "x \<in> set ps" for x using that assms(5) by metis
  then have "plist off h' ps" using ps(1) by (auto simp: plm_ok_def intro: plist_cong)
  then have "plm_ok off (m, h') ps" using ps(1) by (simp add: plm_ok_def cong: option.case_cong)
  moreover have "addable off m ps (aiq_qh s) \<and> interval_ok (aiq_interval s)" if "(c(a \<mapsto> r)) b = Some s" for b s
    using that ps(2) assms(2) assms(4) [OF ps(1)] by (auto split: if_splits)
  moreover have "b = b'" if e: "(c(a \<mapsto> r)) b = Some s" "(c(a \<mapsto> r)) b' = Some t" "mm_ptr (aiq_qh s) = mm_ptr (aiq_qh t)" for b b' s t
    by (cases "b = a"; cases "b' = a") (use e in \<open>auto dest: assms(3) u\<close>)
  ultimately show ?thesis unfolding periodic_ok_def by blast
qed

subsection \<open>What the tasks do\<close>

lemma reset_device_request_ok:
  assumes ok: "driver_ok off at (rn, w)" and "i < length (wd_root_ports w)"
    and res: "reset_resources_ok off at (rn_ctrl_ds_segment rn) req" and new: "unused off (rn, w) (rdr_qh req)"
  shows "driver_ok off at (rn, reset_device_request i req w)"
proof -
  let ?w = "reset_device_request i req w"
  note d = driver_okD [OF ok]
  have w: "wd_machine ?w = wd_machine w" "wd_control_eps ?w = wd_control_eps w" "interrupt_claims ?w = interrupt_claims w"
      "root_requests ?w = (root_requests w)[i := Some req]" "length (wd_root_ports ?w) = length (wd_root_ports w)"
    by (simp_all add: reset_device_request_def Signal_signal_eq root_requests_upd interrupt_claims_def)
  have "claims rn ?w = (claims rn w)(RootReq i \<mapsto> rdr_qh req)"
  proof
    show "claims rn ?w x = ((claims rn w)(RootReq i \<mapsto> rdr_qh req)) x" for x
      using assms(2) by (cases x) (auto simp: w nth_list_update)
  qed
  moreover have "schedule_ok off (rn_ctrl_ds_segment rn) (mm_ptr (anchor_qh (rn_qh_manager rn))) (mc_async (wd_machine w))
      ((claims rn w)(RootReq i \<mapsto> rdr_qh req)) (addressing_default rn)"
    using new by (intro schedule_ok_claim [OF d(6)]) (auto simp: unused_def)
  moreover have "requests_ok off at (rn, ?w)"
    using ok res set_update_subset_insert [of "root_requests w" i "Some req"]
    unfolding driver_ok_def requests_ok_def w(4) prod.case by auto
  ultimately show ?thesis using ok w by (simp add: driver_ok_def ports_ok_def)
qed

text \<open>A task that loads a control endpoint, and one that starts to watch an interrupt endpoint.\<close>

definition load_control ::
    "control_endpoint \<Rightarrow> nat \<Rightarrow> mapped_mem \<Rightarrow> ('w, 'a) world \<Rightarrow> ('w, 'a) world outcome" where
  "load_control ep a q w =
     obind (ControlEndpoint_load ep q (mc_async (wd_machine w), wd_control_eps w a)) (\<lambda>(_, (h, sh), ws).
     Inr (w\<lparr>wd_machine := (wd_machine w)\<lparr>mc_async := h\<rparr>, wd_control_eps := (wd_control_eps w)(a := sh), wd_woken := wd_woken w @ ws\<rparr>))"

definition watch_interrupt ::
    "('w, 'a) atomic_waker \<Rightarrow> interrupt_endpoint \<Rightarrow> nat \<Rightarrow> watch_resources \<Rightarrow> ('w, 'a) world \<Rightarrow> ('w, 'a) world outcome" where
  "watch_interrupt aw ep a r w =
     obind (watch_start ep r (wd_fresh w) (mc_periodic (wd_machine w), wd_interrupt w a)) (\<lambda>((h, sh), ws).
     Inr (w\<lparr>wd_machine := (wd_machine w)\<lparr>mc_periodic := h\<rparr>, wd_interrupt := (wd_interrupt w)(a := sh), wd_woken := wd_woken w @ ws,
         wd_oneshots := (wd_oneshots w)(wd_fresh w := oneshot aw), wd_fresh := Suc (wd_fresh w)\<rparr>))"

lemma load_control_ok:
  assumes ok: "driver_ok off at (rn, w)" and "load_control ep a q w = Inr w'" and new: "unused off (rn, w) q"
  shows "driver_ok off at (rn, w')"
proof -
  note d = driver_okD [OF ok]
  obtain ep' h sh ws where l: "ControlEndpoint_load ep q (mc_async (wd_machine w), wd_control_eps w a) = Inr (ep', (h, sh), ws)"
      "signal_content (ces_req_signal sh) = Some q" "h = (mc_async (wd_machine w))(mm_ptr q := h (mm_ptr q))"
    using control_load_is_inert [of ep q "mc_async (wd_machine w)" "wd_control_eps w a"] by auto
  have w': "w' = w\<lparr>wd_machine := (wd_machine w)\<lparr>mc_async := h\<rparr>, wd_control_eps := (wd_control_eps w)(a := sh), wd_woken := wd_woken w @ ws\<rparr>"
    using assms(2) l(1) by (simp add: load_control_def)
  have "claims rn w' = (claims rn w)(ControlEp a \<mapsto> q)"
  proof
    show "claims rn w' x = ((claims rn w)(ControlEp a \<mapsto> q)) x" for x
      using l(2) by (cases x) (auto simp: w' root_requests_def)
  qed
  moreover have "schedule_ok off (rn_ctrl_ds_segment rn) (mm_ptr (anchor_qh (rn_qh_manager rn))) h
      ((claims rn w)(ControlEp a \<mapsto> q)) (addressing_default rn)"
    using new by (intro schedule_ok_claim [OF d(6)]) (auto simp: unused_def, metis fun_upd_other l(3))
  ultimately show ?thesis
    using ok by (simp add: driver_ok_def ports_ok_def requests_ok_def w' root_requests_def interrupt_claims_def)
qed

lemma watch_interrupt_ok:
  assumes ok: "driver_ok off at (rn, w)" and "watch_interrupt aw ep a r w = Inr w'" and new: "unused_periodic off (rn, w) (wr_qh r)"
  shows "driver_ok off at (rn, w')"
proof -
  note d = driver_okD [OF ok]
  obtain h sh ws where l: "watch_start ep r (wd_fresh w) (mc_periodic (wd_machine w), wd_interrupt w a) = Inr ((h, sh), ws)"
    and w': "w' = w\<lparr>wd_machine := (wd_machine w)\<lparr>mc_periodic := h\<rparr>, wd_interrupt := (wd_interrupt w)(a := sh), wd_woken := wd_woken w @ ws,
         wd_oneshots := (wd_oneshots w)(wd_fresh w := oneshot aw), wd_fresh := Suc (wd_fresh w)\<rparr>"
    using assms(2) by (auto simp: watch_interrupt_def obind_eq_Inr_iff)
  obtain iv where iv: "ies_req_signal sh = SigSignaled \<lparr>aiq_qh = wr_qh r, aiq_interval = iv, aiq_callback = wd_fresh w\<rparr>"
      "interval_ok iv" "h = (mc_periodic (wd_machine w))(mm_ptr (wr_qh r) := (mc_periodic (wd_machine w) (mm_ptr (wr_qh r)))\<lparr>qhp_qh := interrupt_qh ep\<rparr>)"
    using l by (rule watch_start_request)
  let ?r = "\<lparr>aiq_qh = wr_qh r, aiq_interval = iv, aiq_callback = wd_fresh w\<rparr>"
  have "periodic_ok off (rn_periodic_list_manager rn) h ((interrupt_claims w)(a \<mapsto> ?r))"
    using new iv(2,3) by (intro periodic_ok_claim [OF d(7)]) (auto simp: unused_periodic_def)
  moreover have "interrupt_claims w' = (interrupt_claims w)(a \<mapsto> ?r)"
    using iv(1) by (simp add: interrupt_claims_def w' fun_eq_iff)
  moreover have "claims rn w' = claims rn w"
  proof
    show "claims rn w' x = claims rn w x" for x by (cases x) (simp_all add: w' root_requests_def)
  qed
  ultimately show ?thesis using ok by (simp add: driver_ok_def ports_ok_def requests_ok_def w' root_requests_def)
qed

subsection \<open>Runs\<close>

inductive driver_run ::
    "(vptr \<Rightarrow> u32) \<Rightarrow> (u32 \<Rightarrow> vptr) \<Rightarrow> ('w, 'a) atomic_waker \<Rightarrow> ('w \<Rightarrow> 'w \<Rightarrow> bool) \<Rightarrow> 'w
      \<Rightarrow> (duration \<Rightarrow> duration \<Rightarrow> bool) \<Rightarrow> ('w, 'a) rstate \<Rightarrow> ('w, 'a) rstate \<Rightarrow> bool"
  for off at aw ww cx elapsed s0 where
  dr_start: "driver_run off at aw ww cx elapsed s0 s0"
| dr_poll: "driver_run off at aw ww cx elapsed s0 s \<Longrightarrow> addresses_suffice s \<Longrightarrow> hardware_ok hw \<Longrightarrow>
     running_poll aw ww cx elapsed hw s = Inr s' \<Longrightarrow> driver_run off at aw ww cx elapsed s0 s'"
| dr_reset: "driver_run off at aw ww cx elapsed s0 (rn, w) \<Longrightarrow> i < length (wd_root_ports w) \<Longrightarrow>
     reset_resources_ok off at (rn_ctrl_ds_segment rn) req \<Longrightarrow> unused off (rn, w) (rdr_qh req) \<Longrightarrow>
     driver_run off at aw ww cx elapsed s0 (rn, reset_device_request i req w)"
| dr_load: "driver_run off at aw ww cx elapsed s0 (rn, w) \<Longrightarrow> unused off (rn, w) q \<Longrightarrow> load_control ep a q w = Inr w' \<Longrightarrow>
     driver_run off at aw ww cx elapsed s0 (rn, w')"
| dr_watch: "driver_run off at aw ww cx elapsed s0 (rn, w) \<Longrightarrow> unused_periodic off (rn, w) (wr_qh r) \<Longrightarrow>
     watch_interrupt aw iep a r w = Inr w' \<Longrightarrow> driver_run off at aw ww cx elapsed s0 (rn, w')"
| dr_other: "driver_run off at aw ww cx elapsed s0 (rn, w) \<Longrightarrow> quiet (rn, w) (rn, w') \<Longrightarrow>
     driver_run off at aw ww cx elapsed s0 (rn, w')"

lemma driver_run_ok: "driver_run off at aw ww cx elapsed s0 s \<Longrightarrow> driver_ok off at s0 \<Longrightarrow> driver_ok off at s"
proof (induction rule: driver_run.induct)
  case (dr_poll s hw s')
  then show ?case using running_poll_ok [of off at s hw aw ww cx elapsed] by (auto simp: ok_state_def)
qed (auto intro: reset_device_request_ok load_control_ok watch_interrupt_ok quiet_ok)

text \<open>The handler's part and the hardware's are among the other steps.\<close>

lemma irq_quiet: "quiet (rn, w) (rn, irq aw w)"
  by (simp add: irq_def quiet_def upd_regs_def root_requests_def interrupt_claims_def split: prod.split)

text \<open>No request before the start, and one signal per port register.\<close>

definition idle_world :: "('w, 'a) world \<Rightarrow> bool" where
  "idle_world w \<longleftrightarrow> length (port_sc (regs w)) = length (wd_root_ports w) \<and> length (wd_root_ports w) \<le> 15
     \<and> (\<forall>p \<in> set (wd_root_ports w). signal_content (root_req_signal p) = None)
     \<and> (\<forall>a. signal_content (ces_req_signal (wd_control_eps w a)) = None)
     \<and> (\<forall>a. signal_content (ies_req_signal (wd_interrupt w a)) = None)"

lemma start_driver_ok:
  assumes "start_config_ok off (mc_caps (wd_machine w0)) config" "start_controller config (usb_cmd (regs w0)) w0 = Inr (rn, w)"
    and "idle_world w0"
  shows "driver_ok off at (rn, w)"
proof -
  have w: "wd_root_ports w = wd_root_ports w0" "wd_control_eps w = wd_control_eps w0" "wd_interrupt w = wd_interrupt w0"
      "port_sc (regs w) = port_sc (regs w0)"
    using assms(2) by (auto simp: start_controller_def Let_def obind_eq_Inr_iff signal_control_res_def upd_regs_def upd_usb_cmd_def
        Signal_signal_eq split: if_splits)
  have r: "ring off (mc_async (wd_machine w)) (mm_ptr (sc_qh config)) []"
    and rn: "rn_resetting_device rn = None" "rn_ctrl_ds_segment rn = sc_ctrl_ds_segment config"
      "rn_qh_manager rn = AsyncListManager_new (sc_qh config) (sc_ctrl_ds_segment config)"
      "rn_periodic_list_manager rn = PeriodicListManager_new PeriodicFrameList_EMPTY (sc_ctrl_ds_segment config)"
    using start_controller_result [OF assms(1)] assms(2) by auto
  have rr: "reset_request rn = None" "addressing_default rn = {}" by (simp_all add: rn(1) reset_request_def addressing_default_def)
  have req: "root_requests w = replicate (length (wd_root_ports w0)) None"
    by (rule replicate_eqI) (use assms(3) in \<open>auto simp: root_requests_def w idle_world_def\<close>)
  have "claims rn w x = None" for x
    by (cases x) (use assms(3) in \<open>simp_all add: rr req w idle_world_def\<close>)
  then have "schedule_ok off (rn_ctrl_ds_segment rn) (mm_ptr (anchor_qh (rn_qh_manager rn))) (mc_async (wd_machine w)) (claims rn w) {}"
    using r by (intro schedule_okI [of _ _ _ "[]"]) (simp_all add: rn AsyncListManager_new_def)
  moreover have "interrupt_claims w = Map.empty" using assms(3) by (simp add: interrupt_claims_def w idle_world_def fun_eq_iff)
  then have "periodic_ok off (rn_periodic_list_manager rn) (mc_periodic (wd_machine w)) (interrupt_claims w)"
    by (auto simp: periodic_ok_def rn plm_ok_def plist_def PeriodicListManager_new_def PeriodicFrameList_EMPTY_def)
  moreover have "requests_ok off at (rn, w)" by (simp add: requests_ok_def rr req)
  ultimately show ?thesis
    using assms(3) by (simp add: driver_ok_def ports_ok_def rn rr w idle_world_def AsyncListManager_new_def)
qed

text \<open>C3: The runner does not panic in its running state.  In every run after a start in which the tasks hand over memory of their
  own (queue heads that are in the segment, on no list and in no other request), every poll of the runner returns and it stays
  in its running state, as long as an address is left for each reset asked for and the clock is
  below its limit.  The poll also keeps both lists well formed, so the same holds for the next one.\<close>

theorem runner_never_panics:
  assumes "start_config_ok off (mc_caps (wd_machine w0)) config" "idle_world w0"
    and "start_controller config (usb_cmd (regs w0)) w0 = Inr (rn1, w1)"
    and "driver_run off at aw ww cx elapsed (rn1, w1) (rn, w)" "addresses_suffice (rn, w)" "hardware_ok hw"
  shows "\<exists>rn' w' qs ps. run_step aw ww cx elapsed hw (Running rn, w) = Inr (Waits, Running rn', w')
    \<and> driver_run off at aw ww cx elapsed (rn1, w1) (rn', w')
    \<and> ring off (mc_async (wd_machine w')) (mm_ptr (anchor_qh (rn_qh_manager rn'))) qs
    \<and> plm_ok off (rn_periodic_list_manager rn', mc_periodic (wd_machine w')) ps"
proof -
  have "driver_ok off at (rn, w)" using driver_run_ok [OF assms(4) start_driver_ok [OF assms(1,3,2)]] .
  then obtain rn' w' where p: "running_poll aw ww cx elapsed hw (rn, w) = Inr (rn', w')" "driver_ok off at (rn', w')"
    using running_poll_ok [of off at "(rn, w)" hw aw ww cx elapsed] assms(5,6) by (auto simp: ok_state_def)
  note d = driver_okD(6,7) [OF p(2)]
  obtain qs where "ring off (mc_async (wd_machine w')) (mm_ptr (anchor_qh (rn_qh_manager rn'))) qs"
    using d(1) by (rule schedule_okE)
  moreover obtain ps where "plm_ok off (rn_periodic_list_manager rn', mc_periodic (wd_machine w')) ps"
    using d(2) by (auto simp: periodic_ok_def)
  moreover have "driver_run off at aw ww cx elapsed (rn1, w1) (rn', w')"
    using driver_run.dr_poll [OF assms(4-6) p(1)] .
  ultimately show ?thesis using p(1) by (auto simp: run_step_def)
qed

lemma ring_empty_unique: "ring off h a [] \<Longrightarrow> ring off h a qs \<Longrightarrow> qs = []"
  by (cases qs) (auto simp: ring_def linked_def)

theorem runner_never_panics_witness:
  "\<exists>rn1 w1 rn' w'. start_controller example_start_config (usb_cmd (regs example_world)) example_world = Inr (rn1, w1)
    \<and> run_step option_waker (=) 7 (\<le>) (\<lambda>_ mc. mc\<lparr>mc_now := 5000000\<rparr>)
        (Running rn1, reset_device_request 0 example_reset_resources w1) = Inr (Waits, Running rn', w')"
proof -
  have idle: "idle_world example_world"
    by (simp add: idle_world_def example_world_def example_machine_def RootPortSharedState_default_def Signal_default_def
        ControlEndpointSharedState_default_def InterruptEndpointSharedState_default_def)
  obtain w1 where s: "start_controller example_start_config (usb_cmd (regs example_world)) example_world = Inr (example_running None, w1)"
    and r: "ring ucast (mc_async (wd_machine w1)) (mm_ptr (sc_qh example_start_config)) []"
    using start_controller_result [OF example_start_config_ok]
    by (auto simp: example_running_def example_start_config_def example_manager_def)
  have w1: "wd_root_ports w1 = wd_root_ports example_world" "wd_control_eps w1 = wd_control_eps example_world"
    using s by (auto simp: start_controller_def Let_def obind_eq_Inr_iff signal_control_res_def upd_regs_def upd_usb_cmd_def
        Signal_signal_eq split: if_splits)
  have a: "mm_ptr (anchor_qh (rn_qh_manager (example_running None))) = mm_ptr (sc_qh example_start_config)"
    by (simp add: example_running_def example_start_config_def example_manager_def AsyncListManager_new_def)
  have c: "claims (example_running None) w1 x = None" for x
    by (cases x) (simp_all add: w1 root_requests_def example_world_def RootPortSharedState_default_def Signal_default_def
        ControlEndpointSharedState_default_def reset_request_def example_running_def)
  have "unused ucast (example_running None, w1) (rdr_qh example_reset_resources)"
    using ring_empty_unique [OF r] unfolding unused_def prod.case c a
    by (fastforce simp: example_running_def example_reset_resources_def example_start_config_def get_addr_offset_def LOWER_4_G_def)
  moreover have "reset_resources_ok ucast ucast (rn_ctrl_ds_segment (example_running None)) example_reset_resources"
    by (simp add: example_running_def example_reset_resources_def reset_resources_ok_def
          qtd_mem_ok_def window_ok_def aligned32_def get_addr_offset_def LOWER_4_G_def)
  moreover have "0 < length (wd_root_ports w1)" by (simp add: w1 example_world_def)
  ultimately have run: "driver_run ucast ucast option_waker (=) 7 (\<le>) (example_running None, w1)
      (example_running None, reset_device_request 0 example_reset_resources w1)"
    by (intro driver_run.dr_reset driver_run.dr_start)
  have "addresses_suffice (example_running None, reset_device_request 0 example_reset_resources w1)"
    by (simp add: addresses_suffice_def demand_def pending_requests_eq reset_device_request_def Signal_signal_eq upd_root_port_def
        root_requests_def w1 example_world_def example_running_def reset_request_def used_default)
  moreover have "hardware_ok (\<lambda>_ mc. mc\<lparr>mc_now := 5000000\<rparr>)" by (simp add: hardware_ok_def)
  ultimately show ?thesis using runner_never_panics [OF example_start_config_ok idle s run] s by blast
qed

end
