(* ===== verification/Reset_Protocol.thy ===== *)
theory Reset_Protocol
  imports Port_Reset
begin

text \<open>
  What the reset loop of the runner (\<^verbatim>\<open>runner.rs\<close>) promises, without registers, memory, clocks and channels: a protocol
  that serves one port at a time and answers every request once, with an error or with the address
  of the device.  Every iteration of the loop is a step of the protocol and puts the answer of that step, and no
  other, into the port's result signal; so what is proved of the protocol holds of the loop.
\<close>

subsection \<open>The protocol\<close>

datatype phase =
    Idle
  | InReset root_port_number
  | Enabling root_port_number
  | Addressing root_port_number u7
  | Removing root_port_number u7

type_synonym answer = "root_port_number \<times> (Error + u7)"

record proto =
  pr_phase :: phase
  pr_taken :: "u7 set"

inductive proto_step :: "proto \<Rightarrow> answer option \<Rightarrow> proto \<Rightarrow> bool" where
  pr_stutter: "proto_step s None s"
| pr_accept: "pr_phase s = Idle \<Longrightarrow> proto_step s None (s\<lparr>pr_phase := InReset p\<rparr>)"
| pr_over: "pr_phase s = InReset p \<Longrightarrow> proto_step s None (s\<lparr>pr_phase := Enabling p\<rparr>)"
| pr_gone: "pr_phase s = InReset p \<or> pr_phase s = Enabling p \<Longrightarrow>
     proto_step s (Some (p, Inl DeviceDisconnected)) (s\<lparr>pr_phase := Idle\<rparr>)"
| pr_slow: "pr_phase s = Enabling p \<Longrightarrow> proto_step s (Some (p, Inl DeviceIsFullSpeed)) (s\<lparr>pr_phase := Idle\<rparr>)"
| pr_address: "pr_phase s = Enabling p \<Longrightarrow> a \<notin> pr_taken s \<Longrightarrow>
     proto_step s None \<lparr>pr_phase = Addressing p a, pr_taken = insert a (pr_taken s)\<rparr>"
| pr_remove: "pr_phase s = Addressing p a \<Longrightarrow> proto_step s None (s\<lparr>pr_phase := Removing p a\<rparr>)"
| pr_deliver: "pr_phase s = Removing p a \<Longrightarrow> proto_step s (Some (p, Inr a)) (s\<lparr>pr_phase := Idle\<rparr>)"

inductive_cases proto_deliverE: "proto_step s (Some (p, Inr a)) t"

text \<open>The answers of a run, in order.\<close>

inductive proto_run :: "proto \<Rightarrow> answer list \<Rightarrow> proto \<Rightarrow> bool" for s where
  run_start: "proto_run s [] s"
| run_silent: "proto_run s as t \<Longrightarrow> proto_step t None u \<Longrightarrow> proto_run s as u"
| run_answer: "proto_run s as t \<Longrightarrow> proto_step t (Some x) u \<Longrightarrow> proto_run s (as @ [x]) u"

definition addresses :: "answer list \<Rightarrow> u7 list" where
  "addresses as = List.map_filter (\<lambda>(p, r). case r of Inr a \<Rightarrow> Some a | Inl _ \<Rightarrow> None) as"

lemma addresses_simps [simp]:
  "addresses [] = []" "addresses (as @ bs) = addresses as @ addresses bs"
  "addresses [(p, Inr a)] = [a]" "addresses [(p, Inl e)] = []"
  by (simp_all add: addresses_def map_filter_def)

fun pending_addr :: "phase \<Rightarrow> u7 set" where
  "pending_addr (Addressing p a) = {a}"
| "pending_addr (Removing p a) = {a}"
| "pending_addr _ = {}"

definition proto_inv :: "u7 set \<Rightarrow> answer list \<Rightarrow> proto \<Rightarrow> bool" where
  "proto_inv T as s \<longleftrightarrow> distinct (addresses as) \<and> set (addresses as) \<inter> (T \<union> pending_addr (pr_phase s)) = {}
     \<and> set (addresses as) \<union> pending_addr (pr_phase s) \<union> T \<subseteq> pr_taken s \<and> pending_addr (pr_phase s) \<inter> T = {}"

lemma proto_run_inv:
  assumes "proto_run s as t" "pr_phase s = Idle"
  shows "proto_inv (pr_taken s) as t"
  using assms(1)
proof induction
  case run_start
  then show ?case using assms(2) by (simp add: proto_inv_def)
next
  case (run_silent as t u)
  from run_silent.hyps(2) run_silent.IH show ?case by cases (auto simp: proto_inv_def)
next
  case (run_answer as t x u)
  from run_answer.hyps(2) run_answer.IH show ?case by cases (auto simp: proto_inv_def)
qed

subsection \<open>The loop implements the protocol\<close>

fun abs_step :: "root_port_number \<Rightarrow> ResetDeviceStep \<Rightarrow> phase" where
  "abs_step p (WaitingToStopReset f) = InReset p"
| "abs_step p (WaitForPortToBeEnabled f) = Enabling p"
| "abs_step p (WaitForSetAddr a) = Addressing p a"
| "abs_step p (WaitForQhRemove a rx) = Removing p a"

definition abs_state :: "running \<Rightarrow> proto" where
  "abs_state rn = \<lparr>pr_phase = (case rn_resetting_device rn of None \<Rightarrow> Idle | Some rd \<Rightarrow> abs_step (rd_root_port rd) (rd_step rd)),
     pr_taken = used_addrs (rn_addr_allocator rn)\<rparr>"

definition results :: "('w, 'a) world \<Rightarrow> (Error + device, 'w) signal_state list" where
  "results w = map root_res_signal (wd_root_ports w)"

text \<open>The answer of a step stands in the result signal of its port; all other results are as before.\<close>

fun answers :: "answer option \<Rightarrow> ('w, 'a) world \<Rightarrow> ('w, 'a) world \<Rightarrow> bool" where
  "answers None w w' \<longleftrightarrow> results w' = results w"
| "answers (Some (p, Inl e)) w w' \<longleftrightarrow> unat p < length (results w) \<and> results w' = (results w)[unat p := SigSignaled (Inl e)]"
| "answers (Some (p, Inr a)) w w' \<longleftrightarrow> unat p < length (results w)
     \<and> (\<exists>dev. dev_address dev = a \<and> results w' = (results w)[unat p := SigSignaled (Inr dev)])"

lemma results_signal:
  assumes "signal_root_res i v w = Inr w'"
  shows "i < length (results w)" "results w' = (results w)[i := SigSignaled v]"
  using assms by (cases "root_res_signal (wd_root_ports w ! i)";
      auto simp: signal_root_res_def obind_eq_Inr_iff index_list_def upd_root_port_def results_def map_update split: if_splits)+

lemma results_scan: "scan_ports ww cx is w = (r, w') \<Longrightarrow> results w' = results w"
proof (induction "is" arbitrary: w)
  case (Cons i "is")
  obtain c sig ws where p: "Signal_poll_wait ww cx (root_req_signal (wd_root_ports w ! i)) = (c, sig, ws)"
    by (cases "Signal_poll_wait ww cx (root_req_signal (wd_root_ports w ! i))") auto
  let ?w = "upd_root_port i (\<lambda>p. p\<lparr>root_req_signal := sig\<rparr>) ws w"
  have "results ?w = results w"
    by (auto simp: results_def upd_root_port_def map_update list_update_id intro!: nth_equalityI)
      (metis length_map list_update_id map_update nth_list_update nth_map)
  with p Cons.prems Cons.IH [of ?w] show ?case by (cases c) auto
qed simp

lemma send_set_address_abs:
  assumes "send_set_address req (rn, w) = Inr (addr, rn', w')"
  shows "addr \<notin> used_addrs (rn_addr_allocator rn)"
    and "used_addrs (rn_addr_allocator rn') = insert addr (used_addrs (rn_addr_allocator rn))"
    and "results w' = results w"
proof -
  obtain alloc where a: "allocate_addr (rn_addr_allocator rn) = (Some addr, alloc)" "rn' = rn\<lparr>rn_addr_allocator := alloc\<rparr>"
      "wd_root_ports w' = wd_root_ports w"
    using assms by (auto simp: send_set_address_def Let_def obind_eq_Inr_iff split: prod.splits option.splits)
  from addr_pool.alloc_Some [OF a(1)] a show "addr \<notin> used_addrs (rn_addr_allocator rn)"
    "used_addrs (rn_addr_allocator rn') = insert addr (used_addrs (rn_addr_allocator rn))" "results w' = results w"
    by (simp_all add: results_def)
qed

lemma simulatedI:
  assumes "proto_step (abs_state rn) x t" "t = abs_state rn'" "answers x w w'"
  shows "\<exists>x. proto_step (abs_state rn) x (abs_state rn') \<and> answers x w w'"
  using assms by auto

lemma abs_state_simps [simp]:
  "rn_resetting_device rn = None \<Longrightarrow> pr_phase (abs_state rn) = Idle"
  "rn_resetting_device rn = Some rd \<Longrightarrow> pr_phase (abs_state rn) = abs_step (rd_root_port rd) (rd_step rd)"
  "pr_taken (abs_state rn) = used_addrs (rn_addr_allocator rn)"
  by (simp_all add: abs_state_def)

lemma reset_step_simulated:
  assumes "reset_step aw ww cx elapsed (rn, w) = Inr (b, rn', w')"
  shows "\<exists>x. proto_step (abs_state rn) x (abs_state rn') \<and> answers x w w'"
  using assms
proof (cases rule: reset_step_cases)
  case idle
  then show ?thesis using results_scan [OF idle(2)] by (intro simulatedI [OF pr_stutter]) simp_all
next
  case (accept i req w1 p d)
  have "results w' = results w"
    using results_scan [OF accept(3)] update_port_reset_Inr(1) [OF accept(5)] by (simp add: results_def)
  with accept show ?thesis by (intro simulatedI [OF pr_accept [of _ p]]) (simp_all add: abs_state_def)
next
  case (gone rd f)
  then show ?thesis
    using results_signal [OF gone(4)] by (intro simulatedI [OF pr_gone [of _ "rd_root_port rd"]]) (auto simp: abs_state_def)
next
  case (over rd f d)
  then show ?thesis
    using update_port_reset_Inr(1) [OF over(4)]
    by (intro simulatedI [OF pr_over [of _ "rd_root_port rd"]]) (simp_all add: abs_state_def results_def)
next
  case (slow rd f)
  then show ?thesis
    using results_signal [OF slow(4)] by (intro simulatedI [OF pr_slow [of _ "rd_root_port rd"]]) (simp_all add: abs_state_def)
next
  case (address rd f a rn1)
  then show ?thesis
    using send_set_address_abs [OF address(4)]
    by (intro simulatedI [OF pr_address [of _ "rd_root_port rd" a]]) (simp_all add: abs_state_def)
next
  case (remove rd a m cmd h)
  then show ?thesis
    by (intro simulatedI [OF pr_remove [of _ "rd_root_port rd" a]]) (simp_all add: abs_state_def results_def)
next
  case (deliver rd a rx sh)
  have "answers (Some (rd_root_port rd, Inr a)) w w'"
    using results_signal [OF deliver(4)]
    by (simp add: results_def) (metis device.select_convs(1) Device_new_def)
  with deliver show ?thesis by (intro simulatedI [OF pr_deliver [of _ "rd_root_port rd" a]]) (simp_all add: abs_state_def)
qed (auto intro: pr_stutter simulatedI [OF pr_stutter] simp: results_def)

lemma scan_ports_in: "scan_ports ww cx is w = (Some (i, req), w') \<Longrightarrow> i \<in> set is"
  by (induction "is" arbitrary: w) (auto simp: Let_def split: prod.splits option.splits)

lemma scan_ports_requested:
  assumes "scan_ports ww cx is w = (Some (i, req), w')" "distinct is" "\<forall>i \<in> set is. i < length (wd_root_ports w)"
  shows "signal_content (root_req_signal (wd_root_ports w ! i)) = Some req"
  using assms
proof (induction "is" arbitrary: w)
  case (Cons j "is")
  obtain c sig ws where p: "Signal_poll_wait ww cx (root_req_signal (wd_root_ports w ! j)) = (c, sig, ws)"
    by (cases "Signal_poll_wait ww cx (root_req_signal (wd_root_ports w ! j))") auto
  let ?w = "upd_root_port j (\<lambda>p. p\<lparr>root_req_signal := sig\<rparr>) ws w"
  show ?case
  proof (cases c)
    case None
    with p Cons.prems(1) have sc: "scan_ports ww cx is ?w = (Some (i, req), w')" by simp
    then have "i \<in> set is" by (rule scan_ports_in)
    with Cons.prems(2) have "j \<noteq> i" by auto
    moreover have "signal_content (root_req_signal (wd_root_ports ?w ! i)) = Some req"
      using Cons.prems by (intro Cons.IH [OF sc]) simp_all
    ultimately show ?thesis by (simp add: upd_root_port_def)
  next
    case (Some r)
    with p Cons.prems(1) have "i = j" "r = req" by auto
    with Some poll_wait_cases [OF p] show ?thesis by simp
  qed
qed simp

lemma reset_step_accepts:
  assumes "reset_step aw ww cx elapsed (rn, w) = Inr (b, rn', w')" "rn_resetting_device rn = None"
    and "rn_resetting_device rn' = Some rd"
  shows "signal_content (root_req_signal (wd_root_ports w ! unat (rd_root_port rd))) = Some (rd_req rd)"
  using assms(1)
proof (cases rule: reset_step_cases)
  case (accept i req w1 p d)
  with assms(3) show ?thesis using scan_ports_requested [OF accept(3)] by auto
qed (use assms(2,3) in simp_all)

text \<open>C9: The reset loop implements the protocol: every iteration, in every state whatever, is a step of the protocol between
  the abstractions of the two states; the result signals of the ports change by exactly the answer of that step; and a
  port is taken up only on a request of that port, with the memory of the request.  So every answer goes to the port that
  asked, and a device that is delivered has the address allocated for it.\<close>

theorem reset_step_refines_protocol:
  assumes "reset_step aw ww cx elapsed (rn, w) = Inr (b, rn', w')"
  shows "(\<exists>x. proto_step (abs_state rn) x (abs_state rn') \<and> answers x w w')
    \<and> (\<forall>rd. rn_resetting_device rn = None \<and> rn_resetting_device rn' = Some rd
        \<longrightarrow> signal_content (root_req_signal (wd_root_ports w ! unat (rd_root_port rd))) = Some (rd_req rd))"
  using reset_step_simulated [OF assms] reset_step_accepts [OF assms] by blast

theorem reset_step_refines_protocol_witness:
  "\<exists>w' x. reset_step option_waker (=) 7 (\<le>)
       (example_running (Some (example_resetting (WaitForPortToBeEnabled 2000000))), example_port_world 0x1001)
     = Inr (True, example_running None, w')
    \<and> proto_step (abs_state (example_running (Some (example_resetting (WaitForPortToBeEnabled 2000000))))) x
        (abs_state (example_running None)) \<and> answers x (example_port_world 0x1001) w'"
proof -
  obtain w' where s: "reset_step option_waker (=) 7 (\<le>)
       (example_running (Some (example_resetting (WaitForPortToBeEnabled 2000000))), example_port_world 0x1001)
     = Inr (True, example_running None, w')"
    by (simp add: reset_step_def example_running_def example_resetting_def example_port_world_def example_world_def
        example_machine_def wait_for_port_to_be_enabled_def bitfield_defs flag_get_def index_list_def signal_root_res_def
        RootPortSharedState_default_def Signal_default_def Let_def)
  from reset_step_refines_protocol [OF s] s show ?thesis by blast
qed

subsection \<open>Runs\<close>

text \<open>Runs of the runner: iterations of the loop, and in between anything that leaves the device being reset and the
  allocator alone (the other parts of the poll, the other tasks, the hardware).  The list holds the addresses of the
  devices delivered, read off the device table: a delivery ends the removal of a queue head.\<close>

fun delivered :: "phase \<Rightarrow> phase \<Rightarrow> u7 list" where
  "delivered (Removing p a) Idle = [a]"
| "delivered _ _ = []"

inductive reset_run ::
    "('w, 'a) atomic_waker \<Rightarrow> ('w \<Rightarrow> 'w \<Rightarrow> bool) \<Rightarrow> 'w \<Rightarrow> (duration \<Rightarrow> duration \<Rightarrow> bool) \<Rightarrow> ('w, 'a) rstate
      \<Rightarrow> u7 list \<Rightarrow> ('w, 'a) rstate \<Rightarrow> bool"
  for aw ww cx elapsed s0 where
  rs_start: "reset_run aw ww cx elapsed s0 [] s0"
| rs_other: "reset_run aw ww cx elapsed s0 as (rn, w) \<Longrightarrow> rn_resetting_device rn' = rn_resetting_device rn \<Longrightarrow>
     rn_addr_allocator rn' = rn_addr_allocator rn \<Longrightarrow> reset_run aw ww cx elapsed s0 as (rn', w')"
| rs_step: "reset_run aw ww cx elapsed s0 as (rn, w) \<Longrightarrow> reset_step aw ww cx elapsed (rn, w) = Inr (b, rn', w') \<Longrightarrow>
     reset_run aw ww cx elapsed s0 (as @ delivered (pr_phase (abs_state rn)) (pr_phase (abs_state rn'))) (rn', w')"

lemma delivered_same [simp]: "delivered p p = []"
  by (cases p) simp_all

lemma delivered_addresses:
  assumes "proto_step s x t"
  shows "delivered (pr_phase s) (pr_phase t) = addresses (case x of None \<Rightarrow> [] | Some y \<Rightarrow> [y])"
  using assms by cases auto

lemma reset_run_simulated:
  assumes "reset_run aw ww cx elapsed s0 as s"
  shows "\<exists>xs. proto_run (abs_state (fst s0)) xs (abs_state (fst s)) \<and> addresses xs = as"
  using assms
proof induction
  case rs_start
  then show ?case using proto_run.run_start by fastforce
next
  case (rs_other as rn w rn' w')
  then have "abs_state rn' = abs_state rn" by (simp add: abs_state_def)
  with rs_other.IH show ?case by simp
next
  case (rs_step as rn w b rn' w')
  obtain xs where xs: "proto_run (abs_state (fst s0)) xs (abs_state rn)" "addresses xs = as"
    using rs_step.IH by auto
  obtain x where x: "proto_step (abs_state rn) x (abs_state rn')"
    using reset_step_simulated [OF rs_step.hyps(2)] by blast
  show ?case
  proof (cases x)
    case None
    with x have "proto_run (abs_state (fst s0)) xs (abs_state rn')" using proto_run.run_silent [OF xs(1)] by simp
    with None xs(2) delivered_addresses [OF x] show ?thesis by (intro exI [of _ xs]) simp
  next
    case (Some y)
    with x have "proto_run (abs_state (fst s0)) (xs @ [y]) (abs_state rn')" using proto_run.run_answer [OF xs(1)] by simp
    with Some xs(2) delivered_addresses [OF x] show ?thesis by (intro exI [of _ "xs @ [y]"]) simp
  qed
qed

text \<open>C10: No two devices ever get the same address: in every run of the runner after a start, with whatever happens between the
  iterations of the loop, the addresses of the devices delivered are pairwise distinct, none is
  the default address 0, and there are at most 127.\<close>

theorem device_addresses_unique:
  assumes "start_controller config (usb_cmd (regs w0)) w0 = Inr (rn1, w1)"
    and "reset_run aw ww cx elapsed (rn1, w1) as (rn, w)"
  shows "distinct as \<and> 0 \<notin> set as \<and> length as \<le> 127"
proof -
  have rn1: "rn_resetting_device rn1 = None" "rn_addr_allocator rn1 = AddressAllocator_default"
    using assms(1) by (auto simp: start_controller_def Let_def obind_eq_Inr_iff split: if_splits)
  obtain xs where xs: "proto_run (abs_state rn1) xs (abs_state rn)" "addresses xs = as"
    using reset_run_simulated [OF assms(2)] by auto
  have "proto_inv {0} xs (abs_state rn)"
    using proto_run_inv [OF xs(1)] rn1 by (simp add: abs_state_def used_default)
  then have d: "distinct as" "0 \<notin> set as" using xs(2) by (auto simp: proto_inv_def)
  have "card (insert 0 (set as)) \<le> card (UNIV :: u7 set)" by (intro card_mono) simp_all
  then have "length as \<le> 127" using d by (simp add: distinct_card card_word)
  with d show ?thesis by simp
qed

text \<open>A run in which the device on port 0 is reset, addressed and delivered.\<close>

lemmas example_step_defs = reset_step_def example_running_def example_resetting_def example_port_world_def example_world_def
  example_machine_def Let_def index_list_def

lemma example_accepts:
  "\<exists>w' d. reset_step option_waker (=) 7 (\<lambda>_ _. True) (example_running None, (example_port_world 0x1001)
       \<lparr>wd_root_ports := [RootPortSharedState_default\<lparr>root_req_signal := SigSignaled example_reset_resources\<rparr>]\<rparr>)
     = Inr (True, example_running (Some (example_resetting (WaitingToStopReset d))), w')"
  by (simp add: example_step_defs begin_reset_def update_port_reset_def uint_new_def RootPortNumber_try_from_def
      upd_root_port_def upd_regs_def duration_add_def from_millis_def)

lemma example_resets:
  "\<exists>w' f. reset_step option_waker (=) 7 (\<lambda>_ _. True) (example_running (Some (example_resetting (WaitingToStopReset d))), example_port_world 0x1001)
     = Inr (True, example_running (Some (example_resetting (WaitForPortToBeEnabled f))), w')"
  by (simp add: example_step_defs waiting_to_stop_reset_def update_port_reset_def
      upd_regs_def duration_add_def from_millis_def bitfield_defs flag_get_def)

lemma example_addresses:
  assumes "allocate_addr AddressAllocator_default = (Some a, al)"
  shows "\<exists>w'. reset_step option_waker (=) 7 (\<lambda>_ _. True)
       (example_running (Some (example_resetting (WaitForPortToBeEnabled f))), example_port_world 0x1005)
     = Inr (True, (example_running (Some (example_resetting (WaitForSetAddr a))))\<lparr>rn_addr_allocator := al\<rparr>, w')"
proof -
  let ?rn = "example_running (Some (example_resetting (WaitForPortToBeEnabled f)))" and ?w = "example_port_world 0x1005"
  have "reset_resources_ok ucast ucast (rn_ctrl_ds_segment ?rn) example_reset_resources"
    by (simp add: example_running_def example_reset_resources_def reset_resources_ok_def
        qtd_mem_ok_def window_ok_def aligned32_def get_addr_offset_def LOWER_4_G_def)
  moreover have "manager_ok ucast ?rn (mc_async (wd_machine ?w)) []"
    using example_ring by (simp add: manager_ok_def example_running_def example_port_world_def)
  ultimately obtain w' where "send_set_address example_reset_resources (?rn, ?w) = Inr (a, ?rn\<lparr>rn_addr_allocator := al\<rparr>, w')"
    using send_set_address_ok [of ucast ucast ?rn example_reset_resources ?w "[]" a al] assms
    by (auto simp: example_running_def example_reset_resources_def)
  then show ?thesis
    by (simp add: reset_step_def wait_for_port_to_be_enabled_def example_running_def example_resetting_def index_list_def
        example_port_world_def bitfield_defs flag_get_def bit_numeral_rec)
qed

lemma example_removes:
  "\<exists>w' rn'. reset_step option_waker (=) 7 (\<lambda>_ _. True)
       ((example_running (Some (example_resetting (WaitForSetAddr a))))\<lparr>rn_addr_allocator := al\<rparr>, example_port_world 0x1005)
     = Inr (True, rn', w') \<and> rn_resetting_device rn' = Some (example_resetting (WaitForQhRemove a 0))"
  by (simp add: example_step_defs wait_for_set_addr_def queue_remove_qh_eq example_reset_resources_def example_qtd_def
      bitfield_defs flag_get_def)

lemma example_delivers:
  assumes "rn_resetting_device rn = Some (example_resetting (WaitForQhRemove a 0))"
  shows "\<exists>w' rn'. reset_step option_waker (=) 7 (\<lambda>_ _. True) (rn, (example_port_world 0x1005)
         \<lparr>wd_oneshots := \<lambda>_. \<lparr>os_stored = True, os_cell = Some (), os_waker = None, os_sender_alive = False\<rparr>\<rparr>)
     = Inr (True, rn', w') \<and> rn_resetting_device rn' = None"
  using assms by (simp add: reset_step_def wait_for_qh_remove_def example_resetting_def example_port_world_def example_world_def
      example_machine_def OneshotReceiver_poll_def signal_root_res_def index_list_def option_waker_def
      RootPortSharedState_default_def Signal_default_def Let_def)

lemma rs_other_step:
  assumes "reset_run aw ww cx elapsed s0 as (rn, w)" "reset_step aw ww cx elapsed (rn, v) = Inr (b, rn', w')"
  shows "reset_run aw ww cx elapsed s0 (as @ delivered (pr_phase (abs_state rn)) (pr_phase (abs_state rn'))) (rn', w')"
proof -
  have "reset_run aw ww cx elapsed s0 as (rn, v)" by (rule rs_other [OF assms(1)]) simp_all
  then show ?thesis using assms(2) by (rule rs_step)
qed

lemma example_run:
  assumes "allocate_addr AddressAllocator_default = (Some a, al)"
  shows "\<exists>s. reset_run option_waker (=) 7 (\<lambda>_ _. True) (example_running None, w) [a] s"
proof -
  note run = rs_other_step [where aw = option_waker and ww = "(=)" and cx = 7 and elapsed = "\<lambda>_ _. True"]
  note abs = abs_state_def example_running_def example_resetting_def
  obtain w1 d where 1: "reset_run option_waker (=) 7 (\<lambda>_ _. True) (example_running None, w) []
      (example_running (Some (example_resetting (WaitingToStopReset d))), w1)"
    using example_accepts run [OF rs_start] by (fastforce simp: abs)
  obtain w2 f where 2: "reset_run option_waker (=) 7 (\<lambda>_ _. True) (example_running None, w) []
      (example_running (Some (example_resetting (WaitForPortToBeEnabled f))), w2)"
    using example_resets [of d] run [OF 1] by (fastforce simp: abs)
  obtain w3 where 3: "reset_run option_waker (=) 7 (\<lambda>_ _. True) (example_running None, w) []
      ((example_running (Some (example_resetting (WaitForSetAddr a))))\<lparr>rn_addr_allocator := al\<rparr>, w3)"
    using example_addresses [OF assms, of f] run [OF 2] by (fastforce simp: abs)
  obtain w4 rn4 where 4: "reset_run option_waker (=) 7 (\<lambda>_ _. True) (example_running None, w) [] (rn4, w4)"
      "rn_resetting_device rn4 = Some (example_resetting (WaitForQhRemove a 0))"
    using example_removes [where a = a and al = al] run [OF 3] by (fastforce simp: abs)
  obtain w5 rn5 where "reset_run option_waker (=) 7 (\<lambda>_ _. True) (example_running None, w) [a] (rn5, w5)"
    using example_delivers [OF 4(2)] run [OF 4(1)] 4(2) by (fastforce simp: abs)
  then show ?thesis by blast
qed

theorem device_addresses_unique_witness:
  "\<exists>rn1 w1 a s. start_controller example_start_config (usb_cmd (regs example_world)) example_world = Inr (rn1, w1)
    \<and> reset_run option_waker (=) 7 (\<lambda>_ _. True) (rn1, w1) [a] s \<and> a \<noteq> 0"
proof -
  obtain w1 where s: "start_controller example_start_config (usb_cmd (regs example_world)) example_world
      = Inr (example_running None, w1)"
    using start_controller_result [OF example_start_config_ok]
    by (auto simp: example_running_def example_start_config_def example_manager_def)
  have "used_addrs AddressAllocator_default \<noteq> UNIV"
    by (auto simp: used_default) (metis UNIV_I singletonD zero_neq_one)
  then obtain a al where "allocate_addr AddressAllocator_default = (Some a, al)"
    using addr_pool.alloc_succeeds_iff by blast
  from example_run [OF this, of w1] obtain rn w where r: "reset_run option_waker (=) 7 (\<lambda>_ _. True) (example_running None, w1) [a] (rn, w)"
    by auto
  from device_addresses_unique [OF s r] s r show ?thesis by auto
qed

end
