(* ===== verification/Packet_Ring.thy ===== *)
theory Packet_Ring
  imports Interrupt_Endpoint
begin

text \<open>
  The ring of an interrupt endpoint at work (\<^verbatim>\<open>interrupt_endpoint.rs\<close>): the controller fills descriptor after descriptor while
  the task reads packet after packet with \<^verbatim>\<open>peek\<close> and \<^verbatim>\<open>advance\<close>, in any order the two may interleave.  The packets
  are compared with those of a queue.

  Buffer memory is a map from bus addresses to bytes, \<open>ps_at\<close> gives the place of each descriptor in the controller's segment and
  \<open>ps_hw\<close> the descriptor the controller is at.  It executes that descriptor when it is active: it writes the packet to the
  addresses the descriptor gives, clears the active flag and follows the link to the next descriptor; it may also change the
  rest of the token and the descriptor's current offset.  Wakers are numbers.
\<close>

type_synonym bus_memory = "u64 \<Rightarrow> u8"

record packet_state =
  ps_ep :: watched_interrupt_endpoint
  ps_mem :: bus_memory
  ps_hw :: nat
  ps_at :: "nat \<Rightarrow> u32"

primrec dma :: "qtd \<Rightarrow> nat \<Rightarrow> bytes \<Rightarrow> bus_memory \<Rightarrow> bus_memory" where
  "dma q k [] m = m"
| "dma q k (b # bs) m = dma q (Suc k) bs (m(qtd_byte_addr q k := b))"

definition completed_qtd :: "qtd \<Rightarrow> transfer_token \<Rightarrow> u12 \<Rightarrow> qtd" where
  "completed_qtd q t pos = q\<lparr>qtd_token := TransferToken_with_active False t,
     buffer_pointer_page_0 := QtdBufferPagePointerPage0_with_current_offset pos (buffer_pointer_page_0 q)\<rparr>"

definition packet_size :: "packet_state \<Rightarrow> nat" where
  "packet_size s = unat (max_packet_size_of (wie_info (ps_ep s)))"

definition slot_bytes :: "packet_state \<Rightarrow> nat \<times> nat \<Rightarrow> bytes" where
  "slot_bytes s = (\<lambda>(o', l). map (\<lambda>k. ps_mem s (phys_addr (wie_buffer (ps_ep s)) + of_nat (o' + k))) [0..<l])"

definition qtd_active :: "packet_state \<Rightarrow> nat \<Rightarrow> bool" where
  "qtd_active s j = TransferToken_active (qtd_token (wie_qtds (ps_ep s) ! j))"

datatype packet_event = Received bytes | Read bytes

inductive packet_step :: "packet_state \<Rightarrow> packet_event \<Rightarrow> packet_state \<Rightarrow> bool" where
  receive: "qtd_active s (ps_hw s) \<Longrightarrow> length p = packet_size s \<Longrightarrow>
     x < length (wie_qtds (ps_ep s)) \<Longrightarrow> next_target (next_qtd_ptr (wie_qtds (ps_ep s) ! ps_hw s)) = Some (ps_at s x) \<Longrightarrow>
     packet_step s (Received p)
       (s\<lparr>ps_ep := (ps_ep s)\<lparr>wie_qtds := (wie_qtds (ps_ep s))[ps_hw s := completed_qtd (wie_qtds (ps_ep s) ! ps_hw s) t pos]\<rparr>,
          ps_mem := dma (wie_qtds (ps_ep s) ! ps_hw s) 0 p (ps_mem s),
          ps_hw := x\<rparr>)"
| read: "peek_poll ww (cx :: nat) (\<lambda>_. qtd_active s (wie_completed_packets_index (ps_ep s))) 0 (ps_ep s, st) = (Some sl, (e, st'), ws) \<Longrightarrow>
     advance e = Inr e' \<Longrightarrow> packet_step s (Read (slot_bytes s sl)) (s\<lparr>ps_ep := e'\<rparr>)"

inductive packet_run :: "packet_state \<Rightarrow> bytes list \<Rightarrow> bytes list \<Rightarrow> packet_state \<Rightarrow> bool" for s where
  pr_start: "packet_run s [] [] s"
| pr_receive: "packet_run s xs ys t \<Longrightarrow> packet_step t (Received p) u \<Longrightarrow> packet_run s (xs @ [p]) ys u"
| pr_read: "packet_run s xs ys t \<Longrightarrow> packet_step t (Read p) u \<Longrightarrow> packet_run s xs (ys @ [p]) u"

inductive_simps received_iff: "packet_step s (Received p) t"
inductive_simps read_iff: "packet_step s (Read p) t"

subsection \<open>Addresses\<close>

lemma of_nat_page_inj:
  assumes "x \<le> 4096" "y \<le> 4096" "b + of_nat x = (b :: u64) + of_nat y"
  shows "x = y"
proof -
  have "unat (of_nat x :: u64) = unat (of_nat y :: u64)" using assms(3) by simp
  with assms(1,2) show ?thesis by (simp add: unat_of_nat take_bit_nat_eq_self)
qed

lemma dma_at:
  assumes "\<And>i. i < length p \<Longrightarrow> qtd_byte_addr q (k + i) = b + of_nat (o' + k + i)"
    and "o' + k + length p \<le> 4096" "x \<le> 4096"
  shows "dma q k p m (b + of_nat x) = (if o' + k \<le> x \<and> x < o' + k + length p then p ! (x - (o' + k)) else m (b + of_nat x))"
  using assms
proof (induction p arbitrary: k m)
  case (Cons c p)
  have a: "qtd_byte_addr q k = b + of_nat (o' + k)" using Cons.prems(1) [of 0] by simp
  have "dma q (Suc k) p (m(qtd_byte_addr q k := c)) (b + of_nat x)
      = (if o' + Suc k \<le> x \<and> x < o' + Suc k + length p then p ! (x - (o' + Suc k)) else (m(qtd_byte_addr q k := c)) (b + of_nat x))"
    using Cons.prems(1) [of "Suc _"] Cons.prems(2,3) by (intro Cons.IH) auto
  moreover have "(b + of_nat x = b + of_nat (o' + k)) \<longleftrightarrow> x = o' + k"
    using of_nat_page_inj [of x "o' + k" b] Cons.prems(2,3) by (auto simp del: of_nat_add)
  ultimately show ?case
    using a by (auto simp: nth_Cons' Suc_diff_le simp del: of_nat_add)
qed auto

lemma window_mod_inj:
  assumes "R \<le> m" "m < R + n" "R \<le> m'" "m' < R + n" "m mod n = m' mod (n :: nat)"
  shows "m = m'"
proof -
  have "n dvd (m - m')" "n dvd (m' - m)"
    using assms(5) by (cases "m' \<le> m"; simp add: mod_eq_dvd_iff_nat [symmetric])+
  then show ?thesis using assms(1-4) by (auto dest!: dvd_imp_le)
qed

subsection \<open>The invariant\<close>

text \<open>
  Packets are numbered in the order of their arrival; packet \<open>m\<close> uses descriptor \<open>m mod n\<close>.  From the second round on a
  descriptor addresses its own slot; in the first round all of them address slot 0.
\<close>

definition own_slot :: "nat \<Rightarrow> nat \<Rightarrow> bool" where
  "own_slot n m \<longleftrightarrow> n \<le> m \<or> n = 1"

definition slot_at :: "packet_state \<Rightarrow> nat \<Rightarrow> nat \<times> nat" where
  "slot_at s j = (j * packet_size s, packet_size s)"

definition addresses_slot :: "packet_state \<Rightarrow> nat \<Rightarrow> nat \<Rightarrow> bool" where
  "addresses_slot s j i \<longleftrightarrow>
     (\<forall>k < packet_size s. qtd_byte_addr (wie_qtds (ps_ep s) ! j) k = phys_addr (wie_buffer (ps_ep s)) + of_nat (i * packet_size s + k))"

text \<open>The buffer has a slot per descriptor, within one page that is not among the last of the address space.\<close>

definition buffer_fits :: "packet_state \<Rightarrow> bool" where
  "buffer_fits s \<longleftrightarrow>
     unat (phys_addr (wie_buffer (ps_ep s)) mod 0x1000) + length (wie_qtds (ps_ep s)) * packet_size s \<le> 0x1000
     \<and> unat (phys_addr (wie_buffer (ps_ep s)) - phys_addr (wie_buffer (ps_ep s)) mod 0x1000) + 0x5000 < 2 ^ 64"

definition page_ok :: "packet_state \<Rightarrow> nat \<Rightarrow> bool" where
  "page_ok s j \<longleftrightarrow> qtd_page (wie_qtds (ps_ep s) ! j) 0
     = phys_addr (wie_buffer (ps_ep s)) - phys_addr (wie_buffer (ps_ep s)) mod 0x1000"

text \<open>The links close the ring; each descriptor has a place of its own.\<close>

definition links_ok :: "packet_state \<Rightarrow> bool" where
  "links_ok s \<longleftrightarrow> inj_on (ps_at s) {..<length (wie_qtds (ps_ep s))}
     \<and> (\<forall>j < length (wie_qtds (ps_ep s)). next_target (next_qtd_ptr (wie_qtds (ps_ep s) ! j))
          = Some (ps_at s ((j + 1) mod length (wie_qtds (ps_ep s)))))"

lemma links_ok_next:
  assumes "links_ok s" "j < length (wie_qtds (ps_ep s))" "x < length (wie_qtds (ps_ep s))"
    and "next_target (next_qtd_ptr (wie_qtds (ps_ep s) ! j)) = Some (ps_at s x)"
  shows "x = (j + 1) mod length (wie_qtds (ps_ep s))"
proof -
  let ?n = "length (wie_qtds (ps_ep s))"
  have "(j + 1) mod ?n < ?n" using assms(2) by (intro mod_less_divisor) linarith
  then show ?thesis using assms inj_onD [of "ps_at s" "{..<?n}" x "(j + 1) mod ?n"] by (simp add: links_ok_def)
qed

lemma links_ok_cong:
  assumes "links_ok s" "ps_at s' = ps_at s" "length (wie_qtds (ps_ep s')) = length (wie_qtds (ps_ep s))"
    and "\<And>j. j < length (wie_qtds (ps_ep s)) \<Longrightarrow> next_qtd_ptr (wie_qtds (ps_ep s') ! j) = next_qtd_ptr (wie_qtds (ps_ep s) ! j)"
  shows "links_ok s'"
  using assms by (simp add: links_ok_def)

text \<open>\<open>xs\<close> are the packets received so far, \<open>R\<close> of them have been read.\<close>

definition ring_inv :: "nat \<Rightarrow> bytes list \<Rightarrow> nat \<Rightarrow> packet_state \<Rightarrow> bool" where
  "ring_inv n xs R s \<longleftrightarrow>
     length (wie_qtds (ps_ep s)) = n \<and> 0 < n \<and> buffer_fits s \<and> links_ok s \<and> (\<forall>j < n. page_ok s j)
     \<and> wie_completed_packets_index (ps_ep s) = R mod n \<and> wie_completed_packets (ps_ep s) = 0
     \<and> ps_hw s = length xs mod n \<and> R \<le> length xs \<and> length xs \<le> R + n
     \<and> (\<forall>m. R \<le> m \<and> m < length xs \<longrightarrow> \<not> qtd_active s (m mod n)
          \<and> (own_slot n m \<longrightarrow> slot_bytes s (slot_at s (m mod n)) = xs ! m))
     \<and> (\<forall>m. length xs \<le> m \<and> m < R + n \<longrightarrow> qtd_active s (m mod n)
          \<and> addresses_slot s (m mod n) (if own_slot n m then m mod n else 0))"

lemma ring_invD:
  assumes "ring_inv n xs R s"
  shows "length (wie_qtds (ps_ep s)) = n" "0 < n" "buffer_fits s" "j < n \<Longrightarrow> page_ok s j"
    and "wie_completed_packets_index (ps_ep s) = R mod n" "wie_completed_packets (ps_ep s) = 0"
    and "ps_hw s = length xs mod n" "R \<le> length xs" "length xs \<le> R + n"
    and "R \<le> m \<Longrightarrow> m < length xs \<Longrightarrow> \<not> qtd_active s (m mod n)"
    and "R \<le> m \<Longrightarrow> m < length xs \<Longrightarrow> own_slot n m \<Longrightarrow> slot_bytes s (slot_at s (m mod n)) = xs ! m"
    and "length xs \<le> m \<Longrightarrow> m < R + n \<Longrightarrow> qtd_active s (m mod n)"
    and "length xs \<le> m \<Longrightarrow> m < R + n \<Longrightarrow> addresses_slot s (m mod n) (if own_slot n m then m mod n else 0)"
    and "links_ok s"
  using assms unfolding ring_inv_def by blast+

lemma slot_in_page:
  assumes "buffer_fits s" "j < length (wie_qtds (ps_ep s))"
  shows "unat (phys_addr (wie_buffer (ps_ep s)) mod 0x1000) + j * packet_size s + packet_size s \<le> 0x1000"
proof -
  have "Suc j * packet_size s \<le> length (wie_qtds (ps_ep s)) * packet_size s" using assms(2) by (intro mult_le_mono1) simp
  with assms(1) show ?thesis by (simp add: buffer_fits_def)
qed

text \<open>A packet written to one slot is there and leaves the others alone.\<close>

lemma slot_bytes_dma:
  assumes "buffer_fits s" "i < length (wie_qtds (ps_ep s))" "j < length (wie_qtds (ps_ep s))"
    and "\<forall>k < packet_size s. qtd_byte_addr q k = phys_addr (wie_buffer (ps_ep s)) + of_nat (i * packet_size s + k)"
    and "length p = packet_size s" "wie_buffer e = wie_buffer (ps_ep s)" "wie_info e = wie_info (ps_ep s)"
  shows "slot_bytes (s\<lparr>ps_ep := e, ps_mem := dma q 0 p (ps_mem s), ps_hw := x\<rparr>) (slot_at s j)
    = (if i = j then p else slot_bytes s (slot_at s j))"
proof (rule nth_equalityI)
  let ?n = "packet_size s" and ?b = "phys_addr (wie_buffer (ps_ep s))"
  fix k assume "k < length (slot_bytes (s\<lparr>ps_ep := e, ps_mem := dma q 0 p (ps_mem s), ps_hw := x\<rparr>) (slot_at s j))"
  then have k: "k < ?n" by (simp add: slot_bytes_def slot_at_def)
  have "dma q 0 p (ps_mem s) (?b + of_nat (j * ?n + k))
      = (if i * ?n + 0 \<le> j * ?n + k \<and> j * ?n + k < i * ?n + 0 + length p then p ! (j * ?n + k - (i * ?n + 0)) else ps_mem s (?b + of_nat (j * ?n + k)))"
    using assms(4,5) slot_in_page [OF assms(1,2)] slot_in_page [OF assms(1,3)] k by (intro dma_at) auto
  moreover have "i * ?n \<le> j * ?n + k \<and> j * ?n + k < i * ?n + ?n \<longleftrightarrow> i = j"
  proof
    assume "i * ?n \<le> j * ?n + k \<and> j * ?n + k < i * ?n + ?n"
    then have "(j * ?n + k) div ?n = i" by (intro div_nat_eqI) (auto simp: algebra_simps)
    with k show "i = j" by simp
  qed (use k in simp)
  ultimately show "slot_bytes (s\<lparr>ps_ep := e, ps_mem := dma q 0 p (ps_mem s), ps_hw := x\<rparr>) (slot_at s j) ! k
      = (if i = j then p else slot_bytes s (slot_at s j)) ! k"
    using k assms(5,6) by (simp add: slot_bytes_def slot_at_def del: of_nat_add)
qed (use assms(5) in \<open>simp add: slot_bytes_def slot_at_def\<close>)

subsection \<open>The steps keep it\<close>

lemma completed_qtd_simps [simp]:
  "\<not> TransferToken_active (qtd_token (completed_qtd q t pos))" "next_qtd_ptr (completed_qtd q t pos) = next_qtd_ptr q"
  "qtd_page (completed_qtd q t pos) 0 = qtd_page q 0"
  using qtd_page_0_update [of pos q] by (simp_all add: completed_qtd_def qtd_page_def bitfield_defs bitfield)

lemma ring_inv_receive:
  assumes inv: "ring_inv n xs R s" and "packet_step s (Received p) s'"
  shows "ring_inv n (xs @ [p]) R s'"
proof -
  obtain t pos x where 1: "s' = s\<lparr>ps_ep := (ps_ep s)\<lparr>wie_qtds := (wie_qtds (ps_ep s))[ps_hw s := completed_qtd (wie_qtds (ps_ep s) ! ps_hw s) t pos]\<rparr>,
      ps_mem := dma (wie_qtds (ps_ep s) ! ps_hw s) 0 p (ps_mem s), ps_hw := x\<rparr>"
      "qtd_active s (ps_hw s)" "length p = packet_size s" "x < length (wie_qtds (ps_ep s))"
      "next_target (next_qtd_ptr (wie_qtds (ps_ep s) ! ps_hw s)) = Some (ps_at s x)"
    using assms(2) unfolding received_iff by auto
  let ?j = "ps_hw s" and ?T = "length xs" and ?q = "wie_qtds (ps_ep s) ! ps_hw s"
  note d = ring_invD [OF inv]
  have j: "?j = ?T mod n" "?j < n" using d(2,7) by simp_all
  have "?T \<noteq> R + n" using d(2) d(10) [of R] 1(2) j(1) by auto
  then have T: "?T < R + n" using d(9) by simp
  let ?i = "if own_slot n ?T then ?j else 0"
  have i: "?i < n" "\<forall>k < packet_size s. qtd_byte_addr ?q k = phys_addr (wie_buffer (ps_ep s)) + of_nat (?i * packet_size s + k)"
    using d(13) [of ?T] T j d(2) by (auto simp: addresses_slot_def)
  have sz: "packet_size s' = packet_size s" "\<And>x. slot_at s' x = slot_at s x" "buffer_fits s'" "length (wie_qtds (ps_ep s')) = n"
    using d(1,3) by (simp_all add: 1(1) packet_size_def slot_at_def buffer_fits_def)
  have act: "qtd_active s' x \<longleftrightarrow> x \<noteq> ?j \<and> qtd_active s x" if "x < n" for x
    using that d(1) by (cases "x = ?j") (simp_all add: 1(1) qtd_active_def)
  have addr: "addresses_slot s' x y \<longleftrightarrow> addresses_slot s x y" if "x \<noteq> ?j" for x y
    using that sz(1) by (simp add: addresses_slot_def) (simp add: 1(1))
  have page: "page_ok s' x" if "x < n" for x
    using that d(1) d(4) [OF that] by (cases "x = ?j") (simp_all add: 1(1) page_ok_def)
  have slots: "slot_bytes s' (slot_at s x) = (if ?i = x then p else slot_bytes s (slot_at s x))" if "x < n" for x
    unfolding 1(1) using d(1,3) i 1(3) that by (intro slot_bytes_dma) simp_all
  have other: "m mod n \<noteq> ?j" if "R \<le> m" "m < R + n" "m \<noteq> ?T" for m
    using window_mod_inj [of R m n ?T] that T d(8) j(1) by auto
  have old: "\<not> qtd_active s' (m mod n) \<and> (own_slot n m \<longrightarrow> slot_bytes s' (slot_at s' (m mod n)) = (xs @ [p]) ! m)"
    if m: "R \<le> m" "m < length (xs @ [p])" for m
  proof (cases "m = ?T")
    case True
    then show ?thesis using act [of ?j] slots [of ?j] j by (simp add: sz(2))
  next
    case False
    then have m': "m < ?T" "m mod n \<noteq> ?j" "m mod n < n" using m other [of m] T d(2) by auto
    have "own_slot n ?T" if "own_slot n m" using that m'(1) by (auto simp: own_slot_def)
    with m' d(10,11) [of m] m(1) show ?thesis using act [of "m mod n"] slots [of "m mod n"]
      by (auto simp: sz(2) nth_append)
  qed
  have new: "qtd_active s' (m mod n) \<and> addresses_slot s' (m mod n) (if own_slot n m then m mod n else 0)"
    if m: "length (xs @ [p]) \<le> m" "m < R + n" for m
  proof -
    have "m mod n \<noteq> ?j" using other [of m] m d(8) by simp
    then show ?thesis using act [of "m mod n"] addr [of "m mod n"] d(12,13) [of m] m d(2) by simp
  qed
  have "x = (?j + 1) mod n" using links_ok_next [OF d(14) _ 1(4,5)] d(1) j(2) by simp
  then have "ps_hw s' = length (xs @ [p]) mod n" using j(1) by (simp add: 1(1) mod_Suc_eq)
  moreover have "links_ok s'" using d(14)
    by (rule links_ok_cong) (use j(2) d(1) in \<open>simp_all add: 1(1) nth_list_update\<close>)
  ultimately show ?thesis using old new page sz d(2,5,6,8) T unfolding ring_inv_def by (auto simp: 1(1))
qed

lemma peek_ready:
  assumes "peek_poll ww cx (\<lambda>_. a) 0 (e, st) = (Some sl, (e', st'), ws)" "wie_completed_packets e = 0"
  shows "\<not> a" "sl = peek_slice e" "e' = e\<lparr>wie_completed_packets := 1\<rparr>"
  using peek_misses_nothing [where will_wake = ww and cx = cx and active = "\<lambda>_. a" and k = 0 and e = e and st = st] assms
  by auto

lemma page_offset:
  assumes "unat ((b :: u64) mod 0x1000) + c < 0x1000" "unat (b - b mod 0x1000) + 0x5000 < 2 ^ 64"
  shows "unat b + c < 2 ^ 64" "unat ((b + of_nat c) mod 0x1000) = unat (b mod 0x1000) + c"
    and "b + of_nat c - (b + of_nat c) mod 0x1000 = b - b mod 0x1000"
proof -
  have le: "b mod 0x1000 \<le> b" by (simp add: word_le_nat_alt unat_mod_distrib)
  have b: "unat b = unat (b - b mod 0x1000) + unat (b mod 0x1000)" using le by (simp add: unat_sub word_le_nat_alt)
  then show small: "unat b + c < 2 ^ 64" using assms by linarith
  have "unat (b + of_nat c) = unat b + c"
    using small by (simp add: unat_word_ariths(1) unat_of_nat take_bit_eq_mod)
  then have "unat ((b + of_nat c) mod 0x1000) = (unat b + c) mod 0x1000" by (simp add: unat_mod_distrib)
  also have "\<dots> = (unat b mod 0x1000 + c) mod 0x1000" by (simp add: mod_add_left_eq)
  finally show *: "unat ((b + of_nat c) mod 0x1000) = unat (b mod 0x1000) + c"
    using assms(1) by (simp add: unat_mod_distrib)
  have "(b + of_nat c) mod 0x1000 = b mod 0x1000 + of_nat c"
    using arg_cong [OF *, of "of_nat :: nat \<Rightarrow> u64"] by (simp only: of_nat_add of_nat_unat ucast_id)
  then show "b + of_nat c - (b + of_nat c) mod 0x1000 = b - b mod 0x1000" by simp
qed

lemma current_slot:
  assumes "ring_inv n xs R s" "e = (ps_ep s)\<lparr>wie_completed_packets := 1\<rparr>"
  defines "slot \<equiv> phys_addr (wie_buffer (ps_ep s)) + of_nat (R mod n * packet_size s)"
  shows "peek_slice e = slot_at s (R mod n)" "unat (slot mod 0x1000) + packet_size s \<le> 0x1000"
    and "page_ok s (R mod n) \<Longrightarrow> qtd_page (wie_qtds (ps_ep s) ! (R mod n)) 0 = slot - slot mod 0x1000"
    and "wie_completed_packets_index e < length (wie_qtds e)" "1 \<le> wie_completed_packets e"
    and "unat (phys_addr (wie_buffer e)) + fst (peek_slice e) < 2 ^ 64"
    and "window_ok (phys_addr (wie_buffer e) + of_nat (fst (peek_slice e))) (snd (peek_slice e))"
proof -
  let ?j = "R mod n" and ?b = "phys_addr (wie_buffer (ps_ep s))" and ?z = "packet_size s"
  note d = ring_invD [OF assms(1)]
  have j: "?j < n" using d(2) by simp
  show sl: "peek_slice e = slot_at s ?j" using d(5) by (simp add: assms(2) peek_slice_def packet_size_def slot_at_def Let_def)
  note fit = slot_in_page [OF d(3), of ?j, unfolded d(1), OF j]
  have lt: "unat (?b mod 0x1000) + ?j * ?z < 0x1000"
    using fit by (cases "?z = 0") (simp_all add: unat_mod_distrib)
  have hi: "unat (?b - ?b mod 0x1000) + 0x5000 < 2 ^ 64" using d(3) by (simp add: buffer_fits_def)
  note pg = page_offset [OF lt hi]
  show "unat (slot mod 0x1000) + ?z \<le> 0x1000" unfolding slot_def pg(2) using fit by simp
  show "qtd_page (wie_qtds (ps_ep s) ! ?j) 0 = slot - slot mod 0x1000" if "page_ok s ?j"
    unfolding slot_def pg(3) using that by (simp only: page_ok_def)
  have win: "window_ok (?b + of_nat (?j * ?z)) ?z" unfolding window_ok_def pg(2,3) using fit hi by linarith
  show "wie_completed_packets_index e < length (wie_qtds e)" "1 \<le> wie_completed_packets e"
    "unat (phys_addr (wie_buffer e)) + fst (peek_slice e) < 2 ^ 64"
    "window_ok (phys_addr (wie_buffer e) + of_nat (fst (peek_slice e))) (snd (peek_slice e))"
    unfolding sl using j d(1,5) pg(1) win by (simp_all add: assms(2) slot_at_def del: of_nat_mult)
qed

lemma advance_slot:
  assumes "ring_inv n xs R s" "e = (ps_ep s)\<lparr>wie_completed_packets := 1\<rparr>" "advance e = Inr e'"
  defines "s' \<equiv> s\<lparr>ps_ep := e'\<rparr>"
  shows "wie_completed_packets_index e' = Suc R mod n" "wie_completed_packets e' = 0" "length (wie_qtds e') = n"
    and "wie_buffer e' = wie_buffer (ps_ep s)" "wie_info e' = wie_info (ps_ep s)"
    and "\<And>x. x \<noteq> R mod n \<Longrightarrow> wie_qtds e' ! x = wie_qtds (ps_ep s) ! x"
    and "qtd_active s' (R mod n)" "addresses_slot s' (R mod n) (R mod n)" "page_ok s' (R mod n)"
    and "next_qtd_ptr (wie_qtds e' ! x) = next_qtd_ptr (wie_qtds (ps_ep s) ! x)"
proof -
  let ?j = "R mod n" and ?b = "phys_addr (wie_buffer (ps_ep s))" and ?z = "packet_size s"
  note d = ring_invD [OF assms(1)] and c = current_slot [OF assms(1,2)]
  have j: "?j < n" using d(2) by simp
  have sl: "peek_slice e = (?j * ?z, ?z)" using c(1) by (simp add: slot_at_def)
  note pre = c(4-7)
  note r = advance_recycles [OF pre, unfolded assms(3) sl fst_conv]
  show "wie_completed_packets_index e' = Suc R mod n" "wie_completed_packets e' = 0" "length (wie_qtds e') = n"
    "wie_buffer e' = wie_buffer (ps_ep s)" "wie_info e' = wie_info (ps_ep s)"
    using r d(1,5) by (auto simp: assms(2) mod_Suc_eq)
  show "\<And>x. x \<noteq> ?j \<Longrightarrow> wie_qtds e' ! x = wie_qtds (ps_ep s) ! x" using r d(5) by (auto simp: assms(2))
  show "next_qtd_ptr (wie_qtds e' ! x) = next_qtd_ptr (wie_qtds (ps_ep s) ! x)"
    using r d(5) by (cases "x = ?j") (auto simp: assms(2) Let_def)
  have q: "qtd_token (wie_qtds e' ! ?j) = interrupt_token (wie_info (ps_ep s))"
    "qtd_page (wie_qtds e' ! ?j) 0 = qtd_page (wie_qtds (ps_ep s) ! ?j) 0"
    using r d(5) by (auto simp: assms(2) Let_def)
  have k: "qtd_byte_addr (wie_qtds e' ! ?j) k = ?b + of_nat (?j * ?z) + of_nat k" if "k < ?z" for k
  proof -
    have "unat ((?b + of_nat (?j * ?z)) mod 0x1000) + k < 0x1000" using that c(2) by simp
    then show ?thesis using c(3) [OF d(4) [OF j]] r d(5) by (auto simp: assms(2) Let_def simp del: of_nat_mult)
  qed
  show "page_ok s' ?j" using q(2) d(4) [OF j] r by (auto simp: page_ok_def s'_def assms(2))
  show "qtd_active s' ?j" using q(1)
    by (simp add: qtd_active_def s'_def interrupt_token_def TransferToken_new_active_def bitfield_defs bitfield)
  show "addresses_slot s' ?j ?j" using k r by (auto simp: addresses_slot_def s'_def assms(2) packet_size_def)
qed

lemma ring_inv_read:
  assumes inv: "ring_inv n xs R s" and "packet_step s (Read p) s'"
  shows "ring_inv n xs (Suc R) s' \<and> R < length xs \<and> p = slot_bytes s (slot_at s (R mod n)) \<and> (own_slot n R \<longrightarrow> p = xs ! R)"
proof -
  obtain ww cx st sl e st' ws e' where 1: "s' = s\<lparr>ps_ep := e'\<rparr>" "p = slot_bytes s sl" "advance e = Inr e'"
      "peek_poll ww (cx :: nat) (\<lambda>_. qtd_active s (wie_completed_packets_index (ps_ep s))) 0 (ps_ep s, st) = (Some sl, (e, st'), ws)"
    using assms(2) unfolding read_iff by auto
  let ?j = "R mod n"
  note d = ring_invD [OF inv] and pk = peek_ready [OF 1(4) ring_invD(6) [OF inv]]
  note a = advance_slot [OF inv pk(3) 1(3), folded 1(1)]
  have R: "R < length xs" using pk(1) d(12) [of R] d(2,5,8) by (cases "R = length xs") auto
  have sl: "sl = slot_at s ?j" using pk(2) d(5) by (simp add: peek_slice_def slot_at_def packet_size_def Let_def)
  have sz: "packet_size s' = packet_size s" "\<And>x. slot_at s' x = slot_at s x" "buffer_fits s'"
    "\<And>x. slot_bytes s' x = slot_bytes s x"
    using d(1,3) a(3-5) by (simp_all add: 1(1) packet_size_def slot_at_def buffer_fits_def slot_bytes_def)
  have keep: "qtd_active s' x = qtd_active s x" "addresses_slot s' x y = addresses_slot s x y" "page_ok s' x = page_ok s x"
    if "x \<noteq> ?j" for x y
    using a(4) a(6) [OF that] sz(1) by (auto simp: qtd_active_def addresses_slot_def page_ok_def) (auto simp: 1(1))
  have page: "page_ok s' x" if "x < n" for x using that d(4) keep(3) a(9) by (cases "x = ?j") auto
  have other: "m mod n \<noteq> ?j" if "R < m" "m < R + n" for m using window_mod_inj [of R m n R] that d(2) by auto
  have old: "\<not> qtd_active s' (m mod n) \<and> (own_slot n m \<longrightarrow> slot_bytes s' (slot_at s' (m mod n)) = xs ! m)"
    if m: "Suc R \<le> m" "m < length xs" for m
    using d(10,11) [of m] keep(1) [OF other [of m]] m d(9) by (auto simp: sz)
  have new: "qtd_active s' (m mod n) \<and> addresses_slot s' (m mod n) (if own_slot n m then m mod n else 0)"
    if m: "length xs \<le> m" "m < Suc R + n" for m
  proof (cases "m = R + n")
    case True
    with a(7,8) show ?thesis by (simp add: own_slot_def)
  next
    case False
    then show ?thesis using keep(1,2) [OF other [of m]] d(12,13) [of m] m R by auto
  qed
  have "links_ok s'" using d(14) by (rule links_ok_cong) (simp_all add: 1(1) a(3,10) d(1))
  then have "ring_inv n xs (Suc R) s'"
    unfolding ring_inv_def using old new page sz(3) a(1-3) R d(2,7,9) by (auto simp: 1(1))
  then show ?thesis using R d(11) [of R] by (simp add: 1(2) sl)
qed

subsection \<open>Packets are read in order\<close>

lemma ring_inv_run:
  assumes "packet_run s xs ys t" "ring_inv n [] 0 s"
  shows "ring_inv n xs (length ys) t \<and> (\<forall>m < length ys. own_slot n m \<longrightarrow> ys ! m = xs ! m)"
  using assms
proof (induction rule: packet_run.induct)
  case (pr_receive xs ys t p u)
  then have "ring_inv n (xs @ [p]) (length ys) u" "length ys \<le> length xs"
    using ring_inv_receive ring_invD(8) by blast+
  then show ?case using pr_receive by (auto simp: nth_append)
next
  case (pr_read xs ys t p u)
  then have "ring_inv n xs (Suc (length ys)) u" "own_slot n (length ys) \<longrightarrow> p = xs ! length ys"
    using ring_inv_read by blast+
  then show ?case using pr_read by (auto simp: nth_append less_Suc_eq)
qed simp

lemma received_enabled:
  assumes "ring_inv n xs R s"
  shows "(\<exists>p u. packet_step s (Received p) u) \<longleftrightarrow> length xs < R + n"
proof
  assume "\<exists>p u. packet_step s (Received p) u"
  then have "qtd_active s (length xs mod n)" using ring_invD(7) [OF assms] by (auto simp: received_iff)
  then show "length xs < R + n" using ring_invD(2,9) [OF assms] ring_invD(10) [OF assms, of R] by (cases "length xs = R + n") auto
next
  assume "length xs < R + n"
  then have "qtd_active s (ps_hw s)" using ring_invD(7) [OF assms] ring_invD(12) [OF assms, of "length xs"] by simp
  moreover have "next_target (next_qtd_ptr (wie_qtds (ps_ep s) ! ps_hw s)) = Some (ps_at s ((ps_hw s + 1) mod n))"
    using ring_invD(1,2,7,14) [OF assms] by (simp add: links_ok_def)
  ultimately show "\<exists>p u. packet_step s (Received p) u"
    using packet_step.receive [of s "replicate (packet_size s) 0" "(ps_hw s + 1) mod n"] ring_invD(1,2) [OF assms] by auto
qed

lemma received_slot:
  assumes "ring_inv n xs R s" "packet_step s (Received p) u"
  shows "slot_bytes u (slot_at u (if own_slot n (length xs) then length xs mod n else 0)) = p"
proof -
  let ?i = "if own_slot n (length xs) then length xs mod n else 0"
  note d = ring_invD [OF assms(1)]
  have "length xs < R + n" using received_enabled [OF assms(1)] assms(2) by blast
  then have "addresses_slot s (ps_hw s) ?i" "?i < length (wie_qtds (ps_ep s))" using d(1,2,7) d(13) [of "length xs"] by auto
  moreover obtain e x where "u = s\<lparr>ps_ep := e, ps_mem := dma (wie_qtds (ps_ep s) ! ps_hw s) 0 p (ps_mem s), ps_hw := x\<rparr>"
      "wie_buffer e = wie_buffer (ps_ep s)" "wie_info e = wie_info (ps_ep s)" "length p = packet_size s"
    using assms(2) unfolding received_iff by auto
  ultimately show ?thesis
    using slot_bytes_dma [OF d(3), of ?i ?i "wie_qtds (ps_ep s) ! ps_hw s" p e x]
    by (simp add: addresses_slot_def slot_at_def packet_size_def)
qed

lemma read_enabled:
  assumes "ring_inv n xs R s"
  shows "(\<exists>p u. packet_step s (Read p) u) \<longleftrightarrow> R < length xs"
proof
  assume "R < length xs"
  then have a: "\<not> qtd_active s (wie_completed_packets_index (ps_ep s))"
    using ring_invD(5) [OF assms] ring_invD(10) [OF assms, of R] by simp
  let ?e = "(ps_ep s)\<lparr>wie_completed_packets := 1\<rparr>"
  obtain e' where "advance ?e = Inr e'" using advance_recycles [OF current_slot(4-7) [OF assms refl]] by blast
  moreover have "peek_poll (=) (0 :: nat) (\<lambda>_. qtd_active s (wie_completed_packets_index (ps_ep s))) 0 (ps_ep s, SigNone)
      = (Some (peek_slice ?e), (?e, SigNone), [])"
    using a ring_invD(6) [OF assms] by (simp add: peek_poll.simps Let_def)
  ultimately show "\<exists>p u. packet_step s (Read p) u" using packet_step.read by blast
qed (use ring_inv_read [OF assms] in blast)

lemma aligned_add_low:
  assumes "take_bit 12 w = 0" "take_bit 12 x = (x :: u64)"
  shows "take_bit 12 (w + x) = x"
proof -
  have "\<not> bit w i \<or> \<not> bit x i" for i
    using arg_cong [OF assms(1), of "\<lambda>v. bit v i"] arg_cong [OF assms(2), of "\<lambda>v. bit v i"] by (auto simp: bit_take_bit_iff)
  then have "w AND x = 0" by (auto simp: bit_eq_iff bit_and_iff)
  then show ?thesis using assms by (simp add: disjunctive_add_eq_or take_bit_or)
qed

lemma page_of_first_byte:
  assumes "qtd_byte_addr q 0 = b"
  shows "qtd_page q 0 = b - b mod 0x1000"
proof -
  let ?o = "unat (QtdBufferPagePointerPage0_current_offset (buffer_pointer_page_0 q))"
  have o: "?o < 4096" using unsigned_less [of "QtdBufferPagePointerPage0_current_offset (buffer_pointer_page_0 q)", where ?'a = nat] by simp
  then have b: "b = qtd_page q 0 + of_nat ?o" using assms by (simp add: qtd_byte_addr_def Let_def)
  have "take_bit 12 (qtd_page q 0) = 0"
    by (simp add: qtd_page_def take_bit_push_bit)
  moreover have o': "take_bit 12 (of_nat ?o) = (of_nat ?o :: u64)" 
    using take_bit_nat_eq_self [of ?o 12] o by (simp only: take_bit_of_nat) simp
  ultimately have "take_bit 12 b = of_nat ?o" unfolding b by (simp only: aligned_add_low)
  then have "b mod 0x1000 = of_nat ?o" by (simp add: take_bit_eq_mod)
  with b show ?thesis by simp
qed

text \<open>The state after \<open>watch\<close>: nothing received yet, the controller at the descriptor the queue head points to.\<close>

definition watched_state :: "watch_resources \<Rightarrow> watched_interrupt_endpoint \<Rightarrow> nat \<Rightarrow> bus_memory \<Rightarrow> packet_state" where
  "watched_state r e j m = \<lparr>ps_ep = e, ps_mem = m, ps_hw = j, ps_at = qtd_offset r\<rparr>"

definition first_descriptor :: "watch_resources \<Rightarrow> periodic_heap \<Rightarrow> nat \<Rightarrow> bool" where
  "first_descriptor r h j \<longleftrightarrow> j < mm_len (wr_qtds r)
     \<and> next_target (next_qtd_pointer (qhp_qh (h (mm_ptr (wr_qh r))))) = Some (qtd_offset r j)"

text \<open>Packets are not empty, all slots lie in one page, and the descriptors are aligned and at places of their own.\<close>

definition packet_buffer_ok :: "interrupt_endpoint \<Rightarrow> watch_resources \<Rightarrow> bool" where
  "packet_buffer_ok ep r \<longleftrightarrow> 0 < unat (max_packet_size_of (ie_info ep))
     \<and> unat (phys_addr (wr_buffer r) mod 0x1000) + mm_len (wr_qtds r) * unat (max_packet_size_of (ie_info ep)) \<le> 0x1000
     \<and> distinct (map (qtd_offset r) [0..<mm_len (wr_qtds r)]) \<and> list_all (\<lambda>i. aligned32 (qtd_offset r i)) [0..<mm_len (wr_qtds r)]"

lemma watched_ring_inv:
  assumes "watch_resources_ok ep r" "length qtds = mm_len (wr_qtds r)" "packet_buffer_ok ep r"
    and "watch_finish ep r (qtds, h) = Inr (e, h')" "first_descriptor r h' i"
  shows "ring_inv (mm_len (wr_qtds r)) [] 0 (watched_state r e i m)"
proof -
  let ?n = "mm_len (wr_qtds r)" and ?s = "watched_state r e i m" and ?z = "unat (max_packet_size_of (ie_info ep))"
  have e: "length (wie_qtds e) = ?n" "\<And>i. i < ?n \<Longrightarrow> watched_qtd ep r i (wie_qtds e ! i)"
      "wie_completed_packets_index e = 0" "wie_completed_packets e = 0"
      "next_qtd_pointer (qhp_qh (h' (mm_ptr (wr_qh r)))) = NextQtdPointer_new_valid (qtd_offset r 0)"
    using watch_finish_ring [OF assms(1,2), of h] assms(4) by auto
  have k: "wie_buffer e = wr_buffer r" "wie_info e = ie_info ep"
    using assms(4) by (auto simp: watch_finish_def Let_def obind_eq_Inr_iff)
  have n: "0 < ?n" "unat (phys_addr (wr_buffer r) - phys_addr (wr_buffer r) mod 0x1000) + 0x5000 < 2 ^ 64"
    using assms(1) unfolding watch_resources_ok_def window_ok_def by blast+
  have inj: "inj_on (qtd_offset r) {..<?n}" and al: "\<And>i. i < ?n \<Longrightarrow> aligned32 (qtd_offset r i)"
    using assms(3) by (auto simp: packet_buffer_ok_def distinct_map list_all_iff atLeast0LessThan)
  have "next_target (NextQtdPointer_new_valid (qtd_offset r 0)) = Some (qtd_offset r 0)" using al [OF n(1)] by simp
  then have "qtd_offset r i = qtd_offset r 0" "i < ?n" using assms(5) unfolding first_descriptor_def e(5) by simp_all
  then have i: "i = 0" using inj n(1) by (intro inj_onD [OF inj]) simp_all
  have "next_target (next_qtd_ptr (wie_qtds e ! j)) = Some (qtd_offset r ((j + 1) mod ?n))" if "j < ?n" for j
    using e(2) [OF that] al [of "(j + 1) mod ?n"] n(1) by (simp add: watched_qtd_def qtd_is_def)
  then have links: "links_ok ?s" using inj e(1) by (simp add: links_ok_def watched_state_def)
  have z: "packet_size ?s = ?z" by (simp add: packet_size_def watched_state_def k)
  have fits: "buffer_fits ?s"
    using n(2) assms(3) unfolding buffer_fits_def packet_buffer_ok_def z by (simp add: watched_state_def k e(1))
  have q: "qtd_active ?s i" "addresses_slot ?s i 0" "page_ok ?s i" if "i < ?n" for i
  proof -
    have w: "qtd_token (wie_qtds e ! i) = interrupt_token (ie_info ep)"
      "\<And>k. k < ?z \<Longrightarrow> qtd_byte_addr (wie_qtds e ! i) k = phys_addr (wr_buffer r) + of_nat k"
      using e(2) [OF that] by (auto simp: watched_qtd_def qtd_is_def)
    show "qtd_active ?s i" using w(1)
      by (simp add: qtd_active_def watched_state_def interrupt_token_def TransferToken_new_active_def bitfield_defs bitfield)
    show "addresses_slot ?s i 0" using w(2) unfolding addresses_slot_def z by (simp add: watched_state_def k)
    have "0 < ?z" using assms(3) by (simp add: packet_buffer_ok_def)
    then show "page_ok ?s i" using w(2) [of 0] page_of_first_byte [of "wie_qtds e ! i"] by (simp add: page_ok_def watched_state_def k)
  qed
  have "qtd_active ?s (i mod ?n) \<and> addresses_slot ?s (i mod ?n) (if own_slot ?n i then i mod ?n else 0)" if "i < ?n" for i
    using q [OF that] that by (auto simp: own_slot_def)
  with fits links n(1) q(3) show ?thesis unfolding ring_inv_def by (simp add: watched_state_def e i)
qed

lemma first_read_is_last_received:
  assumes "packet_run s xs [] t" "ring_inv n [] 0 s" "packet_step t (Read p) u"
  shows "p = last xs"
  using assms(1)
proof (cases rule: packet_run.cases)
  case pr_start
  with assms(2,3) show ?thesis using ring_inv_read by fastforce
next
  case (pr_receive xs' t' q)
  have r: "ring_inv n xs' 0 t'" "ring_inv n xs 0 t"
    using ring_inv_run [OF pr_receive(2) assms(2)] ring_inv_run [OF assms(1,2)] by auto
  have "length xs' < n" using received_enabled [OF r(1)] pr_receive(3) by auto
  then have "slot_bytes t (slot_at t 0) = q"
    using received_slot [OF r(1) pr_receive(3)] by (auto simp: own_slot_def split: if_splits)
  moreover have "p = slot_bytes t (slot_at t 0)" using ring_inv_read [OF r(2) assms(3)] by simp
  ultimately show ?thesis using pr_receive(1) by simp
qed auto


definition example_one_watch :: watch_resources where
  "example_one_watch = \<lparr>wr_qh = example_pmem 0x80, wr_qtds = cast_slice 1 (example_pmem 0x2000),
     wr_buffer = cast_slice 8 (example_pmem 0x3000)\<rparr>"

lemma example_one_watch_ok:
  "watch_resources_ok example_iep example_one_watch" "packet_buffer_ok example_iep example_one_watch"
  "mm_len (wr_qtds example_one_watch) = 1"
  by (simp_all add: watch_resources_ok_def packet_buffer_ok_def example_iep_def example_one_watch_def cast_slice_def window_ok_def
      get_addr_offset_def LOWER_4_G_def size_of_Qtd_def qtd_offset_def aligned32_def upt_rec)


end
