(* ===== verification/Device_Old.thy ===== *)
theory Device_Old
  imports Device
begin

text \<open>
  The earlier device implementation (\<^verbatim>\<open>device_old.rs\<close>), which the repository keeps beside the crate: one queue head per
  transfer, handed to a \<^verbatim>\<open>QhManager\<close> and taken back after it, and a parser inside \<^verbatim>\<open>get_device_info\<close>.  The theorems compare it with
  the code that replaced it.

  What the file uses and the repository no longer has is a parameter: \<^verbatim>\<open>QhManager\<close> (the record \<open>qh_manager\<close>), \<^verbatim>\<open>AlternateQtdLinkPtr::new\<close>
  (\<open>alt_new\<close>), the offsets in \<^verbatim>\<open>GetInfoBuffer\<close>, which depend on the size of \<^verbatim>\<open>QhWithMetadata\<close> (\<open>get_info_layout\<close>), and the list of wakers.
  \<^verbatim>\<open>QueueHead\<close> is read as \<^verbatim>\<open>Qh\<close> of \<^verbatim>\<open>queue_head.rs\<close>, and bus addresses have 32 bits, as the file's arithmetic has them.
  At an \<^verbatim>\<open>await\<close> of a descriptor the hardware acts, the argument \<open>hw\<close>.
\<close>

subsection \<open>Information\<close>

record old_usb_version =
  ov_minor :: u8
  ov_major :: u8

record old_endpoint =
  oe_endpoint_address :: endpoint_address
  oe_attributes :: endpoint_attributes
  oe_max_packet_size :: endpoint_max_packet_size
  oe_interval :: u8

record old_interface =
  oi_interface_number :: u8
  oi_alternate_setting :: u8
  oi_class :: u8
  oi_sub_class :: u8
  oi_protocol :: u8
  oi_name :: "string option"
  oi_endpoints :: "old_endpoint list"

record old_configuration =
  oc_value :: u8
  oc_name :: "string option"
  oc_attributes :: u8
  oc_max_power :: u8
  oc_interfaces :: "old_interface list"

record old_device_info =
  odi_usb_version :: old_usb_version
  odi_device_class :: u8
  odi_device_sub_class :: u8
  odi_device_protocol :: u8
  odi_max_packet_size :: u8
  odi_vendor_id :: u16
  odi_product_id :: u16
  odi_bcd_device :: u16
  odi_manufacturer :: "string option"
  odi_product :: "string option"
  odi_serial_number :: "string option"
  odi_configurations :: "old_configuration list"

subsection \<open>The device and its memory\<close>

record old_mem =
  om_phys_addr :: u32
  om_ptr :: vptr

record old_slice = old_mem +
  om_len :: nat

record old_device =
  od_root_port_number :: u4
  od_port_sc_reg :: vptr
  od_addr :: u7

text \<open>Queue heads, arrays of descriptors and buffers, each by the address they start at, and the frame list.\<close>

record old_io =
  oio_qhs :: "vptr \<Rightarrow> qh"
  oio_qtds :: "vptr \<Rightarrow> qtd list"
  oio_bufs :: "vptr \<Rightarrow> bytes"
  oio_periodic_list :: periodic_frame_list
  oio_transfers :: nat

record qh_manager =
  qm_add_qh_to_async_list :: "old_mem \<Rightarrow> old_io \<Rightarrow> old_io"
  qm_remove_qh :: "old_mem \<Rightarrow> old_io \<Rightarrow> old_io"

definition old_write_qh :: "vptr \<Rightarrow> qh \<Rightarrow> old_io \<Rightarrow> old_io" where
  "old_write_qh p q m = m\<lparr>oio_qhs := (oio_qhs m)(p := q)\<rparr>"

text \<open>A write of an array of descriptors covers the start of what is at its address.\<close>

definition old_write_qtds :: "vptr \<Rightarrow> qtd list \<Rightarrow> old_io \<Rightarrow> old_io" where
  "old_write_qtds p qs m = m\<lparr>oio_qtds := (oio_qtds m)(p := qs @ drop (length qs) (oio_qtds m p))\<rparr>"

definition old_write_buf :: "vptr \<Rightarrow> bytes \<Rightarrow> old_io \<Rightarrow> old_io" where
  "old_write_buf p bs m = m\<lparr>oio_bufs := (oio_bufs m)(p := bs)\<rparr>"

subsection \<open>Waiting\<close>

text \<open>One poll of \<^verbatim>\<open>wait_for_qtd\<close>; \<open>active\<close> is what it reads.\<close>

definition OldDevice_wait_for_qtd_poll ::
    "('w, 'a) atomic_waker \<Rightarrow> 'w \<Rightarrow> old_device \<Rightarrow> bool \<Rightarrow> 'a list \<Rightarrow> (bool \<times> 'a list) outcome" where
  "OldDevice_wait_for_qtd_poll aw cx d active port_wakers =
     obind (index_list port_wakers (unat (od_root_port_number d))) (\<lambda>a.
     Inr (\<not> active, port_wakers[unat (od_root_port_number d) := aw_register aw cx a]))"

subsection \<open>Transfers\<close>

definition old_control_qh :: "old_device \<Rightarrow> qh outcome" where
  "old_control_qh d =
     obind (uint_new 64) (\<lambda>max_packet_len.
     Inr (Qh_new
       (EndpointCharacteristics_with_max_packet_len max_packet_len
         (EndpointCharacteristics_with_endpoint_speed (u2_from_EndpointSpeed EndpointSpeed_High)
           (EndpointCharacteristics_with_endpoint_number 0
             (EndpointCharacteristics_with_device_addr (od_addr d)
               (EndpointCharacteristics_with_head_of_reclamation_list_flag False 0))))) 0))"

definition old_setup_qtd :: "old_mem \<Rightarrow> qtd outcome" where
  "old_setup_qtd setup_packet_mem =
     obind (uint_new 8) (\<lambda>n.
     obind (BufferPtrs_new_contiguous (ucast (om_phys_addr setup_packet_mem)) 8) (\<lambda>bp.
     Qtd_new (TransferToken_new_active SetupToken n) bp))"

definition old_in_qtd :: "(u32 \<Rightarrow> alternate_qtd_link_ptr) \<Rightarrow> u32 \<Rightarrow> u15 \<Rightarrow> old_slice \<Rightarrow> qtd outcome" where
  "old_in_qtd alt_new status_qtd_phys_addr in_bytes_to_transfer buffer_mem =
     obind (BufferPtrs_new_contiguous (ucast (om_phys_addr buffer_mem)) (of_nat (om_len buffer_mem))) (\<lambda>bp.
     obind (Qtd_new (TransferToken_with_interrupt_on_complete True
              (TransferToken_with_data_toggle False (TransferToken_new_active InToken in_bytes_to_transfer))) bp) (\<lambda>qtd.
     Inr (qtd\<lparr>alternate_next_qtd_ptr := alt_new status_qtd_phys_addr\<rparr>)))"

definition old_status_qtd :: "PidCode \<Rightarrow> qtd outcome" where
  "old_status_qtd pid =
     Qtd_new (TransferToken_with_interrupt_on_complete True
       (TransferToken_with_data_toggle True (TransferToken_new_active pid 0))) BufferPtrs_ZERO"

text \<open>\<^verbatim>\<open>get_descriptor\<close> up to the hand-over of the queue head.\<close>

definition OldDevice_get_descriptor_start ::
    "(u32 \<Rightarrow> alternate_qtd_link_ptr) \<Rightarrow> old_device \<Rightarrow> old_mem \<Rightarrow> old_mem \<Rightarrow> old_mem \<Rightarrow> old_slice \<Rightarrow> old_io
      \<Rightarrow> (u15 \<times> old_io) outcome" where
  "OldDevice_get_descriptor_start alt_new d qh_mem qtds_mem setup_packet_mem buffer_mem m =
     obind (old_control_qh d) (\<lambda>q.
     obind (checked_add (om_phys_addr qtds_mem) (of_nat (size_of_Qtd * 2))) (\<lambda>status_qtd_phys_addr.
     if om_len buffer_mem < 2 ^ 16
     then obind (uint_new (om_len buffer_mem)) (\<lambda>in_bytes_to_transfer.
          obind (old_setup_qtd setup_packet_mem) (\<lambda>setup_qtd.
          obind (old_in_qtd alt_new status_qtd_phys_addr in_bytes_to_transfer buffer_mem) (\<lambda>in_qtd.
          obind (old_status_qtd OutToken) (\<lambda>status_qtd.
          obind (link_contiguous_qtds q [setup_qtd, in_qtd, status_qtd] (om_phys_addr qtds_mem)) (\<lambda>(q', qtds).
          Inr (in_bytes_to_transfer, old_write_qtds (om_ptr qtds_mem) qtds (old_write_qh (om_ptr qh_mem) q' m)))))))
     else Inl UnwrapFailed))"

text \<open>The state when the two waits are over.\<close>

definition old_await :: "(old_io \<Rightarrow> old_io) \<Rightarrow> old_io \<Rightarrow> old_io" where
  "old_await hw m = (hw m)\<lparr>oio_transfers := Suc (oio_transfers m)\<rparr>"

definition OldDevice_get_descriptor ::
    "qh_manager \<Rightarrow> (old_io \<Rightarrow> old_io) \<Rightarrow> (u32 \<Rightarrow> alternate_qtd_link_ptr) \<Rightarrow> old_device \<Rightarrow> old_mem \<Rightarrow> old_mem \<Rightarrow> old_mem
      \<Rightarrow> old_slice \<Rightarrow> old_io \<Rightarrow> (nat \<times> old_io) outcome" where
  "OldDevice_get_descriptor qm hw alt_new d qh_mem qtds_mem setup_packet_mem buffer_mem m =
     obind (OldDevice_get_descriptor_start alt_new d qh_mem qtds_mem setup_packet_mem buffer_mem m) (\<lambda>(in_bytes_to_transfer, m1).
     let m2 = old_await hw (qm_add_qh_to_async_list qm qh_mem m1);
         m3 = qm_remove_qh qm qh_mem m2
     in obind (index_list (oio_qtds m3 (om_ptr qtds_mem)) 1) (\<lambda>in_qtd.
        obind (checked_sub in_bytes_to_transfer (TransferToken_total_bytes_to_transfer (qtd_token in_qtd))) (\<lambda>descriptor_len.
        Inr (unat descriptor_len, m3))))"

definition old_cast_slice :: "nat \<Rightarrow> old_mem \<Rightarrow> old_slice" where
  "old_cast_slice n b = \<lparr>om_phys_addr = om_phys_addr b, om_ptr = om_ptr b, om_len = n\<rparr>"

definition OldDevice_get_device_descriptor ::
    "qh_manager \<Rightarrow> (old_io \<Rightarrow> old_io) \<Rightarrow> (u32 \<Rightarrow> alternate_qtd_link_ptr) \<Rightarrow> old_device \<Rightarrow> old_mem \<Rightarrow> old_mem \<Rightarrow> old_mem
      \<Rightarrow> old_mem \<Rightarrow> old_io \<Rightarrow> (device_descriptor \<times> old_io) outcome" where
  "OldDevice_get_device_descriptor qm hw alt_new d qh_mem qtds_mem setup_packet_mem buffer_mem m =
     obind (OldDevice_get_descriptor qm hw alt_new d qh_mem qtds_mem setup_packet_mem (old_cast_slice 18 buffer_mem)
              (old_write_buf (om_ptr setup_packet_mem) (SetupPacket_bytes (SetupPacket_new_get_device_descriptor 18)) m))
       (\<lambda>(bytes_transferred, m').
     obind (slice_range (take 18 (oio_bufs m' (om_ptr buffer_mem))) 0 bytes_transferred) (\<lambda>descriptor_bytes.
     obind (unwrap_opt (DeviceDescriptor_from_bytes descriptor_bytes)) (\<lambda>dd.
     Inr (dd, m'))))"

definition OldDevice_get_configuration_descriptor ::
    "qh_manager \<Rightarrow> (old_io \<Rightarrow> old_io) \<Rightarrow> (u32 \<Rightarrow> alternate_qtd_link_ptr) \<Rightarrow> old_device \<Rightarrow> u8 \<Rightarrow> old_mem \<Rightarrow> old_mem \<Rightarrow> old_mem
      \<Rightarrow> old_mem \<Rightarrow> old_io \<Rightarrow> (nat \<times> old_io) outcome" where
  "OldDevice_get_configuration_descriptor qm hw alt_new d descriptor_num qh_mem qtds_mem setup_packet_mem buffer_mem m =
     OldDevice_get_descriptor qm hw alt_new d qh_mem qtds_mem setup_packet_mem
       (old_cast_slice MAX_CONFIGURATION_DESCRIPTOR_LEN buffer_mem)
       (old_write_buf (om_ptr setup_packet_mem)
          (SetupPacket_bytes (SetupPacket_new_get_configuration_descriptor
             (of_nat MAX_CONFIGURATION_DESCRIPTOR_LEN) descriptor_num)) m)"

subsection \<open>Device information\<close>

text \<open>The loops of \<^verbatim>\<open>get_device_info\<close> over a configuration descriptor.  A loop that does not end has the value \<open>None\<close>.\<close>

partial_function (option) old_endpoint_loop ::
    "bytes \<Rightarrow> nat \<Rightarrow> nat \<Rightarrow> nat \<Rightarrow> old_endpoint list \<Rightarrow> (nat \<times> old_endpoint list) outcome option" where
  "old_endpoint_loop full_descriptor n position endpoint_index endpoints =
     (if endpoint_index < n
      then case obind (slice_range full_descriptor position 2) (\<lambda>s. unwrap_opt (CommonDescriptor_from_bytes s)) of
             Inl e \<Rightarrow> Some (Inl e)
           | Inr descriptor \<Rightarrow>
               if cd_b_descriptor_type descriptor = u8_from_DescriptorType DescriptorType_Endpoint
               then case obind (slice_range full_descriptor position 7) (\<lambda>s. unwrap_opt (EndpointDescriptor_from_bytes s)) of
                      Inl e \<Rightarrow> Some (Inl e)
                    | Inr endpoint_descriptor \<Rightarrow>
                        old_endpoint_loop full_descriptor n (position + unat (cd_b_length descriptor)) (endpoint_index + 1)
                          (endpoints @ [\<lparr>oe_endpoint_address = ep_b_endpoint_address endpoint_descriptor,
                             oe_attributes = ep_bm_attributes endpoint_descriptor,
                             oe_max_packet_size = ep_w_max_packet_size endpoint_descriptor,
                             oe_interval = ep_b_interval endpoint_descriptor\<rparr>])
               else old_endpoint_loop full_descriptor n (position + unat (cd_b_length descriptor)) endpoint_index endpoints
      else Some (Inr (position, endpoints)))"

partial_function (option) old_interface_loop ::
    "bytes \<Rightarrow> nat \<Rightarrow> nat \<Rightarrow> nat \<Rightarrow> old_interface list \<Rightarrow> old_interface list outcome option" where
  "old_interface_loop full_descriptor n position interface_index interfaces =
     (if interface_index < n
      then case obind (slice_range full_descriptor position 2) (\<lambda>s. unwrap_opt (CommonDescriptor_from_bytes s)) of
             Inl e \<Rightarrow> Some (Inl e)
           | Inr descriptor \<Rightarrow>
               if cd_b_descriptor_type descriptor = u8_from_DescriptorType DescriptorType_Interface
               then case obind (slice_range full_descriptor position 9) (\<lambda>s. unwrap_opt (InterfaceDescriptor_from_bytes s)) of
                      Inl e \<Rightarrow> Some (Inl e)
                    | Inr interface_descriptor \<Rightarrow>
                        Option.bind
                          (old_endpoint_loop full_descriptor (unat (if_b_num_endpoints interface_descriptor))
                             (position + unat (cd_b_length descriptor)) 0 [])
                          (\<lambda>r. case r of
                                 Inl e \<Rightarrow> Some (Inl e)
                               | Inr (position', endpoints) \<Rightarrow>
                                   old_interface_loop full_descriptor n position' (interface_index + 1)
                                     (interfaces @ [\<lparr>oi_interface_number = if_b_interface_number interface_descriptor,
                                        oi_alternate_setting = if_b_alternate_setting interface_descriptor,
                                        oi_class = if_b_interface_class interface_descriptor,
                                        oi_sub_class = if_b_interface_sub_class interface_descriptor,
                                        oi_protocol = if_b_interface_protocol interface_descriptor,
                                        oi_name = None, oi_endpoints = endpoints\<rparr>]))
               else old_interface_loop full_descriptor n (position + unat (cd_b_length descriptor)) interface_index interfaces
      else Some (Inr interfaces))"

definition old_configuration_from :: "bytes \<Rightarrow> old_configuration outcome option" where
  "old_configuration_from full_descriptor =
     (case obind (slice_range full_descriptor 0 9) (\<lambda>s. unwrap_opt (ConfigurationDescriptor_from_bytes s)) of
        Inl e \<Rightarrow> Some (Inl e)
      | Inr configuration_descriptor \<Rightarrow>
          Option.bind (old_interface_loop full_descriptor (unat (cfg_b_num_interfaces configuration_descriptor)) 9 0 [])
            (\<lambda>r. case r of
                   Inl e \<Rightarrow> Some (Inl e)
                 | Inr interfaces \<Rightarrow>
                     Some (Inr \<lparr>oc_value = cfg_b_configuration_value configuration_descriptor, oc_name = None,
                       oc_attributes = cfg_bm_attributes configuration_descriptor,
                       oc_max_power = cfg_b_max_power configuration_descriptor, oc_interfaces = interfaces\<rparr>)))"

text \<open>The fields of \<^verbatim>\<open>GetInfoBuffer\<close>; \<^verbatim>\<open>buffer\<close> is the first.\<close>

record get_info_layout =
  lay_qh :: u32
  lay_qtds :: u32
  lay_setup_packet :: u32

definition old_field :: "old_mem \<Rightarrow> u32 \<Rightarrow> old_mem outcome" where
  "old_field b offset =
     obind (checked_add (om_phys_addr b) offset) (\<lambda>a. Inr \<lparr>om_phys_addr = a, om_ptr = om_ptr b + ucast offset\<rparr>)"

definition old_fields :: "get_info_layout \<Rightarrow> old_mem \<Rightarrow> (old_mem \<times> old_mem \<times> old_mem \<times> old_mem) outcome" where
  "old_fields lay b =
     obind (old_field b (lay_qh lay)) (\<lambda>qh_mem.
     obind (old_field b (lay_qtds lay)) (\<lambda>qtds_mem.
     obind (old_field b (lay_setup_packet lay)) (\<lambda>setup_packet_mem.
     obind (old_field b 0) (\<lambda>buffer_mem.
     Inr (qh_mem, qtds_mem, setup_packet_mem, buffer_mem)))))"

text \<open>The loop \<^verbatim>\<open>for n in 0..b_num_configurations\<close>; \<open>k\<close> iterations are left.\<close>

primrec old_configurations_loop ::
    "qh_manager \<Rightarrow> (old_io \<Rightarrow> old_io) \<Rightarrow> (u32 \<Rightarrow> alternate_qtd_link_ptr) \<Rightarrow> old_device \<Rightarrow> get_info_layout \<Rightarrow> old_mem \<Rightarrow> nat
      \<Rightarrow> u8 \<Rightarrow> old_configuration list \<Rightarrow> old_io \<Rightarrow> (old_configuration list \<times> old_io) outcome option" where
  "old_configurations_loop qm hw alt_new d lay buffer 0 n configurations m = Some (Inr (configurations, m))"
| "old_configurations_loop qm hw alt_new d lay buffer (Suc k) n configurations m =
     (case obind (old_fields lay buffer) (\<lambda>(qh_mem, qtds_mem, setup_packet_mem, buffer_mem).
             obind (OldDevice_get_configuration_descriptor qm hw alt_new d n qh_mem qtds_mem setup_packet_mem buffer_mem m)
               (\<lambda>(descriptor_len, m').
             obind (slice_range (take MAX_CONFIGURATION_DESCRIPTOR_LEN (oio_bufs m' (om_ptr buffer))) 0 descriptor_len)
               (\<lambda>full_descriptor. Inr (full_descriptor, m')))) of
        Inl e \<Rightarrow> Some (Inl e)
      | Inr (full_descriptor, m') \<Rightarrow>
          Option.bind (old_configuration_from full_descriptor) (\<lambda>r.
            case r of
              Inl e \<Rightarrow> Some (Inl e)
            | Inr c \<Rightarrow> old_configurations_loop qm hw alt_new d lay buffer k (n + 1) (configurations @ [c]) m'))"

definition old_device_info_of :: "device_descriptor \<Rightarrow> old_configuration list \<Rightarrow> old_device_info" where
  "old_device_info_of dd configurations =
     \<lparr>odi_usb_version = \<lparr>ov_minor = dd_bcd_usb dd ! 0, ov_major = dd_bcd_usb dd ! 1\<rparr>,
      odi_device_class = dd_b_device_class dd,
      odi_device_sub_class = dd_b_device_sub_class dd,
      odi_device_protocol = dd_b_device_protocol dd,
      odi_max_packet_size = dd_b_max_packet_size dd,
      odi_vendor_id = dd_id_vendor dd,
      odi_product_id = dd_id_product dd,
      odi_bcd_device = dd_bcd_device dd,
      odi_manufacturer = None,
      odi_product = None,
      odi_serial_number = None,
      odi_configurations = configurations\<rparr>"

definition OldDevice_get_device_info ::
    "qh_manager \<Rightarrow> (old_io \<Rightarrow> old_io) \<Rightarrow> (u32 \<Rightarrow> alternate_qtd_link_ptr) \<Rightarrow> old_device \<Rightarrow> get_info_layout \<Rightarrow> old_mem \<Rightarrow> old_io
      \<Rightarrow> (old_device_info \<times> old_io) outcome option" where
  "OldDevice_get_device_info qm hw alt_new d lay buffer m =
     (case obind (old_fields lay buffer) (\<lambda>(qh_mem, qtds_mem, setup_packet_mem, buffer_mem).
             OldDevice_get_device_descriptor qm hw alt_new d qh_mem qtds_mem setup_packet_mem buffer_mem m) of
        Inl e \<Rightarrow> Some (Inl e)
      | Inr (dd, m1) \<Rightarrow>
          Option.bind (old_configurations_loop qm hw alt_new d lay buffer (unat (dd_b_num_configurations dd)) 0 [] m1)
            (\<lambda>r. case r of
                   Inl e \<Rightarrow> Some (Inl e)
                 | Inr (configurations, m2) \<Rightarrow> Some (Inr (old_device_info_of dd configurations, m2))))"

subsection \<open>Requests without data\<close>

definition old_setup_transfer_qh :: "old_device \<Rightarrow> qh outcome" where
  "old_setup_transfer_qh d =
     obind (uint_new 8) (\<lambda>max_packet_len.
     Inr (Qh_new
       (EndpointCharacteristics_with_nak_count_reload 0
         (EndpointCharacteristics_with_endpoint_control_flag False
           (EndpointCharacteristics_with_max_packet_len max_packet_len
             (EndpointCharacteristics_with_head_of_reclamation_list_flag False
               (EndpointCharacteristics_with_data_toggle_control False
                 (EndpointCharacteristics_with_endpoint_speed (u2_from_EndpointSpeed EndpointSpeed_High)
                   (EndpointCharacteristics_with_endpoint_number 0
                     (EndpointCharacteristics_with_inactive_on_next_transaction False
                       (EndpointCharacteristics_with_device_addr (od_addr d) 0))))))))) 0))"

definition OldDevice_do_setup_transfer_start ::
    "old_device \<Rightarrow> old_mem \<Rightarrow> old_mem \<Rightarrow> old_mem \<Rightarrow> old_io \<Rightarrow> old_io outcome" where
  "OldDevice_do_setup_transfer_start d qh_mem qtds_mem setup_packet_mem m =
     obind (old_setup_transfer_qh d) (\<lambda>q.
     obind (old_setup_qtd setup_packet_mem) (\<lambda>setup_qtd.
     obind (old_status_qtd InToken) (\<lambda>status_qtd.
     obind (link_contiguous_qtds q [setup_qtd, status_qtd] (om_phys_addr qtds_mem)) (\<lambda>(q', qtds).
     Inr (old_write_qtds (om_ptr qtds_mem) qtds (old_write_qh (om_ptr qh_mem) q' m))))))"

definition OldDevice_do_setup_transfer ::
    "qh_manager \<Rightarrow> (old_io \<Rightarrow> old_io) \<Rightarrow> old_device \<Rightarrow> old_mem \<Rightarrow> old_mem \<Rightarrow> old_mem \<Rightarrow> old_io \<Rightarrow> old_io outcome" where
  "OldDevice_do_setup_transfer qm hw d qh_mem qtds_mem setup_packet_mem m =
     obind (OldDevice_do_setup_transfer_start d qh_mem qtds_mem setup_packet_mem m) (\<lambda>m1.
     Inr (qm_remove_qh qm qh_mem (old_await hw (qm_add_qh_to_async_list qm qh_mem m1))))"

definition OldDevice_set_configuration ::
    "qh_manager \<Rightarrow> (old_io \<Rightarrow> old_io) \<Rightarrow> old_device \<Rightarrow> u8 \<Rightarrow> old_mem \<Rightarrow> old_mem \<Rightarrow> old_mem \<Rightarrow> old_io \<Rightarrow> old_io outcome" where
  "OldDevice_set_configuration qm hw d configuration_number qh_mem qtds_mem setup_packet_mem m =
     OldDevice_do_setup_transfer qm hw d qh_mem qtds_mem setup_packet_mem
       (old_write_buf (om_ptr setup_packet_mem) (SetupPacket_bytes (SetupPacket_new_set_configuration configuration_number)) m)"

subsection \<open>The experimental interrupt endpoint\<close>

definition old_dev_qh :: "old_device \<Rightarrow> qh outcome" where
  "old_dev_qh d =
     obind (uint_new 1) (\<lambda>endpoint_number.
     obind (uint_new 8) (\<lambda>max_packet_len.
     Inr (Qh_new
       (EndpointCharacteristics_with_nak_count_reload 0
         (EndpointCharacteristics_with_endpoint_control_flag False
           (EndpointCharacteristics_with_max_packet_len max_packet_len
             (EndpointCharacteristics_with_head_of_reclamation_list_flag False
               (EndpointCharacteristics_with_data_toggle_control False
                 (EndpointCharacteristics_with_endpoint_speed (u2_from_EndpointSpeed EndpointSpeed_High)
                   (EndpointCharacteristics_with_endpoint_number endpoint_number
                     (EndpointCharacteristics_with_inactive_on_next_transaction False
                       (EndpointCharacteristics_with_device_addr (od_addr d) 0)))))))))
       (EndpointCapabilities_with_high_bandwidth_pipe_multiplier 1
         (EndpointCapabilities_with_port_number 0
           (EndpointCapabilities_with_hub_addr 0
             (EndpointCapabilities_with_split_completion_mask 0
               (EndpointCapabilities_with_interrupt_schedule_mask 1 0))))))))"

definition old_dev_token :: transfer_token where
  "old_dev_token = TransferToken_with_interrupt_on_complete True (TransferToken_new_active InToken 8)"

definition old_dev_slot :: "old_mem \<Rightarrow> nat \<Rightarrow> buffer_ptrs outcome" where
  "old_dev_slot buffer_mem i =
     obind (checked_add (ucast (om_phys_addr buffer_mem)) (8 * of_nat i)) (\<lambda>a. BufferPtrs_new_contiguous a 8)"

definition old_dev_qtd :: "old_mem \<Rightarrow> nat \<Rightarrow> qtd outcome" where
  "old_dev_qtd buffer_mem i = obind (old_dev_slot buffer_mem i) (Qtd_new old_dev_token)"

text \<open>\<^verbatim>\<open>dev\<close> up to its loop: the array has one descriptor, which is linked to itself, and every eighth frame leads to the queue head.\<close>

definition OldDevice_dev_start :: "old_device \<Rightarrow> old_mem \<Rightarrow> old_mem \<Rightarrow> old_mem \<Rightarrow> old_io \<Rightarrow> old_io outcome" where
  "OldDevice_dev_start d qh_mem qtds_mem buffer_mem m =
     obind (old_dev_qh d) (\<lambda>q.
     obind (old_dev_qtd buffer_mem 0) (\<lambda>qtd.
     obind (link_contiguous_qtds q [qtd] (om_phys_addr qtds_mem)) (\<lambda>(q', qtds).
     let qtds' = butlast qtds @ [(last qtds)\<lparr>next_qtd_ptr := NextQtdPointer_new_valid (om_phys_addr qtds_mem)\<rparr>];
         m' = old_write_qtds (om_ptr qtds_mem) qtds' (old_write_qh (om_ptr qh_mem) q' m)
     in Inr (m'\<lparr>oio_periodic_list :=
          fold (\<lambda>i l. l[i * 8 := PeriodicFrameListElement_new Qh (om_phys_addr qh_mem)]) [0..<1024 div 8] (oio_periodic_list m')\<rparr>))))"

text \<open>One iteration of the loop: the bytes of a packet that has arrived, or one poll of the wait, in which the second read of the
  flag is \<open>active'\<close>.\<close>

definition OldDevice_dev_step ::
    "('w, 'a) atomic_waker \<Rightarrow> 'w \<Rightarrow> bool \<Rightarrow> old_device \<Rightarrow> old_mem \<Rightarrow> old_mem \<Rightarrow> nat \<times> old_io \<times> 'a list
      \<Rightarrow> (bytes option \<times> nat \<times> old_io \<times> 'a list) outcome" where
  "OldDevice_dev_step aw cx active' d qtds_mem buffer_mem = (\<lambda>(next_qtd, m, port_wakers).
     obind (index_list (oio_qtds m (om_ptr qtds_mem)) next_qtd) (\<lambda>qtd.
     if \<not> TransferToken_active (qtd_token qtd)
     then let buffer = take 8 (drop (next_qtd * 8) (oio_bufs m (om_ptr buffer_mem)))
          in obind (old_dev_slot buffer_mem next_qtd) (\<lambda>bp.
             let qtd1 = qtd\<lparr>buffer_pointer_page_0 :=
                          QtdBufferPagePointerPage0_with_current_offset (bp_offset bp) (buffer_pointer_page_0 qtd)\<rparr>;
                 qtd2 = qtd1\<lparr>qtd_token := old_dev_token\<rparr>
             in Inr (Some buffer, (if next_qtd + 1 = 1 then 0 else next_qtd + 1),
                  m\<lparr>oio_qtds := (oio_qtds m)(om_ptr qtds_mem := (oio_qtds m (om_ptr qtds_mem))[next_qtd := qtd2])\<rparr>, port_wakers))
     else obind (OldDevice_wait_for_qtd_poll aw cx d active' port_wakers) (\<lambda>(_, port_wakers').
          Inr (None, next_qtd, m, port_wakers'))))"

subsection \<open>Hubs\<close>

primrec old_power_ports ::
    "qh_manager \<Rightarrow> (old_io \<Rightarrow> old_io) \<Rightarrow> old_device \<Rightarrow> u8 list \<Rightarrow> old_mem \<Rightarrow> old_mem \<Rightarrow> old_mem \<Rightarrow> old_io \<Rightarrow> old_io outcome" where
  "old_power_ports qm hw d [] qh_mem qtds_mem setup_packet_mem m = Inr m"
| "old_power_ports qm hw d (port_number # ports) qh_mem qtds_mem setup_packet_mem m =
     obind (OldDevice_do_setup_transfer qm hw d qh_mem qtds_mem setup_packet_mem
              (old_write_buf (om_ptr setup_packet_mem) (SetupPacket_bytes (SetupPacket_new_set_feature_port_power port_number)) m))
       (\<lambda>m'. old_power_ports qm hw d ports qh_mem qtds_mem setup_packet_mem m')"

definition OldDevice_hub_info ::
    "qh_manager \<Rightarrow> (old_io \<Rightarrow> old_io) \<Rightarrow> (u32 \<Rightarrow> alternate_qtd_link_ptr) \<Rightarrow> old_device \<Rightarrow> old_mem \<Rightarrow> old_mem \<Rightarrow> old_mem
      \<Rightarrow> old_mem \<Rightarrow> old_io \<Rightarrow> old_io outcome" where
  "OldDevice_hub_info qm hw alt_new d qh_mem qtds_mem setup_packet_mem buffer_mem m =
     obind (OldDevice_get_descriptor qm hw alt_new d qh_mem qtds_mem setup_packet_mem (old_cast_slice size_of_HubDescriptor buffer_mem)
              (old_write_buf (om_ptr setup_packet_mem)
                (SetupPacket_bytes (SetupPacket_new_get_hub_descriptor (of_nat size_of_HubDescriptor))) m)) (\<lambda>(descriptor_len, m1).
     let descriptor = take descriptor_len (oio_bufs m1 (om_ptr buffer_mem))
     in obind (HubDescriptor_from_bytes descriptor) (\<lambda>hub_descriptor.
        obind (OldDevice_set_configuration qm hw d 1 qh_mem qtds_mem setup_packet_mem m1) (\<lambda>m2.
        old_power_ports qm hw d (map of_nat [1..<Suc (unat (hd_b_nbr_ports (fixed_size_fields hub_descriptor)))])
          qh_mem qtds_mem setup_packet_mem m2)))"

subsection \<open>The old parser and the new one\<close>

definition new_endpoint :: "old_endpoint \<Rightarrow> endpoint_info" where
  "new_endpoint e = \<lparr>ei_endpoint_address = oe_endpoint_address e, ei_attributes = oe_attributes e,
     ei_max_packet_size = oe_max_packet_size e, ei_interval = oe_interval e\<rparr>"

definition new_interface :: "old_interface \<Rightarrow> interface_info" where
  "new_interface i = \<lparr>ii_interface_number = oi_interface_number i, ii_alternate_setting = oi_alternate_setting i,
     ii_class = oi_class i, ii_sub_class = oi_sub_class i, ii_protocol = oi_protocol i, ii_name = oi_name i,
     ii_endpoints = map new_endpoint (oi_endpoints i)\<rparr>"

definition new_configuration :: "old_configuration \<Rightarrow> configuration_info" where
  "new_configuration c = \<lparr>ci_number = oc_value c, ci_name = oc_name c, ci_attributes = oc_attributes c,
     ci_max_power = oc_max_power c, ci_interfaces = map new_interface (oc_interfaces c)\<rparr>"

definition new_device_info :: "old_device_info \<Rightarrow> device_info" where
  "new_device_info i = \<lparr>di_usb_version = \<lparr>minor = ov_minor (odi_usb_version i), major = ov_major (odi_usb_version i)\<rparr>,
     di_device_class = odi_device_class i, di_device_sub_class = odi_device_sub_class i,
     di_device_protocol = odi_device_protocol i, di_max_packet_size = odi_max_packet_size i,
     di_vendor_id = odi_vendor_id i, di_product_id = odi_product_id i, di_bcd_device = odi_bcd_device i,
     di_manufacturer = odi_manufacturer i, di_product = odi_product i, di_serial_number = odi_serial_number i,
     di_configurations = map new_configuration (odi_configurations i)\<rparr>"

text \<open>And back.\<close>

definition old_endpoint_of :: "endpoint_info \<Rightarrow> old_endpoint" where
  "old_endpoint_of e = \<lparr>oe_endpoint_address = ei_endpoint_address e, oe_attributes = ei_attributes e,
     oe_max_packet_size = ei_max_packet_size e, oe_interval = ei_interval e\<rparr>"

definition old_interface_of :: "interface_info \<Rightarrow> old_interface" where
  "old_interface_of i = \<lparr>oi_interface_number = ii_interface_number i, oi_alternate_setting = ii_alternate_setting i,
     oi_class = ii_class i, oi_sub_class = ii_sub_class i, oi_protocol = ii_protocol i, oi_name = ii_name i,
     oi_endpoints = map old_endpoint_of (ii_endpoints i)\<rparr>"

lemma old_endpoint_of_new [simp]: "old_endpoint_of (new_endpoint e) = e"
  by (simp add: old_endpoint_of_def new_endpoint_def)

lemma old_interface_of_new [simp]: "old_interface_of (new_interface i) = i"
  by (simp add: old_interface_of_def new_interface_def comp_def)

lemma option_eqI:
  assumes "\<And>r. x = Some r \<Longrightarrow> y = Some (f r)" "\<And>r. y = Some r \<Longrightarrow> x \<noteq> None"
  shows "y = map_option f x"
  using assms by (cases x; cases y) auto

lemma old_endpoint_loop_eq:
  "endpoint_loop d n p i (map new_endpoint es)
    = map_option (map_sum id (map_prod id (map new_endpoint))) (old_endpoint_loop d n p i es)"
proof (rule option_eqI)
  fix r assume that: "old_endpoint_loop d n p i es = Some r"
  show "endpoint_loop d n p i (map new_endpoint es) = Some (map_sum id (map_prod id (map new_endpoint)) r)"
  proof (rule old_endpoint_loop.raw_induct [where P = "\<lambda>d n p i es r.
        endpoint_loop d n p i (map new_endpoint es) = Some (map_sum id (map_prod id (map new_endpoint)) r)", OF _ that], goal_cases)
    case (1 f d n p i es r)
    then show ?case
      by (subst endpoint_loop.simps)
        (fastforce simp: common_at_def endpoint_at_def EndpointInfo_of_def new_endpoint_def split: if_splits sum.splits)
  qed
next
  fix r assume that: "endpoint_loop d n p i (map new_endpoint es) = Some r"
  have "old_endpoint_loop d n p i (map old_endpoint_of (map new_endpoint es)) = Some (map_sum id (map_prod id (map old_endpoint_of)) r)"
  proof (rule endpoint_loop.raw_induct [where P = "\<lambda>d n p i es r.
        old_endpoint_loop d n p i (map old_endpoint_of es) = Some (map_sum id (map_prod id (map old_endpoint_of)) r)", OF _ that], goal_cases)
    case (1 f d n p i es r)
    then show ?case
      by (subst old_endpoint_loop.simps)
        (fastforce simp: common_at_def endpoint_at_def EndpointInfo_of_def old_endpoint_of_def split: if_splits sum.splits)
  qed
  then show "old_endpoint_loop d n p i es \<noteq> None" by (simp add: comp_def)
qed

lemma old_endpoint_loop_start:
  "endpoint_loop d n p i [] = map_option (map_sum id (map_prod id (map new_endpoint))) (old_endpoint_loop d n p i [])"
  using old_endpoint_loop_eq [of d n p i "[]"] by simp

lemma old_interface_loop_eq:
  "interface_loop d n p i (map new_interface is) = map_option (map_sum id (map new_interface)) (old_interface_loop d n p i is)"
proof (rule option_eqI)
  fix r assume that: "old_interface_loop d n p i is = Some r"
  show "interface_loop d n p i (map new_interface is) = Some (map_sum id (map new_interface) r)"
  proof (rule old_interface_loop.raw_induct [where P = "\<lambda>d n p i is r.
        interface_loop d n p i (map new_interface is) = Some (map_sum id (map new_interface) r)", OF _ that], goal_cases)
    case (1 f d n p i "is" r)
    note r = 1(2) [folded common_at_def interface_at_def]
    have IH: "interface_loop d n p' j (map new_interface is @ [new_interface x]) = Some (map_sum id (map new_interface) r)"
      if "f d n p' j (is @ [x]) = Some r" for p' j x
      using 1(1) [OF that] by simp
    show ?case
      using r 1(1) [of d n _ i "is" r]
      by (subst interface_loop.simps)
        (auto simp: InterfaceInfo_of_def new_interface_def old_endpoint_loop_start split: if_splits sum.splits Option.bind_splits dest!: IH)
  qed
next
  fix r assume that: "interface_loop d n p i (map new_interface is) = Some r"
  have "old_interface_loop d n p i (map old_interface_of (map new_interface is)) = Some (map_sum id (map old_interface_of) r)"
  proof (rule interface_loop.raw_induct [where P = "\<lambda>d n p i is r.
        old_interface_loop d n p i (map old_interface_of is) = Some (map_sum id (map old_interface_of) r)", OF _ that], goal_cases)
    case (1 f d n p i "is" r)
    have IH: "old_interface_loop d n p' j (map old_interface_of is @ [old_interface_of x]) = Some (map_sum id (map old_interface_of) r)"
      if "f d n p' j (is @ [x]) = Some r" for p' j x
      using 1(1) [OF that] by simp
    show ?case
      using 1(2) 1(1) [of d n _ i "is" r]
      by (subst old_interface_loop.simps, fold common_at_def interface_at_def)
        (auto simp: InterfaceInfo_of_def old_interface_of_def old_endpoint_loop_start comp_def split: if_splits sum.splits Option.bind_splits dest!: IH)
  qed
  then show "old_interface_loop d n p i is \<noteq> None" by (simp add: comp_def)
qed

lemma old_configuration_eq:
  "ConfigurationInfo_from_descriptor d = map_option (map_sum id new_configuration) (old_configuration_from d)"
  using old_interface_loop_eq [of d _ 9 0 "[]"]
  by (auto simp: ConfigurationInfo_from_descriptor_def old_configuration_from_def new_configuration_def
      split: sum.splits Option.bind_splits)

subsection \<open>The chain of an IN transfer\<close>

text \<open>Memory that fits: the descriptors inside the address space, buffers the page pointers can hold.\<close>

definition old_resources_ok :: "old_mem \<Rightarrow> old_mem \<Rightarrow> old_slice \<Rightarrow> bool" where
  "old_resources_ok qtds_mem setup_packet_mem buffer_mem \<longleftrightarrow>
     unat (om_phys_addr qtds_mem) + size_of_Qtd * 2 < 2 ^ 32 \<and> window_ok (ucast (om_phys_addr setup_packet_mem)) 8
     \<and> om_len buffer_mem < 2 ^ 15 \<and> window_ok (ucast (om_phys_addr buffer_mem)) (om_len buffer_mem)"

definition old_in_token :: "nat \<Rightarrow> transfer_token" where
  "old_in_token n = TransferToken_with_interrupt_on_complete True
     (TransferToken_with_data_toggle False (TransferToken_new_active InToken (of_nat n)))"

text \<open>What the queue head manager is handed: a queue head for the device that leads to the chain setup, data, status.\<close>

definition old_chain_ready ::
    "(u32 \<Rightarrow> alternate_qtd_link_ptr) \<Rightarrow> old_device \<Rightarrow> old_mem \<Rightarrow> old_mem \<Rightarrow> old_mem \<Rightarrow> old_slice \<Rightarrow> old_io \<Rightarrow> bool" where
  "old_chain_ready alt_new d qh_mem qtds_mem sp buffer m \<longleftrightarrow>
     (let q = oio_qhs m (om_ptr qh_mem); a = om_phys_addr qtds_mem; qs = oio_qtds m (om_ptr qtds_mem)
      in EndpointCharacteristics_device_addr (endpoint_characteristics q) = od_addr d
         \<and> next_qtd_pointer q = NextQtdPointer_new_valid a \<and> transfer_token q = 0 \<and> 3 \<le> length qs
         \<and> qtd_is (TransferToken_new_active SetupToken 8) (ucast (om_phys_addr sp)) 8
             (NextQtdPointer_new_valid (a + of_nat size_of_Qtd)) AlternateQtdLinkPtr_INVALID (qs ! 0)
         \<and> qtd_is (old_in_token (om_len buffer)) (ucast (om_phys_addr buffer)) (om_len buffer)
             (NextQtdPointer_new_valid (a + of_nat (2 * size_of_Qtd))) (alt_new (a + of_nat (2 * size_of_Qtd))) (qs ! 1)
         \<and> qtd_token (qs ! 2) = status_token OutToken \<and> next_qtd_ptr (qs ! 2) = NextQtdPointer_INVALID)"

lemma old_get_descriptor_start_ready:
  assumes "old_resources_ok qtds_mem sp buffer"
  shows "\<exists>m'. OldDevice_get_descriptor_start alt_new d qh_mem qtds_mem sp buffer m = Inr (of_nat (om_len buffer), m')
    \<and> old_chain_ready alt_new d qh_mem qtds_mem sp buffer m' \<and> oio_bufs m' = oio_bufs m \<and> oio_transfers m' = oio_transfers m"
proof -
  let ?a = "om_phys_addr qtds_mem"
  note ok = assms [unfolded old_resources_ok_def]
  obtain bs s where s: "BufferPtrs_new_contiguous (ucast (om_phys_addr sp)) 8 = Inr bs"
      "Qtd_new (TransferToken_new_active SetupToken 8) bs = Inr s"
      "qtd_is (TransferToken_new_active SetupToken 8) (ucast (om_phys_addr sp)) 8 NextQtdPointer_INVALID AlternateQtdLinkPtr_INVALID s"
    using Qtd_new_window [of "ucast (om_phys_addr sp)" 8 8 "TransferToken_new_active SetupToken 8"] ok by auto
  obtain bi i where i: "BufferPtrs_new_contiguous (ucast (om_phys_addr buffer)) (of_nat (om_len buffer)) = Inr bi"
      "Qtd_new (old_in_token (om_len buffer)) bi = Inr i"
      "qtd_is (old_in_token (om_len buffer)) (ucast (om_phys_addr buffer)) (om_len buffer) NextQtdPointer_INVALID AlternateQtdLinkPtr_INVALID i"
    using Qtd_new_window [of "ucast (om_phys_addr buffer)" "om_len buffer", OF _ refl] ok by blast
  obtain t where t: "old_status_qtd OutToken = Inr t" "qtd_token t = status_token OutToken" "next_qtd_ptr t = NextQtdPointer_INVALID"
    using Qtd_new_total [OF new_contiguous_ZERO_length, of "status_token OutToken"]
    by (auto simp: old_status_qtd_def status_token_def)
  have a: "checked_add ?a (of_nat (size_of_Qtd * 2)) = Inr (?a + 128)" "checked_add ?a 64 = Inr (?a + 64)" "checked_add ?a 128 = Inr (?a + 128)"
    using ok by (auto simp: checked_add_def size_of_Qtd_def)
  have in_q: "old_in_qtd alt_new (?a + 128) (of_nat (om_len buffer)) buffer = Inr (i\<lparr>alternate_next_qtd_ptr := alt_new (?a + 128)\<rparr>)"
    using i(1,2) by (simp add: old_in_qtd_def old_in_token_def)
  have setup_q: "old_setup_qtd sp = Inr s" using s by (simp add: old_setup_qtd_def uint_new_def)
  obtain q where q: "old_control_qh d = Inr q" "EndpointCharacteristics_device_addr (endpoint_characteristics q) = od_addr d" "transfer_token q = 0"
    by (simp add: old_control_qh_def uint_new_def Qh_new_def bitfield_defs bitfield)
  let ?i = "i\<lparr>alternate_next_qtd_ptr := alt_new (?a + 128)\<rparr>"
  have link: "link_contiguous_qtds q [s, ?i, t] ?a = Inr (q\<lparr>next_qtd_pointer := NextQtdPointer_new_valid ?a\<rparr>,
      [s\<lparr>next_qtd_ptr := NextQtdPointer_new_valid (?a + 64)\<rparr>, ?i\<lparr>next_qtd_ptr := NextQtdPointer_new_valid (?a + 128)\<rparr>, t])"
    using a by (simp add: link_contiguous_qtds_def size_of_Qtd_def)
  show ?thesis
    using a(1) in_q setup_q q t link ok s(3) i(3)
    by (simp add: OldDevice_get_descriptor_start_def uint_new_def old_chain_ready_def Let_def old_write_qtds_def
        old_write_qh_def size_of_Qtd_def qtd_is_def)
qed

subsection \<open>Reading the device\<close>

text \<open>
  What the queue head manager, the controller and the device do together with a ready chain: the data of the device, when it fits,
  is at the start of the buffer when \<^verbatim>\<open>remove_qh\<close> returns, and the data descriptor counts what is left.
\<close>

definition old_conforming ::
    "(nat \<Rightarrow> usb_request \<Rightarrow> bytes) \<Rightarrow> (u32 \<Rightarrow> alternate_qtd_link_ptr) \<Rightarrow> old_device \<Rightarrow> old_mem \<Rightarrow> old_mem \<Rightarrow> old_mem \<Rightarrow> old_slice
      \<Rightarrow> qh_manager \<Rightarrow> (old_io \<Rightarrow> old_io) \<Rightarrow> bool" where
  "old_conforming dev alt_new d qh_mem qtds_mem sp buffer qm hw \<longleftrightarrow>
     (\<forall>m r. old_chain_ready alt_new d qh_mem qtds_mem sp buffer m
        \<and> decode_request (oio_bufs m (om_ptr sp)) = Some r \<and> length (dev (oio_transfers m) r) \<le> om_len buffer
      \<longrightarrow> (let m' = qm_remove_qh qm qh_mem (old_await hw (qm_add_qh_to_async_list qm qh_mem m))
          in take (length (dev (oio_transfers m) r)) (oio_bufs m' (om_ptr buffer)) = dev (oio_transfers m) r
             \<and> om_len buffer \<le> length (oio_bufs m' (om_ptr buffer))
             \<and> 1 < length (oio_qtds m' (om_ptr qtds_mem)) \<and> oio_transfers m' = Suc (oio_transfers m)
             \<and> TransferToken_total_bytes_to_transfer (qtd_token (oio_qtds m' (om_ptr qtds_mem) ! 1))
                 = of_nat (om_len buffer - length (dev (oio_transfers m) r))))"

lemma old_get_descriptor_reads:
  assumes "old_resources_ok qtds_mem sp buffer" "old_conforming dev alt_new d qh_mem qtds_mem sp buffer qm hw"
    and "decode_request (oio_bufs m (om_ptr sp)) = Some r" "length (dev (oio_transfers m) r) \<le> om_len buffer"
  shows "\<exists>m'. OldDevice_get_descriptor qm hw alt_new d qh_mem qtds_mem sp buffer m = Inr (length (dev (oio_transfers m) r), m')
    \<and> slice_range (take (om_len buffer) (oio_bufs m' (om_ptr buffer))) 0 (length (dev (oio_transfers m) r)) = Inr (dev (oio_transfers m) r)
    \<and> oio_transfers m' = Suc (oio_transfers m)"
proof -
  let ?n = "length (dev (oio_transfers m) r)" and ?l = "om_len buffer"
  obtain m1 where m1: "OldDevice_get_descriptor_start alt_new d qh_mem qtds_mem sp buffer m = Inr (of_nat ?l, m1)"
      "old_chain_ready alt_new d qh_mem qtds_mem sp buffer m1" "oio_bufs m1 = oio_bufs m" "oio_transfers m1 = oio_transfers m"
    using old_get_descriptor_start_ready [OF assms(1)] by blast
  let ?m = "qm_remove_qh qm qh_mem (old_await hw (qm_add_qh_to_async_list qm qh_mem m1))"
  have c: "take ?n (oio_bufs ?m (om_ptr buffer)) = dev (oio_transfers m) r" "?l \<le> length (oio_bufs ?m (om_ptr buffer))"
      "1 < length (oio_qtds ?m (om_ptr qtds_mem))" "oio_transfers ?m = Suc (oio_transfers m)"
      "TransferToken_total_bytes_to_transfer (qtd_token (oio_qtds ?m (om_ptr qtds_mem) ! 1)) = of_nat (?l - ?n)"
    using assms(2-4) m1 unfolding old_conforming_def Let_def by (metis (no_types, lifting))+
  have l: "?l < 2 ^ 15" using assms(1) by (simp add: old_resources_ok_def)
  have u: "unat (of_nat ?l :: u15) = ?l" "unat (of_nat (?l - ?n) :: u15) = ?l - ?n"
    using l by (simp_all add: unat_of_nat take_bit_nat_eq_self)
  have le: "(of_nat (?l - ?n) :: u15) \<le> of_nat ?l" by (simp only: word_le_nat_alt u)
  then have "unat (of_nat ?l - of_nat (?l - ?n) :: u15) = ?n" using assms(4) by (simp only: unat_sub u)
  with m1(1) c le assms(4) show ?thesis
    by (simp add: OldDevice_get_descriptor_def Let_def index_list_def checked_sub_def slice_range_def)
qed

lemma old_fields_Inr:
  assumes "old_fields lay b = Inr (qh_mem, qtds_mem, sp, buffer_mem)"
  shows "om_ptr buffer_mem = om_ptr b"
  using assms by (auto simp: old_fields_def old_field_def obind_eq_Inr_iff)

lemma old_resources_shrink:
  assumes "old_resources_ok qtds_mem sp (old_cast_slice n b)" "k \<le> n"
  shows "old_resources_ok qtds_mem sp (old_cast_slice k b)"
  using assms by (auto simp: old_resources_ok_def old_cast_slice_def window_ok_def)

lemma old_source_parses:
  assumes "configuration_source_ok c"
  shows "\<exists>oc. old_configuration_from (encode_source c) = Some (Inr oc) \<and> new_configuration oc = source_info c"
proof -
  have "map_option (map_sum id new_configuration) (old_configuration_from (encode_source c)) = Some (Inr (source_info c))"
    using source_parses [OF assms] by (simp add: old_configuration_eq)
  then obtain x where "old_configuration_from (encode_source c) = Some x" "map_sum id new_configuration x = Inr (source_info c)" by auto
  then show ?thesis by (cases x) auto
qed

text \<open>The memory of \<^verbatim>\<open>get_device_info\<close>, and a conforming environment for both sizes of buffer it uses.\<close>

definition old_info_ok ::
    "(nat \<Rightarrow> usb_request \<Rightarrow> bytes) \<Rightarrow> (u32 \<Rightarrow> alternate_qtd_link_ptr) \<Rightarrow> old_device \<Rightarrow> get_info_layout \<Rightarrow> old_mem
      \<Rightarrow> qh_manager \<Rightarrow> (old_io \<Rightarrow> old_io) \<Rightarrow> bool" where
  "old_info_ok dev alt_new d lay buffer qm hw \<longleftrightarrow>
     (\<exists>qh_mem qtds_mem sp b. old_fields lay buffer = Inr (qh_mem, qtds_mem, sp, b)
        \<and> old_resources_ok qtds_mem sp (old_cast_slice MAX_CONFIGURATION_DESCRIPTOR_LEN b)
        \<and> old_conforming dev alt_new d qh_mem qtds_mem sp (old_cast_slice 18 b) qm hw
        \<and> old_conforming dev alt_new d qh_mem qtds_mem sp (old_cast_slice MAX_CONFIGURATION_DESCRIPTOR_LEN b) qm hw)"

lemma old_write_buf_simps [simp]:
  "oio_bufs (old_write_buf p bs m) p = bs" "oio_transfers (old_write_buf p bs m) = oio_transfers m"
  by (simp_all add: old_write_buf_def)

lemma old_cast_slice_simps [simp]:
  "om_len (old_cast_slice n b) = n" "om_ptr (old_cast_slice n b) = om_ptr b"
  by (simp_all add: old_cast_slice_def)

lemma old_configurations_loop_reads:
  assumes ok: "old_info_ok dev alt_new d lay buffer qm hw" and p: "presents dev t dd cs"
    and "i + k = length cs" "oio_transfers m = t + Suc i"
  shows "\<exists>m' ocs. old_configurations_loop qm hw alt_new d lay buffer k (of_nat i) acc m = Some (Inr (acc @ ocs, m'))
    \<and> map new_configuration ocs = map source_info (drop i cs)"
  using assms(3,4)
proof (induction k arbitrary: i acc m)
  case (Suc k)
  obtain qh_mem qtds_mem sp b where f: "old_fields lay buffer = Inr (qh_mem, qtds_mem, sp, b)"
      "old_resources_ok qtds_mem sp (old_cast_slice MAX_CONFIGURATION_DESCRIPTOR_LEN b)"
      "old_conforming dev alt_new d qh_mem qtds_mem sp (old_cast_slice MAX_CONFIGURATION_DESCRIPTOR_LEN b) qm hw"
    using ok unfolding old_info_ok_def by blast
  have i: "i < length cs" using Suc.prems(1) by simp
  with p have c: "configuration_source_ok (cs ! i)"
    and dev: "dev (t + Suc i) (ReqGetDescriptor Standard 2 (of_nat i) 4096) = encode_source (cs ! i)"
    by (auto simp: presents_def list_all_length)
  have len: "length (encode_source (cs ! i)) \<le> 4096"
    using c by (simp add: configuration_source_ok_def MAX_CONFIGURATION_DESCRIPTOR_LEN_def)
  obtain m' where m': "OldDevice_get_configuration_descriptor qm hw alt_new d (of_nat i) qh_mem qtds_mem sp b m
        = Inr (length (encode_source (cs ! i)), m')"
      "slice_range (take MAX_CONFIGURATION_DESCRIPTOR_LEN (oio_bufs m' (om_ptr b))) 0 (length (encode_source (cs ! i))) = Inr (encode_source (cs ! i))"
      "oio_transfers m' = t + Suc (Suc i)"
    using old_get_descriptor_reads [OF f(2,3), of "old_write_buf (om_ptr sp) (SetupPacket_bytes
        (SetupPacket_new_get_configuration_descriptor (of_nat MAX_CONFIGURATION_DESCRIPTOR_LEN) (of_nat i))) m"
        "ReqGetDescriptor Standard 2 (of_nat i) 4096"] Suc.prems(2) dev len
    by (auto simp: OldDevice_get_configuration_descriptor_def MAX_CONFIGURATION_DESCRIPTOR_LEN_def)
  obtain oc where oc: "old_configuration_from (encode_source (cs ! i)) = Some (Inr oc)" "new_configuration oc = source_info (cs ! i)"
    using old_source_parses [OF c] by blast
  obtain m'' ocs where "old_configurations_loop qm hw alt_new d lay buffer k (of_nat (Suc i)) (acc @ [oc]) m'
      = Some (Inr ((acc @ [oc]) @ ocs, m''))" "map new_configuration ocs = map source_info (drop (Suc i) cs)"
    using Suc.IH [of "Suc i" m' "acc @ [oc]"] Suc.prems m'(3) by auto
  with m' f(1) oc i old_fields_Inr [OF f(1)] show ?case
    by (intro exI [of _ m''] exI [of _ "oc # ocs"]) (simp add: Cons_nth_drop_Suc [symmetric] add.commute)
qed simp

lemma old_get_device_info_reads:
  assumes "old_info_ok dev alt_new d lay buffer qm hw" "presents dev (oio_transfers m) dd cs"
  shows "\<exists>info m'. OldDevice_get_device_info qm hw alt_new d lay buffer m = Some (Inr (info, m'))
    \<and> new_device_info info = DeviceInfo_from_descriptor dd (map source_info cs)"
proof -
  let ?r = "ReqGetDescriptor Standard 1 0 18"
  obtain qh_mem qtds_mem sp b where f: "old_fields lay buffer = Inr (qh_mem, qtds_mem, sp, b)"
      "old_resources_ok qtds_mem sp (old_cast_slice 18 b)"
      "old_conforming dev alt_new d qh_mem qtds_mem sp (old_cast_slice 18 b) qm hw"
    using assms(1) old_resources_shrink [of _ _ MAX_CONFIGURATION_DESCRIPTOR_LEN _ 18] unfolding old_info_ok_def
    by (auto simp: MAX_CONFIGURATION_DESCRIPTOR_LEN_def)
  have dd: "DeviceDescriptor_from_bytes (dev (oio_transfers m) ?r) = Some dd" and n: "unat (dd_b_num_configurations dd) = length cs"
    using assms(2) by (simp_all add: presents_def)
  note l = device_descriptor_length [OF dd]
  obtain m1 where m1: "OldDevice_get_device_descriptor qm hw alt_new d qh_mem qtds_mem sp b m = Inr (dd, m1)"
      "oio_transfers m1 = oio_transfers m + Suc 0"
    using old_get_descriptor_reads [OF f(2,3), of "old_write_buf (om_ptr sp) (SetupPacket_bytes
        (SetupPacket_new_get_device_descriptor 18)) m" ?r] l dd
    by (auto simp: OldDevice_get_device_descriptor_def)
  obtain m2 ocs where "old_configurations_loop qm hw alt_new d lay buffer (length cs) 0 [] m1 = Some (Inr (ocs, m2))"
      "map new_configuration ocs = map source_info cs"
    using old_configurations_loop_reads [OF assms, of 0 "length cs" m1 "[]"] m1(2) by auto
  then show ?thesis using f(1) m1(1) n
    by (simp add: OldDevice_get_device_info_def new_device_info_def old_device_info_of_def DeviceInfo_from_descriptor_def)
qed

text \<open>C40: The rewrite kept the meaning: for the same device, the old \<^verbatim>\<open>get_device_info\<close> and the \<open>get_info\<close> that replaced it both return, and
  with the same information, field by field, although the one builds and removes a queue head for each transfer and the other
  keeps a queue head and attaches chains to it.\<close>

theorem old_info_equals_new:
  assumes "old_info_ok dev alt_new od lay buffer qm old_hw" "oio_transfers om = io_transfers m"
    and "get_info_resources_ok off at (lce_ctrl_ds_segment (ld_ep0 d)) res" "info_conforming dev off at (ld_ep0 d) res hw"
    and "presents dev (io_transfers m) dd cs"
  shows "\<exists>info om' dwi m'. OldDevice_get_device_info qm old_hw alt_new od lay buffer om = Some (Inr (info, om'))
    \<and> get_info hw d res m = Some (Inr (dwi, m')) \<and> new_device_info info = dwi_info dwi"
  using old_get_device_info_reads [OF assms(1), of om dd cs] get_info_reads [OF assms(3-5)] assms(2,5) by fastforce

definition example_old_hw :: "(nat \<Rightarrow> usb_request \<Rightarrow> bytes) \<Rightarrow> old_io \<Rightarrow> old_io" where
  "example_old_hw dev m =
     (let d = (case decode_request (oio_bufs m 0x2200) of None \<Rightarrow> [] | Some r \<Rightarrow> dev (oio_transfers m) r); qs = oio_qtds m 0x2100
      in m\<lparr>oio_bufs := (oio_bufs m)(0x1000 := d @ replicate (4096 - length d) 0),
           oio_qtds := (oio_qtds m)(0x2100 := qs[1 := (qs ! 1)\<lparr>qtd_token := TransferToken_with_total_bytes_to_transfer
             (TransferToken_total_bytes_to_transfer (qtd_token (qs ! 1)) - of_nat (length d)) 0\<rparr>])\<rparr>)"

definition example_qm :: qh_manager where
  "example_qm = \<lparr>qm_add_qh_to_async_list = \<lambda>_ m. m, qm_remove_qh = \<lambda>_ m. m\<rparr>"

definition example_layout :: get_info_layout where
  "example_layout = \<lparr>lay_qh = 0x1000, lay_qtds = 0x1100, lay_setup_packet = 0x1200\<rparr>"

definition example_old_io :: old_io where
  "example_old_io = \<lparr>oio_qhs = \<lambda>_. Qh_new 0 0, oio_qtds = \<lambda>_. [], oio_bufs = \<lambda>_. [], oio_periodic_list = PeriodicFrameList_EMPTY,
     oio_transfers = 0\<rparr>"

lemma old_in_token_total [simp]: "TransferToken_total_bytes_to_transfer (old_in_token n) = of_nat n"
  by (simp add: old_in_token_def TransferToken_new_active_def bitfield_defs bitfield)

lemma example_old_conforming:
  assumes "om_ptr buf = 0x1000" "om_ptr sp = 0x2200" "om_ptr q = 0x2100" "om_len buf \<le> 4096"
  shows "old_conforming dev alt_new d qh_mem q sp buf example_qm (example_old_hw dev)"
  using assms
  by (auto simp: old_conforming_def example_qm_def example_old_hw_def old_await_def old_chain_ready_def qtd_is_def Let_def of_nat_diff)

lemma example_old_info_ok:
  "old_info_ok dev alt_new d example_layout \<lparr>om_phys_addr = 0x1000, om_ptr = 0x1000\<rparr> example_qm (example_old_hw dev)"
proof -
  have "old_fields example_layout \<lparr>om_phys_addr = 0x1000, om_ptr = 0x1000\<rparr> = Inr (\<lparr>om_phys_addr = 0x2000, om_ptr = 0x2000\<rparr>,
      \<lparr>om_phys_addr = 0x2100, om_ptr = 0x2100\<rparr>, \<lparr>om_phys_addr = 0x2200, om_ptr = 0x2200\<rparr>, \<lparr>om_phys_addr = 0x1000, om_ptr = 0x1000\<rparr>)"
    by (simp add: old_fields_def old_field_def example_layout_def checked_add_def)
  moreover have "old_resources_ok \<lparr>om_phys_addr = 0x2100, om_ptr = 0x2100\<rparr> \<lparr>om_phys_addr = 0x2200, om_ptr = 0x2200\<rparr>
      (old_cast_slice MAX_CONFIGURATION_DESCRIPTOR_LEN \<lparr>om_phys_addr = 0x1000, om_ptr = 0x1000\<rparr>)"
    by (simp add: old_resources_ok_def old_cast_slice_def size_of_Qtd_def window_ok_def MAX_CONFIGURATION_DESCRIPTOR_LEN_def)
  ultimately show ?thesis
    unfolding old_info_ok_def by (auto intro!: example_old_conforming simp: MAX_CONFIGURATION_DESCRIPTOR_LEN_def)
qed

lemma example_presents:
  "\<exists>dd. presents example_device 0 dd [example_source]"
  using example_source_ok by (auto simp: presents_def example_device_def example_device_bytes_def)

theorem old_info_equals_new_witness:
  "\<exists>info om' dwi m'. OldDevice_get_device_info example_qm (example_old_hw example_device) AlternateQtdLinkPtr_new_valid
      \<lparr>od_root_port_number = 0, od_port_sc_reg = 0, od_addr = 1\<rparr> example_layout \<lparr>om_phys_addr = 0x1000, om_ptr = 0x1000\<rparr> example_old_io
      = Some (Inr (info, om'))
    \<and> get_info (example_controller example_device) example_loaded example_resources example_io = Some (Inr (dwi, m'))
    \<and> new_device_info info = dwi_info dwi"
proof -
  obtain dd where dd: "presents example_device (io_transfers example_io) dd [example_source]"
    using example_presents by (auto simp: example_io_def)
  have "get_info_resources_ok ucast ucast (lce_ctrl_ds_segment (ld_ep0 example_loaded)) example_resources"
    using example_info_resources by (simp add: example_loaded_def example_ep0_def)
  then show ?thesis
    by (rule old_info_equals_new [OF example_old_info_ok _ _ example_info_conforming dd, rotated])
      (simp add: example_old_io_def example_io_def)
qed

subsection \<open>The experimental interrupt endpoint\<close>

lemma length_fold_stride [simp]: "length (fold (\<lambda>i l. l[i * 8 := x]) is l) = length l"
  by (induction "is" arbitrary: l) auto

lemma nth_fold_stride:
  assumes "j < length l"
  shows "fold (\<lambda>i l. l[i * 8 := x]) [0..<n] l ! j = (if j mod 8 = 0 \<and> j div 8 < n then x else l ! j)"
proof (induction n)
  case (Suc n)
  then show ?case using assms by (cases "n * 8 = j") (auto elim!: less_SucE)
qed simp

text \<open>\<^verbatim>\<open>dev\<close> leads every eighth frame, and no other, to a queue head whose one descriptor asks for a packet of eight bytes and is linked
  to itself.\<close>

theorem old_dev_schedules:
  assumes "window_ok (ucast (om_phys_addr buffer_mem)) 8" "length (oio_periodic_list m) = 1024"
  shows "\<exists>m'. OldDevice_dev_start d qh_mem qtds_mem buffer_mem m = Inr m'
    \<and> (\<forall>j < 1024. oio_periodic_list m' ! j
         = (if j mod 8 = 0 then PeriodicFrameListElement_new Qh (om_phys_addr qh_mem) else oio_periodic_list m ! j))
    \<and> next_qtd_pointer (oio_qhs m' (om_ptr qh_mem)) = NextQtdPointer_new_valid (om_phys_addr qtds_mem)
    \<and> qtd_is old_dev_token (ucast (om_phys_addr buffer_mem)) 8 (NextQtdPointer_new_valid (om_phys_addr qtds_mem))
         AlternateQtdLinkPtr_INVALID (oio_qtds m' (om_ptr qtds_mem) ! 0)"
proof -
  let ?b = "ucast (om_phys_addr buffer_mem) :: u64"
  obtain bp q where q: "BufferPtrs_new_contiguous ?b 8 = Inr bp" "Qtd_new old_dev_token bp = Inr q"
      "qtd_is old_dev_token ?b 8 NextQtdPointer_INVALID AlternateQtdLinkPtr_INVALID q"
    using Qtd_new_window [OF assms(1), of 8 old_dev_token] by auto
  have "old_dev_slot buffer_mem 0 = Inr bp"
    using q(1) unsigned_less [of ?b, where ?'a = nat] by (simp add: old_dev_slot_def checked_add_def)
  then have d: "old_dev_qtd buffer_mem 0 = Inr q" using q(2) by (simp add: old_dev_qtd_def)
  obtain h where h: "old_dev_qh d = Inr h" by (simp add: old_dev_qh_def uint_new_def)
  have "j div 8 < 1024 div 8" if "j < 1024" for j :: nat using that by (simp add: div_less_iff_less_mult)
  then show ?thesis
    using d h q(3) assms(2)
    by (auto simp: OldDevice_dev_start_def link_contiguous_qtds_def Let_def nth_fold_stride old_write_qtds_def old_write_qh_def qtd_is_def)
qed

theorem old_dev_schedules_witness:
  "\<exists>m'. OldDevice_dev_start \<lparr>od_root_port_number = 0, od_port_sc_reg = 0, od_addr = 1\<rparr> \<lparr>om_phys_addr = 0x2000, om_ptr = 0x2000\<rparr>
      \<lparr>om_phys_addr = 0x2100, om_ptr = 0x2100\<rparr> \<lparr>om_phys_addr = 0x1000, om_ptr = 0x1000\<rparr> example_old_io = Inr m'
    \<and> oio_periodic_list m' ! 16 = PeriodicFrameListElement_new Qh 0x2000"
proof -
  have "window_ok (ucast (om_phys_addr \<lparr>om_phys_addr = 0x1000, om_ptr = 0x1000\<rparr>)) 8" "length (oio_periodic_list example_old_io) = 1024"
    by (simp_all add: window_ok_def example_old_io_def PeriodicFrameList_EMPTY_def)
  from old_dev_schedules [OF this, of "\<lparr>od_root_port_number = 0, od_port_sc_reg = 0, od_addr = 1\<rparr>"
      "\<lparr>om_phys_addr = 0x2000, om_ptr = 0x2000\<rparr>" "\<lparr>om_phys_addr = 0x2100, om_ptr = 0x2100\<rparr>"]
  show ?thesis by auto
qed

text \<open>A packet that has arrived is read from the slot of its descriptor, and the descriptor goes back to the controller for the
  same slot, whatever offset the controller has left in it.\<close>

theorem old_dev_packet:
  assumes "window_ok (ucast (om_phys_addr buffer_mem)) 8" "unat (ucast (om_phys_addr buffer_mem) mod 0x1000 :: u64) + 8 \<le> 0x1000"
    and "oio_qtds m (om_ptr qtds_mem) = [q]" "\<not> TransferToken_active (qtd_token q)" "length (oio_bufs m (om_ptr buffer_mem)) = 8"
    and "qtd_page q 0 = ucast (om_phys_addr buffer_mem) - ucast (om_phys_addr buffer_mem) mod 0x1000"
  shows "\<exists>q' m'. OldDevice_dev_step aw cx a d qtds_mem buffer_mem (0, m, ws) = Inr (Some (oio_bufs m (om_ptr buffer_mem)), 0, m', ws)
    \<and> oio_qtds m' (om_ptr qtds_mem) = [q'] \<and> qtd_token q' = old_dev_token \<and> next_qtd_ptr q' = next_qtd_ptr q
    \<and> (\<forall>k < 8. qtd_byte_addr q' k = ucast (om_phys_addr buffer_mem) + of_nat k)"
proof -
  let ?b = "ucast (om_phys_addr buffer_mem) :: u64"
  obtain bp where bp: "BufferPtrs_new_contiguous ?b 8 = Inr bp" using Qtd_new_window [OF assms(1), of 8 0] by auto
  then have slot: "old_dev_slot buffer_mem 0 = Inr bp"
    using unsigned_less [of ?b, where ?'a = nat] by (simp add: old_dev_slot_def checked_add_def)
  have "unat (?b mod 0x1000) < 4096" by (simp add: unat_mod_distrib)
  moreover have "bp_offset bp = of_nat (unat (?b mod 0x1000))" using bp by (simp add: new_contiguous_Inr_iff)
  ultimately have o: "unat (bp_offset bp) = unat (?b mod 0x1000)"
    by (simp only: unat_of_nat) (simp add: take_bit_nat_eq_self)
  let ?q = "q\<lparr>buffer_pointer_page_0 := QtdBufferPagePointerPage0_with_current_offset (bp_offset bp) (buffer_pointer_page_0 q),
    qtd_token := old_dev_token\<rparr>"
  have "QtdBufferPagePointerPage0_current_offset (buffer_pointer_page_0 ?q) = bp_offset bp" by (simp add: bitfield_defs bitfield)
  moreover have "qtd_page ?q 0 = qtd_page q 0" using qtd_page_0_update [of "bp_offset bp" q] by (simp add: qtd_page_def)
  ultimately have "qtd_byte_addr ?q k = ?b - ?b mod 0x1000 + of_nat (unat (?b mod 0x1000) + k)" if "k < 8" for k
    using that o assms(2,6) by (simp add: qtd_byte_addr_def Let_def del: of_nat_add)
  then have "qtd_byte_addr ?q k = ?b + of_nat k" if "k < 8" for k using that by (simp add: of_nat_unat)
  then show ?thesis
    using slot assms(3-5) by (intro exI [of _ ?q]) (simp add: OldDevice_dev_step_def index_list_def Let_def)
qed

subsection \<open>Requests without data\<close>

lemma drop_two: "drop (Suc (Suc 0)) xs = drop 2 xs"
  by (simp add: numeral_2_eq_2)

lemma old_setup_transfer_chain:
  assumes "unat (om_phys_addr qtds_mem) + size_of_Qtd < 2 ^ 32" "window_ok (ucast (om_phys_addr sp)) 8"
  shows "\<exists>m'. OldDevice_do_setup_transfer_start d qh_mem qtds_mem sp m = Inr m'
    \<and> EndpointCharacteristics_device_addr (endpoint_characteristics (oio_qhs m' (om_ptr qh_mem))) = od_addr d
    \<and> next_qtd_pointer (oio_qhs m' (om_ptr qh_mem)) = NextQtdPointer_new_valid (om_phys_addr qtds_mem)
    \<and> qtd_is (TransferToken_new_active SetupToken 8) (ucast (om_phys_addr sp)) 8
         (NextQtdPointer_new_valid (om_phys_addr qtds_mem + of_nat size_of_Qtd)) AlternateQtdLinkPtr_INVALID
         (oio_qtds m' (om_ptr qtds_mem) ! 0)
    \<and> qtd_token (oio_qtds m' (om_ptr qtds_mem) ! 1) = status_token InToken
    \<and> next_qtd_ptr (oio_qtds m' (om_ptr qtds_mem) ! 1) = NextQtdPointer_INVALID
    \<and> drop 2 (oio_qtds m' (om_ptr qtds_mem)) = drop 2 (oio_qtds m (om_ptr qtds_mem)) \<and> oio_bufs m' = oio_bufs m
    \<and> oio_transfers m' = oio_transfers m"
proof -
  obtain bs s where s: "BufferPtrs_new_contiguous (ucast (om_phys_addr sp)) 8 = Inr bs"
      "Qtd_new (TransferToken_new_active SetupToken 8) bs = Inr s"
      "qtd_is (TransferToken_new_active SetupToken 8) (ucast (om_phys_addr sp)) 8 NextQtdPointer_INVALID AlternateQtdLinkPtr_INVALID s"
    using Qtd_new_window [OF assms(2), of 8 "TransferToken_new_active SetupToken 8"] by auto
  obtain t where t: "old_status_qtd InToken = Inr t" "qtd_token t = status_token InToken" "next_qtd_ptr t = NextQtdPointer_INVALID"
    using Qtd_new_total [OF new_contiguous_ZERO_length, of "status_token InToken"] by (auto simp: old_status_qtd_def status_token_def)
  obtain q where q: "old_setup_transfer_qh d = Inr q" "EndpointCharacteristics_device_addr (endpoint_characteristics q) = od_addr d"
    by (simp add: old_setup_transfer_qh_def uint_new_def Qh_new_def bitfield_defs bitfield)
  have "old_setup_qtd sp = Inr s" using s by (simp add: old_setup_qtd_def uint_new_def)
  moreover have "checked_add (om_phys_addr qtds_mem) 64 = Inr (om_phys_addr qtds_mem + 64)"
    using assms(1) by (auto simp: checked_add_def size_of_Qtd_def)
  ultimately show ?thesis using q t s(3)
    by (simp add: OldDevice_do_setup_transfer_start_def link_contiguous_qtds_def Let_def size_of_Qtd_def old_write_qtds_def
        old_write_qh_def qtd_is_def drop_two)
qed

text \<open>A queue head manager does not transfer anything itself.\<close>

definition qm_counts :: "qh_manager \<Rightarrow> bool" where
  "qm_counts qm \<longleftrightarrow> (\<forall>q m. oio_transfers (qm_add_qh_to_async_list qm q m) = oio_transfers m
     \<and> oio_transfers (qm_remove_qh qm q m) = oio_transfers m)"

lemma old_do_setup_transfer_counts:
  assumes "unat (om_phys_addr qtds_mem) + size_of_Qtd < 2 ^ 32" "window_ok (ucast (om_phys_addr sp)) 8" "qm_counts qm"
  shows "\<exists>m'. OldDevice_do_setup_transfer qm hw d qh_mem qtds_mem sp m = Inr m' \<and> oio_transfers m' = Suc (oio_transfers m)"
  using old_setup_transfer_chain [OF assms(1,2), of d qh_mem m] assms(3)
  by (auto simp: OldDevice_do_setup_transfer_def qm_counts_def old_await_def)

lemma old_power_ports_counts:
  assumes "unat (om_phys_addr qtds_mem) + size_of_Qtd < 2 ^ 32" "window_ok (ucast (om_phys_addr sp)) 8" "qm_counts qm"
  shows "\<exists>m'. old_power_ports qm hw d ports qh_mem qtds_mem sp m = Inr m' \<and> oio_transfers m' = oio_transfers m + length ports"
proof (induction ports arbitrary: m)
  case (Cons p ports)
  let ?m = "old_write_buf (om_ptr sp) (SetupPacket_bytes (SetupPacket_new_set_feature_port_power p)) m"
  obtain m' where m': "OldDevice_do_setup_transfer qm hw d qh_mem qtds_mem sp ?m = Inr m'" "oio_transfers m' = Suc (oio_transfers m)"
    using old_do_setup_transfer_counts [OF assms, of hw d qh_mem ?m] by auto
  with Cons.IH [of m'] show ?case by auto
qed simp

text \<open>For a hub whose descriptor parses, \<^verbatim>\<open>hub_info\<close> returns after exactly two requests and one for each port.\<close>

theorem old_hub_info_requests:
  assumes "old_resources_ok qtds_mem sp (old_cast_slice size_of_HubDescriptor b)"
    and "old_conforming dev alt_new d qh_mem qtds_mem sp (old_cast_slice size_of_HubDescriptor b) qm hw" "qm_counts qm"
    and "decode_request (SetupPacket_bytes (SetupPacket_new_get_hub_descriptor (of_nat size_of_HubDescriptor))) = Some r"
    and "length (dev (oio_transfers m) r) \<le> size_of_HubDescriptor" "HubDescriptor_from_bytes (dev (oio_transfers m) r) = Inr h"
  shows "\<exists>m'. OldDevice_hub_info qm hw alt_new d qh_mem qtds_mem sp b m = Inr m'
    \<and> oio_transfers m' = oio_transfers m + 2 + unat (hd_b_nbr_ports (fixed_size_fields h))"
proof -
  let ?m = "old_write_buf (om_ptr sp) (SetupPacket_bytes (SetupPacket_new_get_hub_descriptor (of_nat size_of_HubDescriptor))) m"
  let ?d = "dev (oio_transfers m) r"
  obtain m1 where m1: "OldDevice_get_descriptor qm hw alt_new d qh_mem qtds_mem sp (old_cast_slice size_of_HubDescriptor b) ?m
        = Inr (length ?d, m1)" "oio_transfers m1 = Suc (oio_transfers m)"
      "slice_range (take size_of_HubDescriptor (oio_bufs m1 (om_ptr b))) 0 (length ?d) = Inr ?d"
    using old_get_descriptor_reads [OF assms(1,2), of ?m r] assms(4,5) by auto
  have "take (length ?d) (oio_bufs m1 (om_ptr b)) = ?d"
    using m1(3) assms(5) by (auto simp: slice_range_Inr_iff min_def)
  moreover have ok: "unat (om_phys_addr qtds_mem) + size_of_Qtd < 2 ^ 32" "window_ok (ucast (om_phys_addr sp)) 8"
    using assms(1) by (auto simp: old_resources_ok_def)
  obtain m2 where "OldDevice_set_configuration qm hw d 1 qh_mem qtds_mem sp m1 = Inr m2" "oio_transfers m2 = Suc (oio_transfers m1)"
    using old_do_setup_transfer_counts [OF ok assms(3), of hw d qh_mem] unfolding OldDevice_set_configuration_def
    by (metis old_write_buf_simps(2))
  ultimately show ?thesis
    using m1(1,2) assms(6)
      old_power_ports_counts [OF ok assms(3), of hw d "map of_nat [1..<Suc (unat (hd_b_nbr_ports (fixed_size_fields h)))]" qh_mem m2]
    by (auto simp: OldDevice_hub_info_def Let_def simp del: upt_Suc)
qed

end
