(* ===== verification/Spec2Isabelle.thy ===== *)
theory Spec2Isabelle
  imports Setup_Packets Hub Interrupt_Path Legacy_Handoff Reference_Parser Driver_Runs Reset_Protocol Packet_Ring Device_Old
begin

text \<open>
  \<^bold>\<open>A verification of the EHCI driver \<^verbatim>\<open>ez_ehci\<close>.\<close>  The driver brings up a USB 2.0 host controller, resets the
  devices on its root ports, gives them addresses, reads their descriptors and runs control and
  interrupt transfers.  It has no threads of its own.  Four kinds of code meet in shared memory: the interrupt handler,
  the runner (one long-lived task), the tasks of the user, and the controller, which reads and
  writes registers, queue heads and descriptors at any time.

  \<^bold>\<open>Parts and theories.\<close>  The files are those under \<^verbatim>\<open>src/src\<close>.
  \<^item> \<open>Ehci_Prelude\<close>: machine integers, panics as values, checked arithmetic, bit fields, bytes.
  \<^item> \<open>Transfer_Structs\<close> (\<^verbatim>\<open>transfer_token.rs\<close>, \<^verbatim>\<open>buffer_ptrs.rs\<close>, \<^verbatim>\<open>qtd.rs\<close>, \<^verbatim>\<open>queue_head.rs\<close>, \<^verbatim>\<open>periodic_list.rs\<close>, \<^verbatim>\<open>mapped_mem.rs\<close>,
    \<^verbatim>\<open>util.rs\<close>, \<^verbatim>\<open>start_config.rs\<close>): what driver and controller share in memory.  Link pointers lead back to
    the address they were made from; the page pointers of a descriptor reach every byte of its buffer.
  \<^item> \<open>Setup_Packets\<close> (\<^verbatim>\<open>setup_packet.rs\<close>): the requests; their bytes decode to the request meant.
  \<^item> \<open>Registers\<close> (\<^verbatim>\<open>operational_regs.rs\<close>, \<^verbatim>\<open>capability_regs.rs\<close>): register fields and the write-to-clear bits of a port.
  \<^item> \<open>Address_Allocation\<close> (\<^verbatim>\<open>address_allocator.rs\<close>): the smallest free address, 1 to 127.
  \<^item> \<open>Signals\<close> (\<^verbatim>\<open>signal.rs\<close>, \<^verbatim>\<open>oneshot.rs\<close>): a refinement of a mailbox, and every interleaving of a oneshot's halves.
  \<^item> \<open>Async_List\<close> (\<^verbatim>\<open>async_list_manager.rs\<close>): the ring of queue heads.  Every operation keeps the ring, every
    single write leaves the controller a ring, and a removal is reported only after the doorbell that follows it.
  \<^item> \<open>Periodic_List\<close> (\<^verbatim>\<open>periodic_list_manager.rs\<close>): the frame list; which insertion orders serve every endpoint and which do not.
  \<^item> \<open>Descriptors\<close> (the \<^verbatim>\<open>*_descriptor.rs\<close> files, \<^verbatim>\<open>device_info.rs\<close>, \<^verbatim>\<open>port_status_data.rs\<close>): the configuration parser, its
    round trip, and exactly when it may fail to end.
  \<^item> \<open>Irq_Handler\<close> (\<^verbatim>\<open>irq_handler.rs\<close>): what the handler stores and acknowledges, alone and interleaved with a poll.
  \<^item> \<open>Control_Endpoint\<close> (\<^verbatim>\<open>control_endpoint.rs\<close>) and \<open>Interrupt_Endpoint\<close> (\<^verbatim>\<open>interrupt_endpoint.rs\<close>): the descriptor chains and rings of
    transfers, the waits for their completion, the count of bytes.
  \<^item> \<open>Packet_Ring\<close>: the ring of an interrupt endpoint between the controller, which fills descriptors, and the task, which peeks and
    advances: a bounded queue from the second round on, and what the shared first slot does to the first round.
  \<^item> \<open>Device\<close> (\<^verbatim>\<open>device.rs\<close>) and \<open>Hub\<close> (\<^verbatim>\<open>hub.rs\<close>): the dialogues with a device and a hub that conform.
  \<^item> \<open>Device_Old\<close> (\<^verbatim>\<open>device_old.rs\<close>, which no module declaration includes): the earlier device implementation, and that the code that
    replaced it reads the same information from a device.  What that file needs and the repository no longer has is a parameter.
  \<^item> \<open>Runner\<close>, \<open>Port_Reset\<close>, \<open>Running\<close> (\<^verbatim>\<open>runner.rs\<close>, \<^verbatim>\<open>stack.rs\<close>, \<^verbatim>\<open>ehci_control.rs\<close>, \<^verbatim>\<open>root_port.rs\<close>): start-up with bounded waits, the
    reset state machine with its invariant on the default address, and the poll of the running state.
  \<^item> \<open>Interrupt_Path\<close>: the parts put together, from the interrupt of a transfer or of a port change to the task that waits for it.
  \<^item> \<open>Reset_Protocol\<close>: the promise of the reset loop as an abstract protocol, the refinement, and that addresses are unique.
  \<^item> \<open>Enumeration\<close>: from the completed SET_ADDRESS transfer to the delivered device, to its control endpoint on the asynchronous
    schedule, and from \<^verbatim>\<open>watch\<close> to the interrupt endpoint on the periodic one.
  \<^item> \<open>Poll_Safety\<close>, \<open>Driver_Runs\<close>: the well-formed states of the running driver, that every part of a poll keeps them, and that in every run in
    which the tasks hand over memory of their own no poll panics while an address is left for each reset.
  \<^item> \<open>Reference_Parser\<close>: a reference for the configuration parser and the equivalence of the two.
  \<^item> \<open>Legacy_Handoff\<close> (\<^verbatim>\<open>lib.rs\<close>, \<^verbatim>\<open>new_ehci.rs\<close>, \<^verbatim>\<open>usb_leg_sup.rs\<close>, \<^verbatim>\<open>pci.rs\<close>): taking the controller from the BIOS.
  \<^item> This theory: bringing the controller up, from the construction of the driver to the running state.

  \<^bold>\<open>How the code is read.\<close>
  \<^item> A struct is a record, an enum a datatype, an integer a word of its width, a panic the value \<open>Inl\<close> of an
    outcome; overflow checks are on, as in a development build.
  \<^item> Declarations of \<^verbatim>\<open>bitbybit\<close>, \<^verbatim>\<open>arbitrary_int\<close> and \<^verbatim>\<open>zerocopy\<close> are read as the layout they declare.
  \<^item> Memory the controller shares is a store from pointers to values, one store per type (queue heads of the two lists,
    descriptors, buffers); \<open>off\<close> and \<open>at\<close> relate pointers and bus addresses where the controller's view matters.
    An \<^verbatim>\<open>Arc\<close> is a number, a new one \<open>wd_fresh\<close>.
  \<^item> An \<^verbatim>\<open>async\<close> function is cut at its \<^verbatim>\<open>await\<close>s.  Between the pieces the hardware acts; it is a parameter (\<open>hw\<close>, or a function of
    the number of the read).
  \<^item> Code that is not in the repository is a parameter: \<^verbatim>\<open>AtomicWaker\<close> (\<open>aw\<close>, with its documented law \<open>atomic_waker_ok\<close>), \<^verbatim>\<open>Waker::will_wake\<close>,
    the delay futures (\<open>elapsed\<close>), the \<^verbatim>\<open>QhManager\<close> of the earlier implementation, \<^verbatim>\<open>PciAccess\<close> (with \<open>config_space_ok\<close>), and the answers of a device.

  \<^bold>\<open>Loops.\<close>  No definition is given fuel.  The configuration parser and the walk over the capability list may not end
  and are partial functions, whose value \<open>None\<close> is running forever; both are proved to return on exactly
  described inputs.  The reset loop and the waits for a signal are total, by a measure.

  \<^bold>\<open>Interfaces.\<close>  Locales state what one part relies on of another and are interpreted on the model itself: a bit field
  (\<open>Ehci_Prelude\<close>), an allocator (\<open>Address_Allocation\<close>), a mailbox (\<open>Signals\<close>), a schedule (\<open>Async_List\<close>) and a signal sink
  (\<open>Running\<close>).

  \<^bold>\<open>Not modelled.\<close>  Logging; the conversion of the mapped bar into
  register references and the volatile access crate; \<^verbatim>\<open>write_u16\<close> and \<^verbatim>\<open>write_u32\<close> of \<^verbatim>\<open>PciAccess\<close>, which nothing calls; the cost of
  memory orderings weaker than the interleavings above.  \<^verbatim>\<open>transfer_out\<close> and \<^verbatim>\<open>remove_qh\<close> are \<^verbatim>\<open>todo!()\<close> in the source and panic here.
\<close>

section \<open>Bringing the controller up\<close>

text \<open>The hardware acts on the machine between two iterations of the runner's loop.\<close>

definition hardware :: "(machine \<Rightarrow> machine) \<Rightarrow> ('w, 'a) world \<Rightarrow> ('w, 'a) world" where
  "hardware f w = w\<lparr>wd_machine := f (wd_machine w)\<rparr>"

lemma run_step_stopped_waits:
  "\<exists>w. run_step aw ww cx elapsed hw (Stack_new aw mc) = Inr (Waits, Stopped None, w)
     \<and> wd_machine w = mc \<and> control_req_signal (wd_control w) = SigWaiting cx \<and> wd_woken w = []"
  by (simp add: run_step_def Stack_new_def Runner_new_def run_stopped_def ControlSharedState_default_def Signal_default_def Let_def)

lemma run_step_stopped_starts:
  assumes "control_req_signal (wd_control w) = SigSignaled (ControlStart config)"
  shows "\<exists>w'. run_step aw ww cx elapsed hw (Stopped e, w) = Inr (Loops, Stopping (now w) config, w')
    \<and> mc_caps (wd_machine w') = mc_caps (wd_machine w) \<and> \<not> UsbCmdReg_rs (usb_cmd (regs w'))"
  using assms by (auto simp: run_step_def run_stopped_def Let_def upd_usb_cmd_def bitfield_defs bitfield)

text \<open>C1: From its initial state the driver brings a controller up.  The runner first waits; a call of \<open>start\<close>
  wakes it; it clears run/stop, and, once the controller has halted (which \<open>halt\<close>, the hardware's doing, brings about
  when run/stop is clear), sets the reset bit; once the hardware has cleared that bit again, it
  starts the controller with the memory of the configuration: the registers are set, the asynchronous list is the ring of
  the halted anchor alone, the 1024 entries of the frame list are empty, only address 0 is reserved, and the caller of \<open>start\<close> finds \<open>Ok\<close>.\<close>

theorem bring_up_succeeds:
  assumes "start_config_ok off (mc_caps mc) config"
    and "\<And>m. mc_caps (halt m) = mc_caps m" "\<And>m. mc_caps (reset m) = mc_caps m"
    and "\<And>m. \<not> UsbCmdReg_rs (usb_cmd (mc_regs m)) \<Longrightarrow> UsbStsReg_hc_halted (usb_sts (mc_regs (halt m)))"
    and "\<And>m. UsbCmdReg_hc_reset (usb_cmd (mc_regs m)) \<Longrightarrow> \<not> UsbCmdReg_hc_reset (usb_cmd (mc_regs (reset m)))"
  shows "\<exists>w0 w1 w2 w3 t t' rn.
    run_step aw ww cx elapsed hw (Stack_new aw mc) = Inr (Waits, Stopped None, w0)
    \<and> wd_woken (EhciControl_start config w0) = [cx]
    \<and> run_step aw ww cx elapsed hw (Stopped None, EhciControl_start config w0) = Inr (Loops, Stopping t config, w1)
    \<and> run_step aw ww cx elapsed hw (Stopping t config, hardware halt w1) = Inr (Loops, Resetting t' config, w2)
    \<and> run_step aw ww cx elapsed hw (Resetting t' config, hardware reset w2) = Inr (Loops, Running rn, w3)
    \<and> started_regs off config (regs (hardware reset w2)) (regs w3)
    \<and> ring off (mc_async (wd_machine w3)) (mm_ptr (sc_qh config)) []
    \<and> TransferToken_halted (transfer_token (qha_qh (mc_async (wd_machine w3) (mm_ptr (sc_qh config)))))
    \<and> length (plm_list (rn_periodic_list_manager rn)) = 1024
    \<and> list_all PeriodicFrameListElement_t (plm_list (rn_periodic_list_manager rn))
    \<and> used_addrs (rn_addr_allocator rn) = {0} \<and> rn_resetting_device rn = None
    \<and> fst (EhciControl_poll ww user w3) = Some (Inr ())"
proof -
  obtain w0 where w0: "run_step aw ww cx elapsed hw (Stack_new aw mc) = Inr (Waits, Stopped None, w0)"
      "wd_machine w0 = mc" "control_req_signal (wd_control w0) = SigWaiting cx" "wd_woken w0 = []"
    using run_step_stopped_waits [of aw ww cx elapsed hw mc] by blast
  let ?v = "EhciControl_start config w0"
  have v: "wd_woken ?v = [cx]" "wd_machine ?v = mc" "control_req_signal (wd_control ?v) = SigSignaled (ControlStart config)"
    using w0 by (simp_all add: EhciControl_start_def)
  obtain t w1 where w1: "run_step aw ww cx elapsed hw (Stopped None, ?v) = Inr (Loops, Stopping t config, w1)"
      "mc_caps (wd_machine w1) = mc_caps mc" "\<not> UsbCmdReg_rs (usb_cmd (regs w1))"
    using run_step_stopped_starts [OF v(3)] v(2) by fastforce
  let ?h = "hardware halt w1"
  define w2 where "w2 = upd_usb_cmd (UsbCmdReg_with_hc_reset True) ?h"
  have halted: "UsbStsReg_hc_halted (usb_sts (regs ?h))" using assms(4) w1(3) by (simp add: hardware_def)
  then have w2: "run_step aw ww cx elapsed hw (Stopping t config, ?h) = Inr (Loops, Resetting (now ?h) config, w2)"
    by (simp add: run_step_def run_stopping_def w2_def)
  let ?r = "hardware reset w2"
  have "UsbCmdReg_hc_reset (usb_cmd (regs w2))" by (simp add: w2_def bitfield_defs bitfield)
  then have clear: "\<not> UsbCmdReg_hc_reset (usb_cmd (regs ?r))" using assms(5) by (simp add: hardware_def)
  have "mc_caps (wd_machine ?r) = mc_caps mc"
    using assms(2,3) w1(2) by (simp add: hardware_def w2_def upd_usb_cmd_def)
  then obtain rn w3 where s: "start_controller config (usb_cmd (regs ?r)) ?r = Inr (rn, w3)"
      "started_regs off config (regs ?r) (regs w3)" "ring off (mc_async (wd_machine w3)) (mm_ptr (sc_qh config)) []"
      "control_res_signal (wd_control w3) = SigSignaled (Inr ())"
      "TransferToken_halted (transfer_token (qha_qh (mc_async (wd_machine w3) (mm_ptr (sc_qh config)))))"
      "length (plm_list (rn_periodic_list_manager rn)) = 1024"
      "list_all PeriodicFrameListElement_t (plm_list (rn_periodic_list_manager rn))"
      "used_addrs (rn_addr_allocator rn) = {0}" "rn_resetting_device rn = None"
    using start_controller_result [of off ?r config] assms(1)
    by (auto simp: PeriodicListManager_new_def empty_frame_list used_default)
  have "run_step aw ww cx elapsed hw (Resetting (now ?h) config, ?r) = Inr (Loops, Running rn, w3)"
    using clear s(1) by (simp add: run_step_def run_resetting_def Let_def)
  moreover have "fst (EhciControl_poll ww user w3) = Some (Inr ())" using s(4) by (simp add: EhciControl_poll_def)
  ultimately show ?thesis using w0(1) v(1) w1(1) w2 s(2,3,5-9) by blast
qed

theorem bring_up_succeeds_witness:
  "\<exists>w0 w1 w2 w3 t t' rn.
    run_step option_waker (=) 7 (\<le>) (\<lambda>_. id) (Stack_new option_waker example_machine) = Inr (Waits, Stopped None, w0)
    \<and> run_step option_waker (=) 7 (\<le>) (\<lambda>_. id) (Stopped None, EhciControl_start example_start_config w0)
        = Inr (Loops, Stopping t example_start_config, w1)
    \<and> run_step option_waker (=) 7 (\<le>) (\<lambda>_. id) (Stopping t example_start_config, hardware
          (\<lambda>m. m\<lparr>mc_regs := (mc_regs m)\<lparr>usb_sts := 0x1000\<rparr>\<rparr>) w1) = Inr (Loops, Resetting t' example_start_config, w2)
    \<and> run_step option_waker (=) 7 (\<le>) (\<lambda>_. id) (Resetting t' example_start_config, hardware
          (\<lambda>m. m\<lparr>mc_regs := (mc_regs m)\<lparr>usb_cmd := 0x80000\<rparr>\<rparr>) w2) = Inr (Loops, Running rn, w3)"
proof -
  have "start_config_ok ucast (mc_caps example_machine) example_start_config"
    using example_start_config_ok by (simp add: example_world_def)
  from bring_up_succeeds [OF this, where halt = "\<lambda>m. m\<lparr>mc_regs := (mc_regs m)\<lparr>usb_sts := 0x1000\<rparr>\<rparr>"
      and reset = "\<lambda>m. m\<lparr>mc_regs := (mc_regs m)\<lparr>usb_cmd := 0x80000\<rparr>\<rparr>" and aw = option_waker and ww = "(=)" and cx = 7
      and elapsed = "(\<le>)" and hw = "\<lambda>_. id" and user = 3]
  show ?thesis by (force simp: bitfield_defs flag_get_def)
qed

end
